(* ===== verification/Prelude.thy ===== *)
theory Prelude
  imports Main "HOL-Library.Word"
begin

text \<open>
  The shared vocabulary of the development: machine integers, the exceptions of
  \<^verbatim>\<open>packet/tcp_error.hpp\<close>, the other ways a C++ call can fail to return, and the
  state-and-exception monad in which every fallible operation of the client is written.
\<close>

unbundle bit_operations_syntax

section \<open>Theorem collections\<close>

named_theorems io_simps "evaluation rules of the state-and-exception monad"

section \<open>Machine integers\<close>

type_synonym u8 = "8 word"
type_synonym u16 = "16 word"
type_synonym u32 = "32 word"
type_synonym u64 = "64 word"

text \<open>A byte vector (\<^verbatim>\<open>std::vector<char>\<close>, \<^verbatim>\<open>std::string\<close>, a \<^verbatim>\<open>char\<close> array).\<close>

type_synonym bytes = "u8 list"

text \<open>The conversion \<^verbatim>\<open>int32_t(n)\<close> of a size: two's complement of the low 32 bits.\<close>

definition int32 :: "nat \<Rightarrow> int" where
  "int32 n = sint (word_of_nat n :: u32)"

lemma int32_small [simp]: "n < 2 ^ 31 \<Longrightarrow> int32 n = int n"
  by (simp add: int32_def sint_uint signed_take_bit_int_eq_self unsigned_of_nat take_bit_nat_eq_self)

section \<open>Exceptions and faults\<close>

text \<open>\<^verbatim>\<open>TcpException\<close> (packet/tcp_error.hpp): the kind and the saved errno.\<close>

datatype TcpExcType =
    TcpExcBadMsgType
  | TcpExcBadLenEncoding
  | TcpExcBadReturnCode
  | TcpExcDataExceedsPacket
  | TcpExcMsgTooLong
  | TcpExcInvalidFlag
  | TcpExcInvalidProName
  | TcpExcInvalidProVersion
  | TcpExcInvalidSocket
  | TcpExcSocketClose
  | TcpExcSocketError
  | TcpExcUngzipError
  | TcpExcGzipError

record TcpException =
  excType :: TcpExcType
  errorNo :: int

text \<open>
  A call does not return a value when it throws, when it runs into undefined behaviour of
  the language (a null pointer, an array of negative size) or when it never returns.
\<close>

datatype fault = Throw TcpException | Undefined | NoReturn

definition excOf :: "TcpExcType \<Rightarrow> fault" where
  "excOf t = Throw \<lparr>excType = t, errorNo = 0\<rparr>"

lemma excOf_eq [simp]: "excOf s = excOf t \<longleftrightarrow> s = t"
  by (auto simp: excOf_def)

lemma excOf_neq [simp]: "excOf t \<noteq> Undefined" "excOf t \<noteq> NoReturn"
  by (simp_all add: excOf_def)

section \<open>The state-and-exception monad\<close>

text \<open>
  A computation over a state \<open>'s\<close> (the operating system, the reader's position) ends in a
  fault or a value, and in a new state in both cases: what was read before an exception
  stays read.
\<close>

type_synonym ('s, 'a) io = "'s \<Rightarrow> (fault + 'a) \<times> 's"

definition ret :: "'a \<Rightarrow> ('s, 'a) io" where
  "ret a s = (Inr a, s)"

definition fail :: "fault \<Rightarrow> ('s, 'a) io" where
  "fail f s = (Inl f, s)"

definition seq :: "('s, 'a) io \<Rightarrow> ('a \<Rightarrow> ('s, 'b) io) \<Rightarrow> ('s, 'b) io" where
  "seq m k s = (case m s of (Inl f, s') \<Rightarrow> (Inl f, s') | (Inr a, s') \<Rightarrow> k a s')"

lemma ret_apply [simp, io_simps]: "ret a s = (Inr a, s)"
  by (simp add: ret_def)

lemma fail_apply [simp, io_simps]: "fail f s = (Inl f, s)"
  by (simp add: fail_def)

lemma seq_Inr [simp, io_simps]: "m s = (Inr a, s') \<Longrightarrow> seq m k s = k a s'"
  by (simp add: seq_def)

lemma seq_Inl [simp, io_simps]: "m s = (Inl f, s') \<Longrightarrow> seq m k s = (Inl f, s')"
  by (simp add: seq_def)

lemma seq_ret [simp, io_simps]: "seq (ret a) k = k a"
  by (simp add: fun_eq_iff)

lemma seq_fail [simp, io_simps]: "seq (fail f) k = fail f"
  by (simp add: fun_eq_iff)

lemma seq_eq_Inr:
  "seq m k s = (Inr b, t) \<longleftrightarrow> (\<exists>a s'. m s = (Inr a, s') \<and> k a s' = (Inr b, t))"
  by (auto simp: seq_def split: prod.splits sum.splits)

lemma seq_InrE [elim!]:
  assumes "seq m k s = (Inr b, t)"
  obtains a s' where "m s = (Inr a, s')" "k a s' = (Inr b, t)"
  using assms by (auto simp: seq_eq_Inr)

lemma seq_eq_Inl:
  "seq m k s = (Inl f, t) \<longleftrightarrow>
     m s = (Inl f, t) \<or> (\<exists>a s'. m s = (Inr a, s') \<and> k a s' = (Inl f, t))"
  by (auto simp: seq_def split: prod.splits sum.splits)

lemma seq_assoc: "seq (seq m k) h = seq m (\<lambda>a. seq (k a) h)"
  by (auto simp: fun_eq_iff seq_def split: prod.splits sum.splits)

text \<open>A guarded throw: \<^verbatim>\<open>if (c) throw TcpException(t);\<close>\<close>

definition throwIf :: "bool \<Rightarrow> TcpExcType \<Rightarrow> ('s, unit) io" where
  "throwIf c t = (if c then fail (excOf t) else ret ())"

lemma throwIf_True [simp, io_simps]: "throwIf True t = fail (excOf t)"
  by (simp add: throwIf_def)

lemma throwIf_False [simp, io_simps]: "throwIf False t = ret ()"
  by (simp add: throwIf_def)

lemma throwIf_Inr: "throwIf c t s = (Inr u, s') \<longleftrightarrow> \<not> c \<and> s' = s"
  by (auto simp: throwIf_def)

text \<open>A call that cannot fault.\<close>

definition lift :: "('s \<Rightarrow> 'a \<times> 's) \<Rightarrow> ('s, 'a) io" where
  "lift f s = (case f s of (a, s') \<Rightarrow> (Inr a, s'))"

lemma lift_eq_Inr [simp, io_simps]: "lift f s = (Inr a, s') \<longleftrightarrow> f s = (a, s')"
  by (auto simp: lift_def split: prod.splits)

lemma lift_not_Inl [simp, io_simps]: "lift f s \<noteq> (Inl e, s')"
  by (auto simp: lift_def split: prod.splits)

text \<open>\<^verbatim>\<open>try { m } catch (TcpException &e)\<close>: nothing but an exception is caught.\<close>

definition catchExc :: "('s, 'a) io \<Rightarrow> ('s, TcpException + 'a) io" where
  "catchExc m s =
     (case m s of
        (Inl (Throw e), s') \<Rightarrow> (Inr (Inl e), s')
      | (Inl f, s') \<Rightarrow> (Inl f, s')
      | (Inr a, s') \<Rightarrow> (Inr (Inr a), s'))"

text \<open>A state of two parts: a computation on the second, a read and an update of the first.\<close>

definition onWorld :: "('w, 'a) io \<Rightarrow> ('c \<times> 'w, 'a) io" where
  "onWorld m s = (case m (snd s) of (r, w) \<Rightarrow> (r, (fst s, w)))"

definition reads :: "('c \<Rightarrow> 'a) \<Rightarrow> ('c \<times> 'w, 'a) io" where
  "reads f s = (Inr (f (fst s)), s)"

definition update :: "('c \<Rightarrow> 'c) \<Rightarrow> ('c \<times> 'w, unit) io" where
  "update f s = (Inr (), (f (fst s), snd s))"

subsection \<open>Computations that return\<close>

text \<open>\<open>always m Q\<close>: from every state \<open>m\<close> returns, without a fault, a value that satisfies \<open>Q\<close>.\<close>

definition always :: "('s, 'a) io \<Rightarrow> ('a \<Rightarrow> bool) \<Rightarrow> bool" where
  "always m Q \<longleftrightarrow> (\<forall>s. \<exists>a s'. m s = (Inr a, s') \<and> Q a)"

lemma always_ret [simp]: "always (ret a) Q \<longleftrightarrow> Q a"
  by (simp add: always_def)

lemma always_lift: "(\<And>s. Q (fst (f s))) \<Longrightarrow> always (lift f) Q"
  unfolding always_def lift_def by (metis (mono_tags, lifting) case_prod_unfold)

lemma always_lift_any: "always (lift f) (\<lambda>_. True)"
  by (rule always_lift) simp

lemma always_seq: "always m R \<Longrightarrow> (\<And>a. R a \<Longrightarrow> always (k a) Q) \<Longrightarrow> always (seq m k) Q"
  unfolding always_def by (metis seq_Inr)

lemma always_mono: "always m R \<Longrightarrow> (\<And>a. R a \<Longrightarrow> Q a) \<Longrightarrow> always m Q"
  unfolding always_def by blast

lemma always_Inr: "always m Q \<Longrightarrow> m s = (Inr a, s') \<Longrightarrow> Q a"
  unfolding always_def by (metis Pair_inject sum.inject(2))

lemma always_not_Inl: "always m Q \<Longrightarrow> m s \<noteq> (Inl f, s')"
  unfolding always_def by (metis Pair_inject sum.distinct(1))

section \<open>Words and lists\<close>

lemma take_bit_push_or:
  fixes n :: "'a::len word"
  shows "take_bit k n OR push_bit k (take_bit j (drop_bit k n)) = take_bit (k + j) n"
  by (rule bit_word_eqI) (auto simp: bit_simps)

lemma unat_less_2p_take_bit: "unat n < 2 ^ k \<Longrightarrow> take_bit k n = (n :: 'a::len word)"
  by (rule word_unat_eq_iff [THEN iffD2]) (simp add: unsigned_take_bit_eq take_bit_nat_eq_self)

end
