(* ===== verification/TcpErrors.thy ===== *)
theory TcpErrors
  imports Prelude
begin

text \<open>
  \<^verbatim>\<open>packet/tcp_error.cpp\<close>: the text of an exception. The exception type itself is in
  the prelude, since every other component throws it.
\<close>

text \<open>\<^verbatim>\<open>std::to_string(int)\<close>: decimal digits, with a leading minus sign.\<close>

definition digit_char :: "nat \<Rightarrow> char" where
  "digit_char d = ''0123456789'' ! d"

fun nat_digits :: "nat \<Rightarrow> string" where
  "nat_digits n = (if n < 10 then [digit_char n] else nat_digits (n div 10) @ [digit_char (n mod 10)])"

declare nat_digits.simps [simp del]

definition to_string :: "int \<Rightarrow> string" where
  "to_string i = (if i < 0 then CHR ''-'' # nat_digits (nat (- i)) else nat_digits (nat i))"

definition TcpException_make :: "TcpExcType \<Rightarrow> int \<Rightarrow> TcpException" where
  "TcpException_make t e = \<lparr>excType = t, errorNo = e\<rparr>"

text \<open>\<^verbatim>\<open>TcpException::What\<close>.\<close>

definition What :: "TcpException \<Rightarrow> string" where
  "What e = (case excType e of
      TcpExcBadMsgType \<Rightarrow> ''message type error''
    | TcpExcBadLenEncoding \<Rightarrow> ''bad length encoding''
    | TcpExcBadReturnCode \<Rightarrow> ''bad return code''
    | TcpExcDataExceedsPacket \<Rightarrow> ''data exceeds packet size limit''
    | TcpExcMsgTooLong \<Rightarrow> ''message too long''
    | TcpExcInvalidFlag \<Rightarrow> ''flag invalid''
    | TcpExcInvalidProName \<Rightarrow> ''protocal name invalid''
    | TcpExcInvalidProVersion \<Rightarrow> ''protocal version invalid''
    | TcpExcInvalidSocket \<Rightarrow> ''invalid socket''
    | TcpExcSocketClose \<Rightarrow> ''socket close''
    | TcpExcSocketError \<Rightarrow> ''socket error:'' @ to_string (errorNo e)
    | TcpExcGzipError \<Rightarrow> ''gzip error:''
    | TcpExcUngzipError \<Rightarrow> ''ungzip error:'')"

lemma digit_char_inj: "d < 10 \<Longrightarrow> d' < 10 \<Longrightarrow> digit_char d = digit_char d' \<Longrightarrow> d = d'"
  by (simp add: digit_char_def nth_eq_iff_index_eq)

lemma digit_char_not_minus: "d < 10 \<Longrightarrow> digit_char d \<noteq> CHR ''-''"
  using nth_mem [of d "''0123456789''"] by (auto simp: digit_char_def)

lemma nat_digits_last: "last (nat_digits n) = digit_char (n mod 10)"
  by (subst nat_digits.simps) simp

lemma nat_digits_nonempty [simp]: "nat_digits n \<noteq> []"
  by (subst nat_digits.simps) simp

lemma nat_digits_inj: "nat_digits m = nat_digits n \<Longrightarrow> m = n"
proof (induction m arbitrary: n rule: nat_digits.induct)
  case (1 m)
  have last: "m mod 10 = n mod 10"
    using nat_digits_last [of m] nat_digits_last [of n] "1.prems" by (intro digit_char_inj) auto
  have but: "butlast (nat_digits k) = (if k < 10 then [] else nat_digits (k div 10))" for k
    by (subst nat_digits.simps) simp
  have "(if m < 10 then [] else nat_digits (m div 10)) = (if n < 10 then [] else nat_digits (n div 10))"
    using "1.prems" but by metis
  then consider "m < 10" "n < 10" | "\<not> m < 10" "nat_digits (m div 10) = nat_digits (n div 10)"
    by (auto split: if_splits simp: nat_digits_nonempty [symmetric])
  then show ?case
  proof cases
    case 1 with last show ?thesis by simp
  next
    case 2
    then have "m div 10 = n div 10" by (rule "1.IH")
    with last show ?thesis by (metis div_mult_mod_eq)
  qed
qed

lemma hd_nat_digits: "\<exists>d<10. hd (nat_digits n) = digit_char d"
proof (induction n rule: nat_digits.induct)
  case (1 n)
  show ?case
  proof (cases "n < 10")
    case True then show ?thesis by (subst nat_digits.simps) auto
  next
    case False
    with "1.IH" obtain d where "d < 10" "hd (nat_digits (n div 10)) = digit_char d" by blast
    with False show ?thesis by (subst nat_digits.simps) (auto simp: hd_append)
  qed
qed

lemma nat_digits_not_minus: "nat_digits n \<noteq> CHR ''-'' # ys"
  using hd_nat_digits [of n] digit_char_not_minus by (metis list.sel(1))

lemma to_string_inj: "to_string i = to_string j \<Longrightarrow> i = j"
  using nat_digits_not_minus
  by (auto simp: to_string_def split: if_splits dest!: nat_digits_inj) (metis+)

text \<open>
  The text of an exception identifies it. Two exceptions with the same text have the
  same kind, and for socket errors the same errno.
\<close>

theorem What_identifies:
  assumes "What e = What e'"
  shows "excType e = excType e' \<and> (excType e = TcpExcSocketError \<longrightarrow> errorNo e = errorNo e')"
  using assms unfolding What_def
  by (cases "excType e"; cases "excType e'") (auto dest: to_string_inj)

end
