(* ===== verification/Posix.thy ===== *)
theory Posix
  imports Prelude
begin

text \<open>
  The operating system and the TLS library the client calls. Neither is part of the
  repository, so both are a parameter: a record of functions over an abstract world
  \<open>'w\<close> (the kernel and library state), passed to every definition that makes a call.
  What a proof relies on is a named predicate over this record; nothing is assumed here.
\<close>

section \<open>Structures of the interface\<close>

text \<open>\<^verbatim>\<open>struct epoll_event\<close>: the descriptor stored in \<open>data.fd\<close> and the event mask.\<close>

record epoll_event =
  ev_fd :: int
  ev_events :: u32

text \<open>\<^verbatim>\<open>struct pollfd\<close>.\<close>

record pollfd =
  pf_fd :: int
  pf_events :: u16
  pf_revents :: u16

text \<open>\<^verbatim>\<open>struct kevent\<close>: filter, action flags and the descriptor kept in \<open>udata\<close>.\<close>

datatype kfilter = EVFILT_READ | EVFILT_WRITE

record kevent =
  ke_filter :: kfilter
  ke_flags :: u16
  ke_udata :: int

text \<open>The socket options the client sets.\<close>

datatype sockopt =
    SO_RCVTIMEO int
  | SO_SNDTIMEO int
  | SO_LINGER int int
  | TCP_MAXSEG int
  | TCP_NODELAY int

section \<open>The calls\<close>

text \<open>
  \<open>sys_recv\<close>, \<open>sys_read\<close>: \<open>None\<close> is the return value \<open>-1\<close>, \<open>Some bs\<close> is the return value
  \<open>length bs\<close> with \<open>bs\<close> stored in the caller's buffer. \<open>ssl_read\<close>: \<open>Inl r\<close> is a negative
  return value \<open>r\<close>, \<open>Inr bs\<close> the return value \<open>length bs\<close>. The other calls return the C
  return value. \<open>sys_errno\<close> reads the calling thread's errno. \<open>sys_tick\<close> is \<^verbatim>\<open>gettickcount()\<close> in
  milliseconds, \<open>sys_clock\<close> \<^verbatim>\<open>system_clock::now()\<close> in nanoseconds. \<open>sys_getaddrinfo\<close>: the addresses of
  the result list as dotted strings, \<open>None\<close> for an error.
\<close>

record 'w posix =
  c_O_NONBLOCK :: int
  c_EAGAIN :: int
  c_EINPROGRESS :: int
  sys_errno :: "'w \<Rightarrow> int"
  sys_recv :: "int \<Rightarrow> nat \<Rightarrow> 'w \<Rightarrow> bytes option \<times> 'w"
  sys_send :: "int \<Rightarrow> bytes \<Rightarrow> 'w \<Rightarrow> int \<times> 'w"
  sys_close :: "int \<Rightarrow> 'w \<Rightarrow> 'w"
  sys_pipe :: "'w \<Rightarrow> (int \<times> int) option \<times> 'w"
  sys_getfl :: "int \<Rightarrow> 'w \<Rightarrow> int \<times> 'w"
  sys_setfl :: "int \<Rightarrow> int \<Rightarrow> 'w \<Rightarrow> int \<times> 'w"
  sys_read :: "int \<Rightarrow> nat \<Rightarrow> 'w \<Rightarrow> bytes option \<times> 'w"
  sys_write :: "int \<Rightarrow> bytes \<Rightarrow> 'w \<Rightarrow> int \<times> 'w"
  sys_socket :: "'w \<Rightarrow> int \<times> 'w"
  sys_connect :: "int \<Rightarrow> string \<Rightarrow> u16 \<Rightarrow> 'w \<Rightarrow> int \<times> 'w"
  sys_so_error :: "int \<Rightarrow> 'w \<Rightarrow> (int \<times> int) \<times> 'w"
  sys_setsockopt :: "int \<Rightarrow> sockopt \<Rightarrow> 'w \<Rightarrow> int \<times> 'w"
  sys_tick :: "'w \<Rightarrow> u64 \<times> 'w"
  sys_clock :: "'w \<Rightarrow> int"
  sys_sleep :: "int \<Rightarrow> 'w \<Rightarrow> 'w"
  sys_getaddrinfo :: "string \<Rightarrow> 'w \<Rightarrow> string list option \<times> 'w"
  sys_epoll_create :: "'w \<Rightarrow> int \<times> 'w"
  sys_epoll_add :: "int \<Rightarrow> epoll_event \<Rightarrow> 'w \<Rightarrow> int \<times> 'w"
  sys_epoll_wait :: "int \<Rightarrow> nat \<Rightarrow> int \<Rightarrow> 'w \<Rightarrow> (int \<times> epoll_event list) \<times> 'w"
  sys_poll :: "pollfd list \<Rightarrow> int \<Rightarrow> 'w \<Rightarrow> (int \<times> pollfd list) \<times> 'w"
  sys_kqueue :: "'w \<Rightarrow> int \<times> 'w"
  sys_kevent :: "int \<Rightarrow> kevent list \<Rightarrow> nat \<Rightarrow> (int \<times> int) option \<Rightarrow> 'w \<Rightarrow> (int \<times> kevent list) \<times> 'w"
  ssl_ctx_new :: "'w \<Rightarrow> nat option \<times> 'w"
  ssl_new :: "nat option \<Rightarrow> 'w \<Rightarrow> nat option \<times> 'w"
  ssl_set_fd :: "nat \<Rightarrow> int \<Rightarrow> 'w \<Rightarrow> 'w"
  ssl_connect :: "nat \<Rightarrow> 'w \<Rightarrow> int \<times> 'w"
  ssl_get_error :: "nat \<Rightarrow> int \<Rightarrow> 'w \<Rightarrow> int"
  ssl_free :: "nat \<Rightarrow> 'w \<Rightarrow> 'w"
  ssl_read :: "nat \<Rightarrow> nat \<Rightarrow> 'w \<Rightarrow> (int + bytes) \<times> 'w"
  ssl_write :: "nat \<Rightarrow> bytes \<Rightarrow> 'w \<Rightarrow> int \<times> 'w"

section \<open>A system on which every call fails\<close>

text \<open>
  The base of the concrete systems the examples run on: each of them overrides the calls
  its component makes.
\<close>

definition quiet_posix :: "'w posix" where
  "quiet_posix =
    \<lparr>c_O_NONBLOCK = 2048, c_EAGAIN = 11, c_EINPROGRESS = 115, sys_errno = (\<lambda>w. 0),
     sys_recv = (\<lambda>fd n w. (None, w)), sys_send = (\<lambda>fd b w. (- 1, w)), sys_close = (\<lambda>fd w. w),
     sys_pipe = (\<lambda>w. (None, w)), sys_getfl = (\<lambda>fd w. (- 1, w)), sys_setfl = (\<lambda>fd f w. (- 1, w)),
     sys_read = (\<lambda>fd n w. (None, w)), sys_write = (\<lambda>fd b w. (- 1, w)), sys_socket = (\<lambda>w. (- 1, w)),
     sys_connect = (\<lambda>fd ip port w. (- 1, w)), sys_so_error = (\<lambda>fd w. ((- 1, 0), w)),
     sys_setsockopt = (\<lambda>fd opt w. (- 1, w)), sys_tick = (\<lambda>w. (0, w)), sys_clock = (\<lambda>w. 0), sys_sleep = (\<lambda>n w. w),
     sys_getaddrinfo = (\<lambda>h w. (None, w)), sys_epoll_create = (\<lambda>w. (- 1, w)),
     sys_epoll_add = (\<lambda>ep ev w. (- 1, w)), sys_epoll_wait = (\<lambda>ep n t w. ((- 1, []), w)),
     sys_poll = (\<lambda>fds t w. ((- 1, fds), w)), sys_kqueue = (\<lambda>w. (- 1, w)),
     sys_kevent = (\<lambda>kq evs n t w. ((- 1, []), w)), ssl_ctx_new = (\<lambda>w. (None, w)),
     ssl_new = (\<lambda>ctx w. (None, w)), ssl_set_fd = (\<lambda>h fd w. w), ssl_connect = (\<lambda>h w. (- 1, w)),
     ssl_get_error = (\<lambda>h r w. 1), ssl_free = (\<lambda>h w. w), ssl_read = (\<lambda>h n w. (Inl (- 1), w)),
     ssl_write = (\<lambda>h b w. (- 1, w))\<rparr>"

lemma quiet_posix_simps:
  "sys_errno quiet_posix w = 0" "sys_recv quiet_posix fd n w = (None, w)" "sys_send quiet_posix fd b w = (- 1, w)"
  "sys_close quiet_posix fd w = w" "sys_pipe quiet_posix w = (None, w)" "sys_getfl quiet_posix fd w = (- 1, w)"
  "sys_setfl quiet_posix fd f w = (- 1, w)" "sys_read quiet_posix fd n w = (None, w)"
  "sys_write quiet_posix fd b w = (- 1, w)" "sys_socket quiet_posix w = (- 1, w)"
  "sys_connect quiet_posix fd ip port w = (- 1, w)" "sys_so_error quiet_posix fd w = ((- 1, 0), w)"
  "sys_setsockopt quiet_posix fd opt w = (- 1, w)" "sys_tick quiet_posix w = (0, w)" "sys_clock quiet_posix w = 0" "sys_sleep quiet_posix k w = w"
  "sys_getaddrinfo quiet_posix h w = (None, w)" "sys_epoll_create quiet_posix w = (- 1, w)"
  "sys_epoll_add quiet_posix ep ev w = (- 1, w)" "sys_epoll_wait quiet_posix ep n t w = ((- 1, []), w)"
  by (simp_all add: quiet_posix_def)

end
