(* ===== verification/Sockets.thy ===== *)
theory Sockets
  imports Posix
begin

text \<open>
  \<^verbatim>\<open>socket/tcp_socket\<close>, \<^verbatim>\<open>socket/ssl_socket\<close> and \<^verbatim>\<open>packet/tcp_io\<close>: the two socket
  classes with their virtual methods, and the reader and writer the message codec is given.
  The locale \<open>byte_reader\<close> is the contract of \<^verbatim>\<open>IReader\<close> the codec relies on; it is
  interpreted on \<open>TcpReader_ReadFull\<close>, whose loop over short reads discharges it.
\<close>

section \<open>Socket classes\<close>

definition INVALID_SOCKET :: int where
  "INVALID_SOCKET = - 1"

record TcpSocket =
  ts_socket :: int

record SSLSocket = TcpSocket +
  ssl_handle :: "nat option"
  ssl_connectError :: int

definition SSL_ERROR_NONE :: int where
  "SSL_ERROR_NONE = 0"

definition SSL_ERROR_WANT_READ :: int where
  "SSL_ERROR_WANT_READ = 2"

definition SSL_ERROR_WANT_WRITE :: int where
  "SSL_ERROR_WANT_WRITE = 3"

text \<open>A \<^verbatim>\<open>TcpSocket *\<close> that is not null points to an object of either class.\<close>

datatype socket_obj = PlainSocket TcpSocket | SecureSocket SSLSocket

definition TcpSocket_new :: "int \<Rightarrow> TcpSocket" where
  "TcpSocket_new fd = \<lparr>ts_socket = fd\<rparr>"

definition TcpSocket_Close :: "'w posix \<Rightarrow> TcpSocket \<Rightarrow> 'w \<Rightarrow> TcpSocket \<times> 'w" where
  "TcpSocket_Close P s w =
     (if ts_socket s = INVALID_SOCKET then (s, w)
      else (s\<lparr>ts_socket := INVALID_SOCKET\<rparr>, sys_close P (ts_socket s) w))"

definition TcpSocket_Connect :: "TcpSocket \<Rightarrow> int" where
  "TcpSocket_Connect s = 1"

definition TcpSocket_GetConnectError :: "TcpSocket \<Rightarrow> int" where
  "TcpSocket_GetConnectError s = 0"

definition TcpSocket_Read :: "'w posix \<Rightarrow> TcpSocket \<Rightarrow> nat \<Rightarrow> ('w, bytes) io" where
  "TcpSocket_Read P s len w =
     (case sys_recv P (ts_socket s) len w of
        (Some bs, w') \<Rightarrow> if bs = [] then (Inl (excOf TcpExcSocketClose), w') else (Inr bs, w')
      | (None, w') \<Rightarrow> (Inl (Throw \<lparr>excType = TcpExcSocketError, errorNo = sys_errno P w'\<rparr>), w'))"

definition TcpSocket_Write :: "'w posix \<Rightarrow> TcpSocket \<Rightarrow> bytes \<Rightarrow> ('w, unit) io" where
  "TcpSocket_Write P s buf w =
     (case sys_send P (ts_socket s) buf w of (sendLen, w') \<Rightarrow>
        if sendLen < 0
        then (Inl (Throw \<lparr>excType = TcpExcSocketError, errorNo = sys_errno P w'\<rparr>), w')
        else (Inr (), w'))"

text \<open>
  The static \<^verbatim>\<open>_ctx\<close> of ssl_socket.cpp is passed in and returned. A null context or a null
  \<^verbatim>\<open>SSL *\<close> passed to the library is dereferenced there.
\<close>

definition GetSSLContext :: "'w posix \<Rightarrow> nat option \<Rightarrow> 'w \<Rightarrow> nat option \<times> 'w" where
  "GetSSLContext P ctx w = (if ctx = None then ssl_ctx_new P w else (ctx, w))"

definition SSLSocket_new :: "int \<Rightarrow> SSLSocket" where
  "SSLSocket_new fd = \<lparr>ts_socket = fd, ssl_handle = None, ssl_connectError = 0\<rparr>"

definition SSLSocket_Connect ::
  "'w posix \<Rightarrow> nat option \<Rightarrow> SSLSocket \<Rightarrow> 'w \<Rightarrow> (int \<times> SSLSocket \<times> nat option) \<times> 'w" where
  "SSLSocket_Connect P ctx s w =
     (let (ctx', w1) = GetSSLContext P ctx w;
          (ssl, w2) = ssl_new P ctx' w1;
          s1 = s\<lparr>ssl_handle := ssl\<rparr>
      in case ssl of
           None \<Rightarrow> ((- 1, s1, ctx'), w2)
         | Some h \<Rightarrow>
             let w3 = ssl_set_fd P h (ts_socket s1) w2;
                 (status, w4) = ssl_connect P h w3
             in if status = 1 then ((SSL_ERROR_NONE, s1, ctx'), w4)
                else let e = ssl_get_error P h status w4
                     in ((e, s1\<lparr>ssl_connectError := e\<rparr>, ctx'), w4))"

definition SSLSocket_GetConnectError :: "SSLSocket \<Rightarrow> int" where
  "SSLSocket_GetConnectError s = ssl_connectError s"

definition SSLSocket_Close :: "'w posix \<Rightarrow> SSLSocket \<Rightarrow> 'w \<Rightarrow> SSLSocket \<times> 'w" where
  "SSLSocket_Close P s w =
     (if ts_socket s = INVALID_SOCKET then (s, w)
      else let w1 = (case ssl_handle s of None \<Rightarrow> w | Some h \<Rightarrow> ssl_free P h w)
           in (s\<lparr>ts_socket := INVALID_SOCKET\<rparr>, sys_close P (ts_socket s) w1))"

definition SSLSocket_Read :: "'w posix \<Rightarrow> SSLSocket \<Rightarrow> nat \<Rightarrow> ('w, bytes) io" where
  "SSLSocket_Read P s len w =
     (case ssl_handle s of
        None \<Rightarrow> (Inl Undefined, w)
      | Some h \<Rightarrow>
          (case ssl_read P h len w of
             (Inr bs, w') \<Rightarrow> if bs = [] then (Inl (excOf TcpExcSocketClose), w') else (Inr bs, w')
           | (Inl r, w') \<Rightarrow>
               (Inl (Throw \<lparr>excType = TcpExcSocketError, errorNo = ssl_get_error P h r w'\<rparr>), w')))"

definition SSLSocket_Write :: "'w posix \<Rightarrow> SSLSocket \<Rightarrow> bytes \<Rightarrow> ('w, unit) io" where
  "SSLSocket_Write P s buf w =
     (case ssl_handle s of
        None \<Rightarrow> (Inl Undefined, w)
      | Some h \<Rightarrow>
          (case ssl_write P h buf w of (r, w') \<Rightarrow>
             if r \<le> 0
             then (Inl (Throw \<lparr>excType = TcpExcSocketError, errorNo = ssl_get_error P h r w'\<rparr>), w')
             else (Inr (), w')))"

subsection \<open>Virtual dispatch\<close>

fun Socket_GetSocket :: "socket_obj \<Rightarrow> int" where
  "Socket_GetSocket (PlainSocket s) = ts_socket s"
| "Socket_GetSocket (SecureSocket s) = ts_socket s"

definition Socket_IsInvalid :: "socket_obj \<Rightarrow> bool" where
  "Socket_IsInvalid so = (Socket_GetSocket so = INVALID_SOCKET)"

fun Socket_Read :: "'w posix \<Rightarrow> socket_obj \<Rightarrow> nat \<Rightarrow> ('w, bytes) io" where
  "Socket_Read P (PlainSocket s) len = TcpSocket_Read P s len"
| "Socket_Read P (SecureSocket s) len = SSLSocket_Read P s len"

fun Socket_Write :: "'w posix \<Rightarrow> socket_obj \<Rightarrow> bytes \<Rightarrow> ('w, unit) io" where
  "Socket_Write P (PlainSocket s) buf = TcpSocket_Write P s buf"
| "Socket_Write P (SecureSocket s) buf = SSLSocket_Write P s buf"

fun Socket_Close :: "'w posix \<Rightarrow> socket_obj \<Rightarrow> 'w \<Rightarrow> socket_obj \<times> 'w" where
  "Socket_Close P (PlainSocket s) w = (case TcpSocket_Close P s w of (s', w') \<Rightarrow> (PlainSocket s', w'))"
| "Socket_Close P (SecureSocket s) w = (case SSLSocket_Close P s w of (s', w') \<Rightarrow> (SecureSocket s', w'))"

fun Socket_GetConnectError :: "socket_obj \<Rightarrow> int" where
  "Socket_GetConnectError (PlainSocket s) = TcpSocket_GetConnectError s"
| "Socket_GetConnectError (SecureSocket s) = SSLSocket_GetConnectError s"

lemma Socket_Read_nonempty: "Socket_Read P so n w = (Inr bs, w') \<Longrightarrow> bs \<noteq> []"
  by (cases so)
    (auto simp: TcpSocket_Read_def SSLSocket_Read_def split: prod.splits option.splits sum.splits if_splits)

section \<open>Reader and writer\<close>

record TcpReader =
  tr_socket :: "socket_obj option"

record TcpWriter =
  tw_socket :: "socket_obj option"

text \<open>
  The loop of \<^verbatim>\<open>TcpReader::ReadFull\<close>. \<open>acc\<close> holds the bytes stored so far; the source's
  \<open>recvLen\<close> is its length. Every successful \<^verbatim>\<open>Read\<close> stores at least one byte (zero bytes
  is the exception \<open>TcpExcSocketClose\<close>), so the loop ends.
\<close>

function ReadFull_loop :: "'w posix \<Rightarrow> socket_obj \<Rightarrow> nat \<Rightarrow> bytes \<Rightarrow> ('w, bytes) io" where
  "ReadFull_loop P so len acc w =
     (if length acc < len
      then case Socket_Read P so (len - length acc) w of
             (Inl f, w') \<Rightarrow> (Inl f, w')
           | (Inr bs, w') \<Rightarrow> ReadFull_loop P so len (acc @ bs) w'
      else (Inr acc, w))"
  by pat_completeness auto
termination
proof (relation "measure (\<lambda>(P, so, len, acc, w). len - length acc)", goal_cases)
  case (2 P so len acc w x y bs)
  then have "bs \<noteq> []" using Socket_Read_nonempty by metis
  with 2(1) show ?case by (cases bs) auto
qed simp

declare ReadFull_loop.simps [simp del]

definition TcpReader_ReadFull :: "'w posix \<Rightarrow> TcpReader \<Rightarrow> nat \<Rightarrow> ('w, bytes) io" where
  "TcpReader_ReadFull P r len =
     (case tr_socket r of
        None \<Rightarrow> fail (excOf TcpExcInvalidSocket)
      | Some so \<Rightarrow> ReadFull_loop P so len [])"

definition TcpWriter_Write :: "'w posix \<Rightarrow> TcpWriter \<Rightarrow> bytes \<Rightarrow> ('w, unit) io" where
  "TcpWriter_Write P t buf =
     (case tw_socket t of
        None \<Rightarrow> fail (excOf TcpExcInvalidSocket)
      | Some so \<Rightarrow> Socket_Write P so buf)"

section \<open>The contract of IReader\<close>

text \<open>
  \<open>pending s\<close> is what the peer has sent and will send on this connection. A read that
  succeeds took exactly the next \<open>n\<close> bytes; a read of bytes that are coming succeeds.
\<close>

locale byte_reader =
  fixes rd :: "nat \<Rightarrow> ('s, bytes) io"
    and pending :: "'s \<Rightarrow> bytes"
    and good :: "'s \<Rightarrow> bool"
  assumes read_sound: "good s \<Longrightarrow> rd n s = (Inr bs, s') \<Longrightarrow>
      length bs = n \<and> pending s = bs @ pending s' \<and> good s'"
    and read_live: "good s \<Longrightarrow> n \<le> length (pending s) \<Longrightarrow> \<exists>bs s'. rd n s = (Inr bs, s')"
begin

lemma read_exact:
  assumes "good s" and "pending s = bs @ rest" and "length bs = n"
  obtains s' where "rd n s = (Inr bs, s')" "good s'" "pending s' = rest"
proof -
  from assms obtain cs s' where rd: "rd n s = (Inr cs, s')"
    using read_live [of s n] by auto
  with assms read_sound [OF assms(1) rd] have "cs = bs" "pending s' = rest" "good s'"
    by auto
  with rd that show thesis by blast
qed

lemma read_one:
  assumes "good s" and "pending s = b # rest"
  obtains s' where "rd 1 s = (Inr [b], s')" "good s'" "pending s' = rest"
  using read_exact [of s "[b]" rest 1] assms by auto

end

text \<open>A reader that fails only with an exception (or not at all).\<close>

locale defined_reader = byte_reader +
  assumes read_defined: "good s \<Longrightarrow> rd n s = (Inl f, s') \<Longrightarrow> f \<noteq> Undefined"

section \<open>The TCP reader meets the contract\<close>

text \<open>
  What the client relies on from \<^verbatim>\<open>recv(2)\<close> on a connected blocking stream socket and from
  \<^verbatim>\<open>SSL_read\<close>: a call returns at most as many bytes as asked, they are the next bytes of
  the stream, and it returns some while there are any.
\<close>

definition recv_stream :: "'w posix \<Rightarrow> int \<Rightarrow> ('w \<Rightarrow> bytes) \<Rightarrow> ('w \<Rightarrow> bool) \<Rightarrow> bool" where
  "recv_stream P fd pend ok \<longleftrightarrow>
     (\<forall>n w. ok w \<longrightarrow> 0 < n \<longrightarrow>
       (case sys_recv P fd n w of
          (Some bs, w') \<Rightarrow> length bs \<le> n \<and> pend w = bs @ pend w' \<and> ok w' \<and> (bs = [] \<longrightarrow> pend w = [])
        | (None, w') \<Rightarrow> pend w = []))"

definition ssl_stream :: "'w posix \<Rightarrow> nat \<Rightarrow> ('w \<Rightarrow> bytes) \<Rightarrow> ('w \<Rightarrow> bool) \<Rightarrow> bool" where
  "ssl_stream P h pend ok \<longleftrightarrow>
     (\<forall>n w. ok w \<longrightarrow> 0 < n \<longrightarrow>
       (case ssl_read P h n w of
          (Inr bs, w') \<Rightarrow> length bs \<le> n \<and> pend w = bs @ pend w' \<and> ok w' \<and> (bs = [] \<longrightarrow> pend w = [])
        | (Inl r, w') \<Rightarrow> pend w = []))"

text \<open>Both give the same law for the virtual \<^verbatim>\<open>Read\<close>.\<close>

definition socket_stream :: "'w posix \<Rightarrow> socket_obj \<Rightarrow> ('w \<Rightarrow> bytes) \<Rightarrow> ('w \<Rightarrow> bool) \<Rightarrow> bool" where
  "socket_stream P so pend ok \<longleftrightarrow>
     (\<forall>n w. ok w \<longrightarrow> 0 < n \<longrightarrow>
       (case Socket_Read P so n w of
          (Inr bs, w') \<Rightarrow> length bs \<le> n \<and> pend w = bs @ pend w' \<and> ok w'
        | (Inl r, w') \<Rightarrow> pend w = []))"

lemma recv_socket_stream:
  assumes "recv_stream P (ts_socket s) pend ok"
  shows "socket_stream P (PlainSocket s) pend ok"
  unfolding socket_stream_def
proof (intro allI impI)
  fix n w assume "ok w" "0 < (n::nat)"
  with assms have "case sys_recv P (ts_socket s) n w of
          (Some bs, w') \<Rightarrow> length bs \<le> n \<and> pend w = bs @ pend w' \<and> ok w' \<and> (bs = [] \<longrightarrow> pend w = [])
        | (None, w') \<Rightarrow> pend w = []"
    by (auto simp: recv_stream_def)
  then show "case Socket_Read P (PlainSocket s) n w of
          (Inr bs, w') \<Rightarrow> length bs \<le> n \<and> pend w = bs @ pend w' \<and> ok w'
        | (Inl r, w') \<Rightarrow> pend w = []"
    by (auto simp: TcpSocket_Read_def split: prod.splits option.splits)
qed

lemma ssl_socket_stream:
  assumes "ssl_stream P h pend ok" and "ssl_handle s = Some h"
  shows "socket_stream P (SecureSocket s) pend ok"
  unfolding socket_stream_def
proof (intro allI impI)
  fix n w assume "ok w" "0 < (n::nat)"
  with assms(1) have "case ssl_read P h n w of
          (Inr bs, w') \<Rightarrow> length bs \<le> n \<and> pend w = bs @ pend w' \<and> ok w' \<and> (bs = [] \<longrightarrow> pend w = [])
        | (Inl r, w') \<Rightarrow> pend w = []"
    by (auto simp: ssl_stream_def)
  then show "case Socket_Read P (SecureSocket s) n w of
          (Inr bs, w') \<Rightarrow> length bs \<le> n \<and> pend w = bs @ pend w' \<and> ok w'
        | (Inl r, w') \<Rightarrow> pend w = []"
    using assms(2) by (auto simp: SSLSocket_Read_def split: prod.splits sum.splits)
qed

lemma socket_stream_Inr:
  assumes "socket_stream P so pend ok" "ok w" "0 < n" "Socket_Read P so n w = (Inr bs, w')"
  shows "length bs \<le> n \<and> pend w = bs @ pend w' \<and> ok w'"
proof -
  from assms(1-3) have "case Socket_Read P so n w of
          (Inr bs, w') \<Rightarrow> length bs \<le> n \<and> pend w = bs @ pend w' \<and> ok w'
        | (Inl r, w') \<Rightarrow> pend w = []"
    by (auto simp: socket_stream_def)
  with assms(4) show ?thesis by simp
qed

lemma socket_stream_Inl:
  assumes "socket_stream P so pend ok" "ok w" "0 < n" "Socket_Read P so n w = (Inl f, w')"
  shows "pend w = []"
proof -
  from assms(1-3) have "case Socket_Read P so n w of
          (Inr bs, w') \<Rightarrow> length bs \<le> n \<and> pend w = bs @ pend w' \<and> ok w'
        | (Inl r, w') \<Rightarrow> pend w = []"
    by (auto simp: socket_stream_def)
  with assms(4) show ?thesis by simp
qed

lemma ReadFull_loop_sound:
  assumes "socket_stream P so pend ok" "ok w" "length acc \<le> len"
    and "ReadFull_loop P so len acc w = (Inr bs, w')"
  shows "length bs = len \<and> acc @ pend w = bs @ pend w' \<and> ok w'"
  using assms
proof (induction P so len acc w rule: ReadFull_loop.induct)
  case (1 P so len acc w)
  show ?case
  proof (cases "length acc < len")
    case False
    with "1.prems" show ?thesis by (auto simp: ReadFull_loop.simps [of P so len acc])
  next
    case True
    with "1.prems"(4) obtain cs v where rd: "Socket_Read P so (len - length acc) w = (Inr cs, v)"
      and loop: "ReadFull_loop P so len (acc @ cs) v = (Inr bs, w')"
      by (auto simp: ReadFull_loop.simps [of P so len acc] split: prod.splits sum.splits)
    from socket_stream_Inr [OF "1.prems"(1,2) _ rd] True
    have v: "length cs \<le> len - length acc" "pend w = cs @ pend v" "ok v" by auto
    have "length bs = len \<and> (acc @ cs) @ pend v = bs @ pend w' \<and> ok w'"
      using "1.IH" [OF True rd [symmetric] refl "1.prems"(1) v(3) _ loop] v(1) True by simp
    with v show ?thesis by simp
  qed
qed

lemma ReadFull_loop_live:
  assumes "socket_stream P so pend ok" "ok w" "len \<le> length acc + length (pend w)"
  shows "\<exists>bs w'. ReadFull_loop P so len acc w = (Inr bs, w')"
  using assms
proof (induction P so len acc w rule: ReadFull_loop.induct)
  case (1 P so len acc w)
  show ?case
  proof (cases "length acc < len")
    case False
    then show ?thesis by (auto simp: ReadFull_loop.simps [of P so len acc])
  next
    case True
    with "1.prems" obtain cs v where rd: "Socket_Read P so (len - length acc) w = (Inr cs, v)"
      using socket_stream_Inl [OF "1.prems"(1,2), of "len - length acc"]
      by (cases "Socket_Read P so (len - length acc) w"; cases "fst (Socket_Read P so (len - length acc) w)")
        fastforce+
    from socket_stream_Inr [OF "1.prems"(1,2) _ rd] True
    have v: "pend w = cs @ pend v" "ok v" by auto
    have "\<exists>bs w'. ReadFull_loop P so len (acc @ cs) v = (Inr bs, w')"
      using "1.IH" [OF True rd [symmetric] refl "1.prems"(1) v(2)] "1.prems"(3) v(1) by simp
    with True rd show ?thesis by (auto simp: ReadFull_loop.simps [of P so len acc])
  qed
qed

text \<open>The law of the library behind a socket object.\<close>

fun os_stream :: "'w posix \<Rightarrow> socket_obj \<Rightarrow> ('w \<Rightarrow> bytes) \<Rightarrow> ('w \<Rightarrow> bool) \<Rightarrow> bool" where
  "os_stream P (PlainSocket s) pend ok = recv_stream P (ts_socket s) pend ok"
| "os_stream P (SecureSocket s) pend ok =
     (case ssl_handle s of None \<Rightarrow> False | Some h \<Rightarrow> ssl_stream P h pend ok)"

lemma os_socket_stream: "os_stream P so pend ok \<Longrightarrow> socket_stream P so pend ok"
  by (cases so) (auto simp: recv_socket_stream ssl_socket_stream split: option.splits)

lemma os_Read_defined:
  assumes "os_stream P so pend ok" "Socket_Read P so n w = (Inl f, w')"
  shows "f \<noteq> Undefined"
  using assms by (cases so)
    (auto simp: TcpSocket_Read_def SSLSocket_Read_def excOf_neq split: prod.splits option.splits sum.splits if_splits)

lemma ReadFull_loop_defined:
  assumes "os_stream P so pend ok" "ReadFull_loop P so len acc w = (Inl f, w')"
  shows "f \<noteq> Undefined"
  using assms
proof (induction P so len acc w rule: ReadFull_loop.induct)
  case (1 P so len acc w)
  then show ?case
    using os_Read_defined [OF "1.prems"(1), of "len - length acc" w]
    by (fastforce simp: ReadFull_loop.simps [of P so len acc] split: if_splits prod.splits sum.splits)
qed

interpretation tcp_rd: defined_reader
  "TcpReader_ReadFull P \<lparr>tr_socket = Some so\<rparr>" pend "\<lambda>w. ok w \<and> os_stream P so pend ok"
  for P so pend ok
proof unfold_locales
  fix s n bs s'
  assume "ok s \<and> os_stream P so pend ok"
    and "TcpReader_ReadFull P \<lparr>tr_socket = Some so\<rparr> n s = (Inr bs, s')"
  then show "length bs = n \<and> pend s = bs @ pend s' \<and> ok s' \<and> os_stream P so pend ok"
    using ReadFull_loop_sound [of P so pend ok s "[]" n bs s'] by (simp add: TcpReader_ReadFull_def os_socket_stream)
next
  fix s n
  assume "ok s \<and> os_stream P so pend ok" and "n \<le> length (pend s)"
  then show "\<exists>bs s'. TcpReader_ReadFull P \<lparr>tr_socket = Some so\<rparr> n s = (Inr bs, s')"
    using ReadFull_loop_live [of P so pend ok s n "[]"] by (simp add: TcpReader_ReadFull_def os_socket_stream)
next
  fix s n f s'
  assume "ok s \<and> os_stream P so pend ok" and "TcpReader_ReadFull P \<lparr>tr_socket = Some so\<rparr> n s = (Inl f, s')"
  then show "f \<noteq> Undefined"
    using ReadFull_loop_defined [of P so pend ok n "[]" s f s'] by (simp add: TcpReader_ReadFull_def)
qed

section \<open>A socket that delivers one byte at a time\<close>

definition drip_posix :: "bytes posix" where
  "drip_posix = quiet_posix\<lparr>sys_recv := (\<lambda>fd n w. (Some (take 1 w), drop 1 w))\<rparr>"

lemma drip_recv_stream: "recv_stream drip_posix fd (\<lambda>w. w) (\<lambda>w. True)"
  by (auto simp: recv_stream_def drip_posix_def min_def)

end
