(* ===== verification/Encoding.thy ===== *)
theory Encoding
  imports Sockets
begin

text \<open>
  \<^verbatim>\<open>packet/encoding.cpp\<close>: the variable-length integer, the fixed-width integers, the
  length-prefixed strings and their gzip variants. Decoders take the virtual
  \<^verbatim>\<open>IReader::ReadFull\<close> as the function \<open>rd\<close>; the by-reference \<^verbatim>\<open>packetRemaining\<close> is passed
  in and returned. zlib is a parameter.
\<close>

section \<open>The length code\<close>

text \<open>
  \<^verbatim>\<open>decodeLength\<close>: at most four groups of seven bits, low group first. The pair is the
  value and the number of bytes read, or \<open>(-1, -1)\<close> when the fourth byte still has its
  continuation bit.
\<close>

function decodeLength_from :: "(nat \<Rightarrow> ('s, bytes) io) \<Rightarrow> nat \<Rightarrow> u32 \<Rightarrow> nat \<Rightarrow> ('s, u32 \<times> int) io" where
  "decodeLength_from rd i v shift =
     (if i < 4
      then seq (rd 1) (\<lambda>buf.
             let b = buf ! 0;
                 v' = v OR push_bit shift (ucast (b AND 0x7f))
             in if b AND 0x80 = 0 then ret (v', int (i + 1))
                else decodeLength_from rd (i + 1) v' (shift + 7))
      else ret (- 1, - 1))"
  by pat_completeness auto
termination
  by (relation "measure (\<lambda>(rd, i, v, shift). 4 - i)") auto

declare decodeLength_from.simps [simp del]

definition decodeLength :: "(nat \<Rightarrow> ('s, bytes) io) \<Rightarrow> ('s, u32 \<times> int) io" where
  "decodeLength rd = decodeLength_from rd 0 0 0"

lemma unat_drop_bit_7: "unat (drop_bit 7 (n :: u32)) = unat n div 128"
  by (subst unat_drop_bit_eq) (simp add: drop_bit_eq_div)

function encodeLength_loop :: "u32 \<Rightarrow> bytes \<Rightarrow> bytes" where
  "encodeLength_loop len buf =
     (if len > 0
      then let digit = ucast (len AND 0x7f) :: u8;
               len' = drop_bit 7 len;
               digit' = (if len' > 0 then digit OR 0x80 else digit)
           in encodeLength_loop len' (buf @ [digit'])
      else buf)"
  by pat_completeness auto
termination
  by (relation "measure (\<lambda>(len, buf). unat len)")
    (auto simp: unat_drop_bit_7 word_less_nat_alt)

declare encodeLength_loop.simps [simp del]

definition encodeLength :: "u32 \<Rightarrow> bytes \<Rightarrow> bytes" where
  "encodeLength len buf = encodeLength_loop len (if len = 0 then buf @ [0] else buf)"

section \<open>Fixed-width integers\<close>

definition getUint8 :: "(nat \<Rightarrow> ('s, bytes) io) \<Rightarrow> u32 \<Rightarrow> ('s, u8 \<times> u32) io" where
  "getUint8 rd packetRemaining =
     seq (throwIf (packetRemaining < 1) TcpExcDataExceedsPacket) (\<lambda>_.
     seq (rd 1) (\<lambda>buf. ret (buf ! 0, packetRemaining - 1)))"

definition setUint8 :: "u8 \<Rightarrow> bytes \<Rightarrow> bytes" where
  "setUint8 val buf = buf @ [val]"

definition getUint16 :: "(nat \<Rightarrow> ('s, bytes) io) \<Rightarrow> u32 \<Rightarrow> ('s, u16 \<times> u32) io" where
  "getUint16 rd packetRemaining =
     seq (throwIf (packetRemaining < 2) TcpExcDataExceedsPacket) (\<lambda>_.
     seq (rd 2) (\<lambda>buf. ret (push_bit 8 (ucast (buf ! 0)) OR ucast (buf ! 1), packetRemaining - 2)))"

definition setUint16 :: "u16 \<Rightarrow> bytes \<Rightarrow> bytes" where
  "setUint16 val buf = buf @ [ucast (drop_bit 8 (val AND 0xff00)), ucast (val AND 0x00ff)]"

section \<open>zlib\<close>

text \<open>
  The calls on a \<^verbatim>\<open>z_stream\<close> (state \<open>'z\<close>): \<open>deflateInit2\<close> and \<open>inflateInit2\<close> on the input
  vector give a return code and a stream; \<open>deflate n\<close> (with \<^verbatim>\<open>Z_FINISH\<close>) and \<open>inflate n\<close>
  write at most \<open>n\<close> bytes (\<open>avail_out\<close> on entry).
\<close>

record 'z zlib =
  deflateInit2 :: "bytes \<Rightarrow> int \<times> 'z"
  deflate :: "nat \<Rightarrow> 'z \<Rightarrow> bytes \<times> 'z"
  inflateInit2 :: "bytes \<Rightarrow> int \<times> 'z"
  inflate :: "nat \<Rightarrow> 'z \<Rightarrow> int \<times> bytes \<times> 'z"
  inflateEnd :: "'z \<Rightarrow> int"

definition Z_OK :: int where "Z_OK = 0"
definition Z_STREAM_END :: int where "Z_STREAM_END = 1"
definition ChunkSize :: nat where "ChunkSize = 16384"

text \<open>
  The loop of \<^verbatim>\<open>__gzipCompress\<close>: while the last call filled the buffer, call again and
  append the bytes by which \<open>total_out\<close> exceeds the output's size.
\<close>

partial_function (option) deflate_loop ::
  "'z zlib \<Rightarrow> nat \<Rightarrow> nat \<Rightarrow> 'z \<Rightarrow> bytes \<Rightarrow> bytes option" where
  "deflate_loop Z total_out avail_out z output =
     (if avail_out = 0
      then case deflate Z ChunkSize z of (outBuff, z') \<Rightarrow>
             let total' = total_out + length outBuff
             in deflate_loop Z total' (ChunkSize - length outBuff) z'
                  (output @ take (total' - length output) outBuff)
      else Some output)"

text \<open>
  \<open>Some output\<close> is the return value true, \<open>None\<close> is false. \<^verbatim>\<open>avail_in\<close> is 32 bits wide.
\<close>

definition gzipCompress :: "'z zlib \<Rightarrow> bytes \<Rightarrow> bytes \<Rightarrow> ('s, bytes option) io" where
  "gzipCompress Z src output =
     (case deflateInit2 Z (take (length src mod 2 ^ 32) src) of (r, z) \<Rightarrow>
        if r = Z_OK
        then (case deflate_loop Z 0 0 z output of
                None \<Rightarrow> fail NoReturn
              | Some out \<Rightarrow> ret (Some out))
        else ret None)"

partial_function (option) inflate_loop ::
  "'z zlib \<Rightarrow> nat \<Rightarrow> int \<Rightarrow> 'z \<Rightarrow> bytes \<Rightarrow> (int \<times> 'z \<times> bytes) option" where
  "inflate_loop Z n status z output =
     (if status = Z_OK
      then case inflate Z n z of (status', outBuff, z') \<Rightarrow>
             inflate_loop Z n status' z' (output @ outBuff)
      else Some (status, z, output))"

definition gzipUncompress :: "'z zlib \<Rightarrow> bytes \<Rightarrow> bytes \<Rightarrow> ('s, bytes option) io" where
  "gzipUncompress Z src output =
     (case inflateInit2 Z src of (r, z) \<Rightarrow>
        if r = Z_OK
        then (case inflate_loop Z (length src * 2) Z_OK z output of
                None \<Rightarrow> fail NoReturn
              | Some (status, z', out) \<Rightarrow>
                  if inflateEnd Z z' = Z_OK \<and> status = Z_STREAM_END then ret (Some out) else ret None)
        else ret None)"

section \<open>Length-prefixed fields\<close>

text \<open>
  The part common to \<^verbatim>\<open>getString\<close>, \<^verbatim>\<open>getGzipString\<close>, \<^verbatim>\<open>getData\<close> and \<^verbatim>\<open>getGzipData\<close>: decode the
  length, subtract its width from \<^verbatim>\<open>packetRemaining\<close> (32-bit wrap-around, no check), compare
  the length as unsigned, declare an array of that signed length and fill it. A negative
  array length is undefined behaviour.
\<close>

definition readSized :: "(nat \<Rightarrow> ('s, bytes) io) \<Rightarrow> u32 \<Rightarrow> ('s, bytes \<times> u32 \<times> u32) io" where
  "readSized rd packetRemaining =
     seq (decodeLength rd) (\<lambda>(strLen, lenLen).
     let remaining = packetRemaining - of_int lenLen
     in seq (throwIf (remaining < strLen) TcpExcDataExceedsPacket) (\<lambda>_.
        if sint strLen < 0 then fail Undefined
        else seq (rd (unat strLen)) (\<lambda>buf. ret (buf, strLen, remaining - strLen))))"

definition getString :: "(nat \<Rightarrow> ('s, bytes) io) \<Rightarrow> u32 \<Rightarrow> ('s, bytes \<times> u32) io" where
  "getString rd packetRemaining =
     seq (readSized rd packetRemaining) (\<lambda>(buf, strLen, remaining). ret (buf, remaining))"

definition setString :: "bytes \<Rightarrow> bytes \<Rightarrow> bytes" where
  "setString val buf = encodeLength (word_of_nat (length val)) buf @ val"

definition getGzipString :: "'z zlib \<Rightarrow> (nat \<Rightarrow> ('s, bytes) io) \<Rightarrow> u32 \<Rightarrow> ('s, bytes \<times> u32) io" where
  "getGzipString Z rd packetRemaining =
     seq (readSized rd packetRemaining) (\<lambda>(buf, gzipLen, remaining).
     if sint gzipLen > 0
     then seq (gzipUncompress Z buf []) (\<lambda>r.
            case r of None \<Rightarrow> fail (excOf TcpExcUngzipError)
                    | Some output \<Rightarrow> ret (output, remaining))
     else ret ([], remaining))"

definition setGzipString :: "'z zlib \<Rightarrow> bytes \<Rightarrow> bytes \<Rightarrow> ('s, bytes) io" where
  "setGzipString Z val buf =
     seq (gzipCompress Z val []) (\<lambda>r.
       case r of None \<Rightarrow> fail (excOf TcpExcGzipError)
               | Some output \<Rightarrow> ret (encodeLength (word_of_nat (length output)) buf @ output))"

definition getData :: "(nat \<Rightarrow> ('s, bytes) io) \<Rightarrow> u32 \<Rightarrow> ('s, bytes \<times> u32) io" where
  "getData rd packetRemaining =
     seq (readSized rd packetRemaining) (\<lambda>(buf, dataLen, remaining). ret (buf, remaining))"

definition setData :: "bytes \<Rightarrow> bytes \<Rightarrow> bytes" where
  "setData dat buf = encodeLength (word_of_nat (length dat)) buf @ dat"

definition getGzipData :: "'z zlib \<Rightarrow> (nat \<Rightarrow> ('s, bytes) io) \<Rightarrow> u32 \<Rightarrow> ('s, bytes \<times> u32) io" where
  "getGzipData Z rd packetRemaining =
     seq (readSized rd packetRemaining) (\<lambda>(buf, gzipLen, remaining).
     if sint gzipLen > 0
     then seq (gzipUncompress Z buf []) (\<lambda>r.
            case r of None \<Rightarrow> fail (excOf TcpExcUngzipError)
                    | Some output \<Rightarrow> ret (output, remaining))
     else ret ([], remaining))"

definition setGzipData :: "'z zlib \<Rightarrow> bytes \<Rightarrow> bytes \<Rightarrow> ('s, bytes) io" where
  "setGzipData Z dat buf =
     (if dat = [] then ret buf
      else seq (gzipCompress Z dat []) (\<lambda>r.
        case r of None \<Rightarrow> fail (excOf TcpExcGzipError)
                | Some output \<Rightarrow> ret (encodeLength (word_of_nat (length output)) buf @ output)))"

section \<open>Streams and fields, for the statements\<close>

text \<open>\<open>takes pend ok k s s'\<close>: between \<open>s\<close> and \<open>s'\<close> exactly \<open>k\<close> bytes were read.\<close>

definition takes :: "('s \<Rightarrow> bytes) \<Rightarrow> ('s \<Rightarrow> bool) \<Rightarrow> nat \<Rightarrow> 's \<Rightarrow> 's \<Rightarrow> bool" where
  "takes pend ok k s s' \<longleftrightarrow> ok s' \<and> (\<exists>bs. length bs = k \<and> pend s = bs @ pend s')"

text \<open>The two bytes of a 16-bit integer.\<close>

definition be16 :: "u16 \<Rightarrow> bytes" where
  "be16 v = setUint16 v []"

text \<open>A length-prefixed field as it stands on the wire.\<close>

definition sized :: "bytes \<Rightarrow> bytes" where
  "sized g = encodeLength (word_of_nat (length g)) [] @ g"

section \<open>What the codec relies on from zlib\<close>

text \<open>
  \<open>gz\<close> is the gzip format of a byte string. \<open>todo\<close>: the compressed bytes a deflate stream has
  still to write; a call that leaves room in the buffer has written them all. \<open>fine\<close>: an
  inflate stream on valid input, with \<open>plain\<close> still to write; a call makes progress (\<open>left\<close>
  decreases) or ends the stream.
\<close>

definition zlib_codec :: "'z zlib \<Rightarrow> (bytes \<Rightarrow> bytes) \<Rightarrow> ('z \<Rightarrow> bytes) \<Rightarrow> ('z \<Rightarrow> bool) \<Rightarrow> ('z \<Rightarrow> bytes) \<Rightarrow> ('z \<Rightarrow> nat) \<Rightarrow> bool" where
  "zlib_codec Z gz todo fine plain left \<longleftrightarrow>
     (\<forall>src. gz src \<noteq> [] \<and> fst (deflateInit2 Z src) = Z_OK \<and> todo (snd (deflateInit2 Z src)) = gz src) \<and>
     (\<forall>n z. case deflate Z n z of (p, z') \<Rightarrow>
        todo z = p @ todo z' \<and> length p \<le> n \<and> (length p < n \<longrightarrow> todo z' = [])) \<and>
     (\<forall>src. case inflateInit2 Z (gz src) of (r, z) \<Rightarrow> r = Z_OK \<and> fine z \<and> plain z = src) \<and>
     (\<forall>n z. fine z \<longrightarrow> 0 < n \<longrightarrow> (case inflate Z n z of (st, p, z') \<Rightarrow>
        fine z' \<and> plain z = p @ plain z' \<and>
        (st = Z_STREAM_END \<and> plain z' = [] \<and> inflateEnd Z z' = Z_OK \<or> st = Z_OK \<and> left z' < left z)))"

section \<open>Lemmas on the length code\<close>

lemma mask7_u8: "(0x7f::u8) = mask 7" by (simp add: mask_eq_exp_minus_1)

lemma mask7_u32: "(0x7f::u32) = mask 7" by (simp add: mask_eq_exp_minus_1)

lemma bit_0x80: "bit (0x80 :: int) n \<longleftrightarrow> n = 7"
  using bit_exp_iff [of 7 n, where 'a = int] by auto

lemma digit_low: "ucast ((ucast (m AND 0x7f) :: u8) AND 0x7f) = take_bit 7 (m :: u32)"
  unfolding mask7_u8 mask7_u32 by (rule bit_word_eqI) (auto simp: bit_simps)

lemma digit_low': "ucast ((ucast (m AND 0x7f) OR 0x80 :: u8) AND 0x7f) = take_bit 7 (m :: u32)"
  unfolding mask7_u8 mask7_u32 by (rule bit_word_eqI) (auto simp: bit_simps bit_0x80)

lemma digit_high: "(ucast (m AND 0x7f) :: u8) AND 0x80 = 0" for m :: u32
  unfolding mask7_u8 mask7_u32 by (rule bit_word_eqI) (auto simp: bit_simps bit_0x80)

lemma digit_high': "(x OR 0x80 :: u8) AND 0x80 \<noteq> 0"
proof -
  have "(x OR 0x80 :: u8) AND 0x80 = 0x80" by (rule bit_word_eqI) (auto simp: bit_simps)
  then show ?thesis by simp
qed

lemma encodeLength_loop_append: "encodeLength_loop n (a @ b) = a @ encodeLength_loop n b"
proof (induction n b rule: encodeLength_loop.induct)
  case (1 n b)
  then show ?case by (simp add: encodeLength_loop.simps [of n] Let_def)
qed

lemma encodeLength_loop_Cons:
  "n > 0 \<Longrightarrow> encodeLength_loop n [] =
     (if drop_bit 7 n > 0 then ucast (n AND 0x7f) OR 0x80 else ucast (n AND 0x7f)) # encodeLength_loop (drop_bit 7 n) []"
  using encodeLength_loop_append [of "drop_bit 7 n" "[(if drop_bit 7 n > 0 then ucast (n AND 0x7f) OR 0x80 else ucast (n AND 0x7f))]" "[]"]
  by (simp add: encodeLength_loop.simps [of n] Let_def del: drop_bit_eq_div)

lemma encodeLength_loop_0 [simp]: "encodeLength_loop 0 buf = buf"
  by (simp add: encodeLength_loop.simps)

lemma take_bit_self_of_drop_0: "drop_bit k (n :: 'a::len word) = 0 \<Longrightarrow> take_bit k n = n"
  using bits_ident [of k n] by (simp del: drop_bit_eq_div)

lemma drop_28_0: "unat (n :: u32) < 2 ^ 28 \<Longrightarrow> drop_bit 28 n = 0"
  by (rule word_unat_eq_iff [THEN iffD2]) (subst unat_drop_bit_eq, simp add: drop_bit_eq_div)

context byte_reader
begin

lemma decodeLength_from_encode:
  assumes "good s" "pending s = encodeLength_loop m [] @ rest"
    and "0 < m" "m = drop_bit (7 * i) n" "i < 4" "unat n < 2 ^ 28"
  shows "\<exists>s'. decodeLength_from rd i (take_bit (7 * i) n) (7 * i) s =
           (Inr (n, int (i + length (encodeLength_loop m []))), s') \<and> good s' \<and> pending s' = rest"
  using assms
proof (induction "4 - i" arbitrary: i s m)
  case 0
  then show ?case by simp
next
  case (Suc x)
  define b :: u8 where "b = (if drop_bit 7 m > 0 then ucast (m AND 0x7f) OR 0x80 else ucast (m AND 0x7f))"
  define m' where "m' = drop_bit 7 m"
  have enc: "encodeLength_loop m [] = b # encodeLength_loop m' []"
    unfolding b_def m'_def using encodeLength_loop_Cons [OF Suc.prems(3)] .
  have m'n: "m' = drop_bit (7 * Suc i) n"
    by (simp add: m'_def Suc.prems(4) drop_bit_drop_bit add.commute del: drop_bit_eq_div)
  from Suc.prems(1,2) enc obtain t where t: "rd 1 s = (Inr [b], t)" "good t" "pending t = encodeLength_loop m' [] @ rest"
    using read_one [of s b] by auto
  have v: "take_bit (7 * i) n OR push_bit (7 * i) (ucast (b AND 0x7f)) = take_bit (7 * Suc i) n"
    using take_bit_push_or [of "7 * i" n 7]
    by (simp add: b_def digit_low digit_low' Suc.prems(4) add.commute)
  show ?case
  proof (cases "m' = 0")
    case True
    then have "b AND 0x80 = 0" by (simp add: b_def m'_def digit_high)
    moreover have "take_bit (7 * Suc i) n = n" using True m'n by (metis take_bit_self_of_drop_0)
    ultimately show ?thesis using t v True enc Suc.prems(5)
      by (simp add: decodeLength_from.simps [of rd i])
  next
    case False
    then have hi: "b AND 0x80 \<noteq> 0" by (simp add: b_def m'_def digit_high' word_gt_0)
    have i: "Suc i < 4"
      using False m'n Suc.prems(5,6) drop_28_0 [of n] by (cases "i = 3") auto
    have x: "x = 4 - Suc i" and m'0: "0 < m'"
      using Suc.hyps(2) False by (simp_all add: word_gt_0)
    from Suc.hyps(1) [OF x t(2,3) m'0 m'n i Suc.prems(6)]
    obtain s' where "decodeLength_from rd (Suc i) (take_bit (7 * Suc i) n) (7 * Suc i) t =
           (Inr (n, int (Suc i + length (encodeLength_loop m' []))), s')" "good s'" "pending s' = rest"
      by blast
    with t v hi enc Suc.prems(5) show ?thesis
      by (simp add: decodeLength_from.simps [of rd i] add.commute)
  qed
qed
end

lemma encodeLength_append: "encodeLength n buf = buf @ encodeLength n []"
  using encodeLength_loop_append [of n buf "[]"] by (simp add: encodeLength_def)

lemma encodeLength_loop_length:
  "128 ^ k \<le> unat m \<Longrightarrow> unat m < 128 ^ Suc k \<Longrightarrow> length (encodeLength_loop m []) = Suc k"
proof (induction k arbitrary: m)
  case 0
  then have "0 < m" "drop_bit 7 m = 0"
    by (auto simp: word_gt_0 unat_drop_bit_7 word_unat_eq_iff simp del: drop_bit_eq_div)
  then show ?case by (simp add: encodeLength_loop_Cons)
next
  case (Suc k)
  from Suc.prems(1) have "0 < unat m" by (metis less_le_trans zero_less_numeral zero_less_power)
  then have "0 < m" by (simp add: word_gt_0 unat_gt_0)
  moreover have "length (encodeLength_loop (drop_bit 7 m) []) = Suc k"
    using Suc.prems by (intro Suc.IH) (auto simp: unat_drop_bit_7 less_mult_imp_div_less mult.commute less_eq_div_iff_mult_less_eq)
  ultimately show ?case by (simp add: encodeLength_loop_Cons)
qed

lemma encodeLength_length:
  "length (encodeLength n []) =
     (if unat n < 2 ^ 7 then 1 else if unat n < 2 ^ 14 then 2 else if unat n < 2 ^ 21 then 3
      else if unat n < 2 ^ 28 then 4 else 5)"
proof (cases "n = 0")
  case True
  then show ?thesis by (simp add: encodeLength_def)
next
  case False
  have "unat n < 2 ^ LENGTH(32)" by (rule unsigned_less)
  moreover from False have "1 \<le> unat n" by (simp add: Suc_le_eq unat_gt_0)
  ultimately show ?thesis
    using False encodeLength_loop_length [of 0 n] encodeLength_loop_length [of 1 n] encodeLength_loop_length [of 2 n]
      encodeLength_loop_length [of 3 n] encodeLength_loop_length [of 4 n]
    by (simp add: encodeLength_def)
qed

lemma take_bit_mono: "take_bit j v = v \<Longrightarrow> j \<le> k \<Longrightarrow> take_bit k v = (v :: 'a::len word)"
  by (metis min.absorb2 take_bit_take_bit)

lemma takes_0 [simp]: "takes pend ok 0 s s \<longleftrightarrow> ok s"
  by (simp add: takes_def)

lemma takes_trans: "takes pend ok j s t \<Longrightarrow> takes pend ok k t u \<Longrightarrow> takes pend ok (j + k) s u"
  unfolding takes_def by (metis append.assoc length_append)

lemma takes_ok: "takes pend ok k s t \<Longrightarrow> ok t"
  by (simp add: takes_def)

lemma take_bit_or_push:
  fixes v x :: "'a::len word"
  assumes "take_bit k v = v" "take_bit j x = x"
  shows "take_bit (k + j) (v OR push_bit k x) = v OR push_bit k x"
proof (rule bit_word_eqI)
  fix n assume "n < LENGTH('a)"
  have "bit v n \<Longrightarrow> n < k" "bit x (n - k) \<Longrightarrow> n - k < j"
    using assms by (metis bit_take_bit_iff)+
  then show "bit (take_bit (k + j) (v OR push_bit k x)) n = bit (v OR push_bit k x) n"
    by (auto simp: bit_simps)
qed

context byte_reader
begin

lemma read_takes: "good s \<Longrightarrow> rd n s = (Inr bs, s') \<Longrightarrow> takes pending good n s s' \<and> length bs = n"
  using read_sound by (fastforce simp: takes_def)

lemma decodeLength_encode:
  assumes "good s" "pending s = encodeLength n [] @ rest" "unat n < 2 ^ 28"
  shows "\<exists>s'. decodeLength rd s = (Inr (n, int (length (encodeLength n []))), s') \<and> good s' \<and> pending s' = rest"
proof (cases "n = 0")
  case True
  with assms obtain t where "rd 1 s = (Inr [0], t)" "good t" "pending t = rest"
    using read_one [of s 0 rest] by (auto simp: encodeLength_def)
  with True show ?thesis by (simp add: decodeLength_def decodeLength_from.simps encodeLength_def)
next
  case False
  then show ?thesis
    using decodeLength_from_encode [of s n rest 0 n] assms
    by (simp add: decodeLength_def encodeLength_def word_gt_0)
qed

lemma decodeLength_from_takes:
  assumes "good s" "decodeLength_from rd i v (7 * i) s = (Inr (w, l), s')" "i \<le> 4" "take_bit (7 * i) v = v"
  shows "\<exists>k. takes pending good k s s' \<and> i + k \<le> 4 \<and> (i < 4 \<longrightarrow> 0 < k) \<and>
     (l = int (i + k) \<and> take_bit 28 w = w \<or> l = - 1 \<and> w = - 1)"
  using assms
proof (induction "4 - i" arbitrary: i v s)
  case 0
  then show ?case by (intro exI [of _ 0]) (auto simp: decodeLength_from.simps [of rd 4])
next
  case (Suc x)
  then have i: "i < 4" by simp
  with Suc.prems(2) obtain buf t where rd: "rd 1 s = (Inr buf, t)"
    by (auto simp: decodeLength_from.simps [of rd i])
  let ?v = "v OR push_bit (7 * i) (ucast (buf ! 0 AND 0x7f))"
  have t: "takes pending good 1 s t" using read_takes [OF Suc.prems(1) rd] by simp
  have x7: "take_bit 7 (ucast (buf ! 0 AND 0x7f) :: u32) = ucast (buf ! 0 AND 0x7f)"
    unfolding mask7_u8 by (rule bit_word_eqI) (auto simp: bit_simps)
  have v': "take_bit (7 * Suc i) ?v = ?v"
    using take_bit_or_push [OF Suc.prems(4) x7] by (simp add: add.commute)
  show ?case
  proof (cases "buf ! 0 AND 0x80 = 0")
    case True
    with Suc.prems(2) rd i have "w = ?v" "l = int (i + 1)" "s' = t"
      by (auto simp: decodeLength_from.simps [of rd i] Let_def)
    moreover have "take_bit 28 ?v = ?v"
      using take_bit_mono [OF v', of 28] i by simp
    ultimately show ?thesis using t i by (intro exI [of _ 1]) auto
  next
    case False
    with Suc.prems(2) rd i have "decodeLength_from rd (Suc i) ?v (7 * Suc i) t = (Inr (w, l), s')"
      by (auto simp: decodeLength_from.simps [of rd i] Let_def add.commute)
    then obtain k where "takes pending good k t s'" "Suc i + k \<le> 4"
      "l = int (Suc i + k) \<and> take_bit 28 w = w \<or> l = - 1 \<and> w = - 1"
      using Suc.hyps(1) [of "Suc i" t ?v] Suc.hyps(2) i v' takes_ok [OF t] by force
    with takes_trans [OF t] show ?thesis by (intro exI [of _ "Suc k"]) fastforce
  qed
qed

end

lemma unat_take_bit_28: "take_bit 28 w = (w :: u32) \<Longrightarrow> unat w < 2 ^ 28"
  by (metis unsigned_take_bit_eq take_bit_nat_less_exp)

lemma sint_nonneg_28: "unat (w :: u32) < 2 ^ 28 \<Longrightarrow> sint w = int (unat w)"
proof -
  assume "unat w < 2 ^ 28"
  then have "uint w < 2 ^ 28" using nat_less_iff [of "uint w" "2 ^ 28"] by simp
  moreover have "- (2 ^ 31) \<le> uint w" by (rule order_trans [OF _ uint_ge_0]) simp
  ultimately have "signed_take_bit 31 (uint w) = uint w"
    by (intro signed_take_bit_int_eq_self) auto
  then show ?thesis by (simp add: sint_uint)
qed

lemma uint16_roundtrip:
  "push_bit 8 (ucast (ucast (drop_bit 8 (v AND 0xff00)) :: u8)) OR ucast (ucast (v AND 0x00ff) :: u8) = (v :: u16)"
proof -
  have m: "(0x00ff :: u16) = mask 8" "(0xff00 :: u16) = push_bit 8 (mask 8)"
    by (simp_all add: mask_eq_exp_minus_1)
  show ?thesis unfolding m by (rule bit_word_eqI) (auto simp: bit_simps)
qed

context byte_reader
begin

lemma decodeLength_takes:
  assumes "good s" "decodeLength rd s = (Inr (w, l), s')"
  shows "\<exists>k. takes pending good k s s' \<and> 0 < k \<and> k \<le> 4 \<and> (l = int k \<and> unat w < 2 ^ 28 \<or> l = - 1 \<and> w = - 1)"
proof -
  have "\<exists>k. takes pending good k s s' \<and> 0 + k \<le> 4 \<and> ((0::nat) < 4 \<longrightarrow> 0 < k) \<and> (l = int (0 + k) \<and> take_bit 28 w = w \<or> l = - 1 \<and> w = - 1)"
    by (rule decodeLength_from_takes [of s 0 0 w l s']) (use assms in \<open>simp_all add: decodeLength_def\<close>)
  then obtain k where "takes pending good k s s'" "0 < k" "k \<le> 4" "l = int k \<and> take_bit 28 w = w \<or> l = - 1 \<and> w = - 1"
    by auto
  with unat_take_bit_28 [of w] show ?thesis by blast
qed

lemma getUint8_read:
  assumes "good s" "pending s = v # rest" "1 \<le> rem"
  shows "\<exists>s'. getUint8 rd rem s = (Inr (v, rem - 1), s') \<and> good s' \<and> pending s' = rest"
proof -
  obtain t where "rd 1 s = (Inr [v], t)" "good t" "pending t = rest"
    using read_one [OF assms(1,2)] .
  with assms(3) show ?thesis by (simp add: getUint8_def throwIf_def flip: not_le)
qed

lemma getUint8_takes:
  "good s \<Longrightarrow> getUint8 rd rem s = (Inr (v, rem'), s') \<Longrightarrow> takes pending good 1 s s' \<and> rem' = rem - of_nat 1"
  by (auto simp: getUint8_def throwIf_Inr dest!: read_takes)

lemma getUint16_read:
  assumes "good s" "pending s = be16 v @ rest" "2 \<le> rem"
  shows "\<exists>s'. getUint16 rd rem s = (Inr (v, rem - 2), s') \<and> good s' \<and> pending s' = rest"
proof -
  let ?bs = "be16 v"
  from assms obtain t where "rd 2 s = (Inr ?bs, t)" "good t" "pending t = rest"
    using read_exact [of s ?bs rest 2] by (auto simp: be16_def setUint16_def)
  with assms(3) show ?thesis
    using uint16_roundtrip [of v] by (auto simp: getUint16_def throwIf_def be16_def setUint16_def not_less)
qed

lemma getUint16_takes:
  "good s \<Longrightarrow> getUint16 rd rem s = (Inr (v, rem'), s') \<Longrightarrow> takes pending good 2 s s' \<and> rem' = rem - of_nat 2"
  by (auto simp: getUint16_def throwIf_Inr dest!: read_takes)

lemma readSized_read:
  assumes "good s" "pending s = encodeLength (word_of_nat (length val)) [] @ val @ rest"
    and "length val < 2 ^ 28" "length (encodeLength (word_of_nat (length val)) []) + length val \<le> unat rem"
  shows "\<exists>s'. readSized rd rem s = (Inr (val, word_of_nat (length val),
       rem - word_of_nat (length (encodeLength (word_of_nat (length val)) []) + length val)), s')
     \<and> good s' \<and> pending s' = rest"
proof -
  define n :: u32 where "n = word_of_nat (length val)"
  let ?k = "length (encodeLength n [])"
  have n: "unat n = length val" using assms(3) by (simp add: n_def unsigned_of_nat take_bit_nat_eq_self)
  obtain t where t: "decodeLength rd s = (Inr (n, int ?k), t)" "good t" "pending t = val @ rest"
    using decodeLength_encode [of s n "val @ rest"] assms(1-3) n by (auto simp: n_def)
  obtain u where u: "rd (unat n) t = (Inr val, u)" "good u" "pending u = rest"
    using read_exact [OF t(2,3)] n by auto
  have "unat (rem - word_of_nat ?k) = unat rem - ?k"
    using assms(4) by (subst unat_sub) (auto simp: n_def word_le_nat_alt unsigned_of_nat take_bit_nat_eq_self encodeLength_length)
  then have "\<not> rem - word_of_nat ?k < n"
    using assms(4) n by (simp add: word_less_nat_alt n_def)
  moreover have "\<not> sint n < 0" using sint_nonneg_28 [of n] n assms(3) by simp
  ultimately show ?thesis using t u
    by (simp add: readSized_def throwIf_def diff_diff_eq flip: n_def)
qed

lemma readSized_takes:
  assumes "good s" "readSized rd rem s = (Inr (buf, n, rem'), s')"
  shows "\<exists>k. takes pending good k s s' \<and> k < 2 ^ 28 + 4 \<and> rem' = rem - word_of_nat k
     \<and> length buf = unat n \<and> unat n < 2 ^ 28"
proof -
  from assms(2) obtain strLen lenLen t where dl: "decodeLength rd s = (Inr (strLen, lenLen), t)"
    and nn: "\<not> sint strLen < 0" and rd: "rd (unat strLen) t = (Inr buf, s')" and n: "n = strLen"
    and rem': "rem' = rem - of_int lenLen - strLen"
    by (auto simp: readSized_def throwIf_Inr Let_def split: if_splits)
  obtain k where k: "takes pending good k s t" "k \<le> 4" "lenLen = int k" "unat strLen < 2 ^ 28"
    using decodeLength_takes [OF assms(1) dl] nn by auto
  from read_takes [OF takes_ok [OF k(1)] rd]
  have "takes pending good (k + unat strLen) s s'" "length buf = unat strLen"
    using takes_trans [OF k(1)] by auto
  with k n rem' show ?thesis
    by (intro exI [of _ "k + unat strLen"]) (simp add: diff_diff_eq)
qed

end

section \<open>Lemmas on gzip\<close>

lemma zlib_deflateInit2:
  "zlib_codec Z gz todo fine plain left \<Longrightarrow>
     gz src \<noteq> [] \<and> fst (deflateInit2 Z src) = Z_OK \<and> todo (snd (deflateInit2 Z src)) = gz src"
  unfolding zlib_codec_def by (elim conjE) (erule allE [of _ src])

lemma zlib_deflate:
  assumes "zlib_codec Z gz todo fine plain left" "deflate Z n z = (p, z')"
  shows "todo z = p @ todo z' \<and> length p \<le> n \<and> (length p < n \<longrightarrow> todo z' = [])"
proof -
  have "\<forall>(n :: nat) z. case deflate Z n z of (p, z') \<Rightarrow>
        todo z = p @ todo z' \<and> length p \<le> n \<and> (length p < n \<longrightarrow> todo z' = [])"
    using assms(1) unfolding zlib_codec_def by (elim conjE)
  from spec [OF spec [OF this, of n], of z] assms(2) show ?thesis by simp
qed

lemma zlib_inflateInit2:
  assumes "zlib_codec Z gz todo fine plain left"
  obtains z where "inflateInit2 Z (gz src) = (Z_OK, z)" "fine z" "plain z = src"
proof -
  have "\<forall>src. case inflateInit2 Z (gz src) of (r, z) \<Rightarrow> r = Z_OK \<and> fine z \<and> plain z = src"
    using assms unfolding zlib_codec_def by (elim conjE)
  from this [rule_format, of src] that show thesis by (auto split: prod.splits)
qed

lemma zlib_inflate:
  assumes "zlib_codec Z gz todo fine plain left" "inflate Z n z = (st, p, z')" "fine z" "0 < n"
  shows "fine z' \<and> plain z = p @ plain z' \<and>
     (st = Z_STREAM_END \<and> plain z' = [] \<and> inflateEnd Z z' = Z_OK \<or> st = Z_OK \<and> left z' < left z)"
proof -
  have "\<forall>n z. fine z \<longrightarrow> 0 < n \<longrightarrow> (case inflate Z n z of (st, p, z') \<Rightarrow>
        fine z' \<and> plain z = p @ plain z' \<and>
        (st = Z_STREAM_END \<and> plain z' = [] \<and> inflateEnd Z z' = Z_OK \<or> st = Z_OK \<and> left z' < left z))"
    using assms(1) unfolding zlib_codec_def by (elim conjE)
  from this [rule_format, OF assms(3,4)] assms(2) show ?thesis by simp
qed

lemma deflate_loop_todo:
  assumes "zlib_codec Z gz todo fine plain left"
  shows "deflate_loop Z (length out) 0 z out = Some (out @ todo z)"
proof (induction "length (todo z)" arbitrary: z out rule: less_induct)
  case less
  obtain p z' where d: "deflate Z ChunkSize z = (p, z')" by force
  with zlib_deflate [OF assms d]
  have p: "todo z = p @ todo z'" "length p \<le> ChunkSize" "length p < ChunkSize \<longrightarrow> todo z' = []"
    by auto
  show ?case
  proof (cases "length p < ChunkSize")
    case True
    then show ?thesis
      using p d by (subst deflate_loop.simps) (simp add: deflate_loop.simps [of Z _ "ChunkSize - length p"])
  next
    case False
    with p have "length p = ChunkSize" by simp
    then have "length (todo z') < length (todo z)" using p(1) by (simp add: ChunkSize_def)
    from less [OF this, of "out @ p"] show ?thesis
      using p d \<open>length p = ChunkSize\<close> by (subst deflate_loop.simps) (simp add: Let_def)
  qed
qed

lemma inflate_loop_plain:
  assumes "zlib_codec Z gz todo fine plain left" "0 < n" "fine z"
  shows "\<exists>z'. inflate_loop Z n Z_OK z out = Some (Z_STREAM_END, z', out @ plain z) \<and> inflateEnd Z z' = Z_OK"
  using assms(3)
proof (induction "left z" arbitrary: z out rule: less_induct)
  case less
  obtain st p z' where d: "inflate Z n z = (st, p, z')" by (metis prod_cases3)
  from zlib_inflate [OF assms(1) d less.prems assms(2)]
  have p: "fine z'" "plain z = p @ plain z'"
    "st = Z_STREAM_END \<and> plain z' = [] \<and> inflateEnd Z z' = Z_OK \<or> st = Z_OK \<and> left z' < left z" by auto
  from p(3) show ?case
  proof
    assume e: "st = Z_STREAM_END \<and> plain z' = [] \<and> inflateEnd Z z' = Z_OK"
    then show ?thesis
      using p(2) d by (subst inflate_loop.simps)
        (simp add: inflate_loop.simps [of Z n 1] Z_STREAM_END_def Z_OK_def)
  next
    assume e: "st = Z_OK \<and> left z' < left z"
    then obtain z'' where "inflate_loop Z n Z_OK z' (out @ p) = Some (Z_STREAM_END, z'', (out @ p) @ plain z')"
      "inflateEnd Z z'' = Z_OK"
      using less.hyps p(1) by blast
    then show ?thesis using d p(2) e by (subst inflate_loop.simps) simp
  qed
qed

lemma gzipCompress_gz:
  assumes "zlib_codec Z gz todo fine plain left" "length src < 2 ^ 32"
  shows "gzipCompress Z src [] = ret (Some (gz src))"
  using deflate_loop_todo [OF assms(1), of "[]"] zlib_deflateInit2 [OF assms(1), of src] assms(2)
  by (simp add: gzipCompress_def case_prod_unfold)

lemma gzipUncompress_gz:
  assumes "zlib_codec Z gz todo fine plain left"
  shows "gzipUncompress Z (gz src) [] = ret (Some src)"
proof -
  obtain z where z: "inflateInit2 Z (gz src) = (Z_OK, z)" "fine z" "plain z = src"
    using zlib_inflateInit2 [OF assms] .
  have "0 < length (gz src) * 2" using zlib_deflateInit2 [OF assms, of src] by simp
  from inflate_loop_plain [OF assms this z(2), of "[]"] z show ?thesis
    by (auto simp: gzipUncompress_def)
qed

section \<open>Fields\<close>

lemma set_fields:
  "setUint8 v buf = buf @ [v]"
  "setUint16 x buf = buf @ be16 x"
  "setString g buf = buf @ sized g"
  "setData g buf = buf @ sized g"
  by (simp_all add: setUint8_def setUint16_def be16_def setString_def setData_def sized_def encodeLength_append [of _ buf])

lemma length_be16 [simp]: "length (be16 v) = 2"
  by (simp add: be16_def setUint16_def)

lemma setGzip_fields:
  assumes "zlib_codec Z gz todo fine plain left" "length val < 2 ^ 32"
  shows "setGzipString Z val buf = ret (buf @ sized (gz val))"
    and "setGzipData Z val buf = (if val = [] then ret buf else ret (buf @ sized (gz val)))"
  by (simp_all add: gzipCompress_gz [OF assms] setGzipString_def setGzipData_def sized_def
      encodeLength_append [of _ buf] fun_eq_iff)

context byte_reader
begin

lemma getString_read:
  assumes "good s" "pending s = sized val @ rest" "length val < 2 ^ 28" "length (sized val) \<le> unat rem"
  shows "\<exists>s'. getString rd rem s = (Inr (val, rem - word_of_nat (length (sized val))), s') \<and> good s' \<and> pending s' = rest"
  using readSized_read [OF assms(1), of val rest rem] assms(2-) by (auto simp: sized_def getString_def)

lemma getData_read:
  assumes "good s" "pending s = sized val @ rest" "length val < 2 ^ 28" "length (sized val) \<le> unat rem"
  shows "\<exists>s'. getData rd rem s = (Inr (val, rem - word_of_nat (length (sized val))), s') \<and> good s' \<and> pending s' = rest"
  using getString_read [OF assms] by (simp add: getString_def getData_def)

lemma getGzipString_read:
  assumes "zlib_codec Z gz todo fine plain left"
    and "good s" "pending s = sized (gz val) @ rest" "length (gz val) < 2 ^ 28" "length (sized (gz val)) \<le> unat rem"
  shows "\<exists>s'. getGzipString Z rd rem s = (Inr (val, rem - word_of_nat (length (sized (gz val)))), s')
     \<and> good s' \<and> pending s' = rest"
proof -
  let ?n = "word_of_nat (length (gz val)) :: u32"
  obtain t where t: "readSized rd rem s = (Inr (gz val, ?n, rem - word_of_nat (length (sized (gz val)))), t)"
    "good t" "pending t = rest"
    using readSized_read [OF assms(2), of "gz val" rest rem] assms(3-) by (auto simp: sized_def)
  have "unat ?n = length (gz val)" using assms(4) by (simp add: unsigned_of_nat take_bit_nat_eq_self)
  then have "0 < sint ?n"
    using sint_nonneg_28 [of ?n] assms(4) zlib_deflateInit2 [OF assms(1), of val] by simp
  with t show ?thesis by (simp add: getGzipString_def gzipUncompress_gz [OF assms(1)])
qed

lemma getGzipData_read:
  assumes "zlib_codec Z gz todo fine plain left"
    and "good s" "pending s = sized (gz val) @ rest" "length (gz val) < 2 ^ 28" "length (sized (gz val)) \<le> unat rem"
  shows "\<exists>s'. getGzipData Z rd rem s = (Inr (val, rem - word_of_nat (length (sized (gz val)))), s')
     \<and> good s' \<and> pending s' = rest"
  using getGzipString_read [OF assms] by (simp add: getGzipString_def getGzipData_def)

lemma getString_takes:
  assumes "good s" "getString rd rem s = (Inr (v, rem'), s')"
  shows "\<exists>k. takes pending good k s s' \<and> k < 2 ^ 28 + 4 \<and> rem' = rem - word_of_nat k"
  using assms by (auto simp: getString_def dest!: readSized_takes)

lemma getGzipString_takes:
  assumes "good s" "getGzipString Z rd rem s = (Inr (v, rem'), s')"
  shows "\<exists>k. takes pending good k s s' \<and> k < 2 ^ 28 + 4 \<and> rem' = rem - word_of_nat k"
proof -
  from assms(2) obtain buf n r t where r: "readSized rd rem s = (Inr (buf, n, r), t)"
    and "r = rem'" "t = s'"
    by (auto simp: getGzipString_def gzipUncompress_def split: if_splits option.splits prod.splits)
  with readSized_takes [OF assms(1)] show ?thesis by blast
qed

lemma getGzipData_takes:
  assumes "good s" "getGzipData Z rd rem s = (Inr (v, rem'), s')"
  shows "\<exists>k. takes pending good k s s' \<and> k < 2 ^ 28 + 4 \<and> rem' = rem - word_of_nat k"
  using getGzipString_takes [OF assms(1)] assms(2) by (simp add: getGzipString_def getGzipData_def)

end

section \<open>A stored-only compressor\<close>

text \<open>A codec with the laws of \<open>zlib_codec\<close>: one marker byte, then the bytes themselves.\<close>

definition stored_zlib :: "bytes zlib" where
  "stored_zlib =
    \<lparr>deflateInit2 = (\<lambda>src. (0, 0x1f # src)), deflate = (\<lambda>n z. (take n z, drop n z)),
     inflateInit2 = (\<lambda>src. (0, tl src)),
     inflate = (\<lambda>n z. if length z \<le> n then (1, z, []) else (0, take n z, drop n z)),
     inflateEnd = (\<lambda>z. 0)\<rparr>"

lemma stored_zlib_codec: "zlib_codec stored_zlib (Cons 0x1f) (\<lambda>z. z) (\<lambda>z. True) (\<lambda>z. z) length"
  by (auto simp: zlib_codec_def stored_zlib_def Z_OK_def Z_STREAM_END_def)

end
