(* ===== verification/Messages.thy ===== *)
theory Messages
  imports Encoding
begin

text \<open>
  \<^verbatim>\<open>packet/fix_header\<close>, \<^verbatim>\<open>packet/message_base\<close>, \<^verbatim>\<open>packet/message\<close> and
  \<^verbatim>\<open>packet/message_manager\<close>: the fixed header, the seven message classes with their
  \<^verbatim>\<open>Encode\<close> and \<^verbatim>\<open>Decode\<close>, and the dispatch on the message type. The virtual
  \<^verbatim>\<open>IWriter::Write\<close> is the function \<open>wr\<close>. A member the constructor leaves uninitialised takes
  its value from a \<open>junk\<close> argument (what the storage held before).
\<close>

section \<open>The fixed header\<close>

text \<open>
  \<^verbatim>\<open>enum MessageType\<close>. The enumeration's value range is 0 to 15; \<open>kMsgUnnamed\<close> stands for
  the values without a name (9 to 15).
\<close>

datatype MessageType =
    kMsgFirst
  | kMsgConnect
  | kMsgConnAck
  | kMsgPingReq
  | kMsgPingResp
  | kMsgDisconnect
  | kMsgSendReq
  | kMsgSendResp
  | kMsgLast
  | kMsgUnnamed u8

fun msgCode :: "MessageType \<Rightarrow> u8" where
  "msgCode kMsgFirst = 0"
| "msgCode kMsgConnect = 1"
| "msgCode kMsgConnAck = 2"
| "msgCode kMsgPingReq = 3"
| "msgCode kMsgPingResp = 4"
| "msgCode kMsgDisconnect = 5"
| "msgCode kMsgSendReq = 6"
| "msgCode kMsgSendResp = 7"
| "msgCode kMsgLast = 8"
| "msgCode (kMsgUnnamed v) = v"

definition MessageType_of :: "u8 \<Rightarrow> MessageType" where
  "MessageType_of v =
     (if v = 0 then kMsgFirst else if v = 1 then kMsgConnect else if v = 2 then kMsgConnAck
      else if v = 3 then kMsgPingReq else if v = 4 then kMsgPingResp
      else if v = 5 then kMsgDisconnect else if v = 6 then kMsgSendReq
      else if v = 7 then kMsgSendResp else if v = 8 then kMsgLast else kMsgUnnamed v)"

record FixHeader =
  fh_msgType :: MessageType
  fh_remainLen :: u32
  fh_flags :: u8

text \<open>What uninitialised storage holds.\<close>

record junk =
  junk_type :: MessageType
  junk_u32 :: u32
  junk_u16 :: u16
  junk_u8 :: u8
  junk_bool :: bool

definition FixHeader_new :: "junk \<Rightarrow> FixHeader" where
  "FixHeader_new j = \<lparr>fh_msgType = junk_type j, fh_remainLen = junk_u32 j, fh_flags = 0\<rparr>"

definition badMsgType :: "MessageType \<Rightarrow> bool" where
  "badMsgType t \<longleftrightarrow> msgCode t \<le> msgCode kMsgFirst \<or> msgCode t \<ge> msgCode kMsgLast"

definition FixHeader_Encode :: "FixHeader \<Rightarrow> bytes \<Rightarrow> ('s, bytes) io" where
  "FixHeader_Encode h buf =
     seq (throwIf (badMsgType (fh_msgType h)) TcpExcBadMsgType) (\<lambda>_.
     let val = push_bit 4 (msgCode (fh_msgType h)) OR (fh_flags h AND 0x0F)
     in ret (encodeLength (fh_remainLen h) (setUint8 val buf)))"

definition FixHeader_Decode :: "(nat \<Rightarrow> ('s, bytes) io) \<Rightarrow> FixHeader \<Rightarrow> ('s, FixHeader) io" where
  "FixHeader_Decode rd h =
     seq (rd 1) (\<lambda>buf.
     let msgType = MessageType_of (drop_bit 4 (buf ! 0 AND 0xF0));
         flags = buf ! 0 AND 0x0F
     in seq (throwIf (badMsgType msgType) TcpExcBadMsgType) (\<lambda>_.
        seq (throwIf (drop_bit 3 flags \<noteq> 0 \<or> flags AND 0x01 \<noteq> 0) TcpExcInvalidFlag) (\<lambda>_.
        seq (decodeLength rd) (\<lambda>(remainLen, len).
        ret (h\<lparr>fh_msgType := msgType, fh_flags := flags, fh_remainLen := remainLen\<rparr>)))))"

section \<open>MessageBase::WriteHeader\<close>

definition kMaxPayloadSize :: int where
  "kMaxPayloadSize = 2 ^ (4 * 7) - 1"

definition WriteHeader ::
  "FixHeader \<Rightarrow> bytes \<Rightarrow> bytes option \<Rightarrow> int \<Rightarrow> int \<Rightarrow> ('s, FixHeader \<times> bytes) io" where
  "WriteHeader h headerBuf mutableHeader payloadLen dataLen =
     (let mutableHeaderLen = (case mutableHeader of None \<Rightarrow> 0 | Some m \<Rightarrow> int (length m));
          totalPayloadLen = mutableHeaderLen + payloadLen + dataLen
      in seq (throwIf (totalPayloadLen > kMaxPayloadSize) TcpExcMsgTooLong) (\<lambda>_.
         let h' = h\<lparr>fh_remainLen := word_of_int totalPayloadLen\<rparr>
         in seq (FixHeader_Encode h' headerBuf) (\<lambda>buf.
            ret (h', case mutableHeader of None \<Rightarrow> buf | Some m \<Rightarrow> buf @ m))))"

section \<open>Constants of the protocol\<close>

text \<open>\<^verbatim>\<open>"GOSOC"\<close>.\<close>

definition kProtocolName :: bytes where
  "kProtocolName = [0x47, 0x4F, 0x53, 0x4F, 0x43]"

definition kProtocolVersion :: u8 where
  "kProtocolVersion = 1"

definition kEnableGzip :: bool where
  "kEnableGzip = True"

section \<open>Connect\<close>

record Connect =
  cn_header :: FixHeader
  cn_protocolName :: bytes
  cn_protocolVersion :: u8
  cn_keepAlive :: u16
  cn_payload :: bytes
  cn_enableGzip :: bool

definition Connect_new :: "junk \<Rightarrow> Connect" where
  "Connect_new j =
     \<lparr>cn_header = (FixHeader_new j)\<lparr>fh_msgType := kMsgConnect\<rparr>, cn_protocolName = [],
      cn_protocolVersion = junk_u8 j, cn_keepAlive = junk_u16 j, cn_payload = [],
      cn_enableGzip = junk_bool j\<rparr>"

definition Connect_Encode :: "'z zlib \<Rightarrow> (bytes \<Rightarrow> ('s, unit) io) \<Rightarrow> Connect \<Rightarrow> ('s, Connect) io" where
  "Connect_Encode Z wr m =
     (let flags = push_bit 7 (if cn_enableGzip m then 1 else 0);
          buf = setUint16 (cn_keepAlive m)
                  (setUint8 flags (setUint8 (cn_protocolVersion m) (setString (cn_protocolName m) [])))
      in seq (if kEnableGzip then setGzipString Z (cn_payload m) [] else ret (setString (cn_payload m) [])) (\<lambda>payloadBuf.
         seq (WriteHeader (cn_header m) [] (Some buf) (int32 (length payloadBuf)) 0) (\<lambda>(h, finalBuf).
         seq (wr (finalBuf @ payloadBuf)) (\<lambda>_. ret (m\<lparr>cn_header := h\<rparr>)))))"

definition Connect_Decode :: "'z zlib \<Rightarrow> (nat \<Rightarrow> ('s, bytes) io) \<Rightarrow> Connect \<Rightarrow> ('s, Connect) io" where
  "Connect_Decode Z rd m =
     seq (getString rd (fh_remainLen (cn_header m))) (\<lambda>(protocolName, remainLen).
     seq (throwIf (protocolName \<noteq> kProtocolName) TcpExcInvalidProName) (\<lambda>_.
     seq (getUint8 rd remainLen) (\<lambda>(protocolVersion, remainLen).
     seq (throwIf (protocolVersion > kProtocolVersion) TcpExcInvalidProVersion) (\<lambda>_.
     seq (getUint8 rd remainLen) (\<lambda>(flags, remainLen).
     seq (throwIf (flags \<noteq> 0 \<and> flags \<noteq> 128) TcpExcInvalidFlag) (\<lambda>_.
     seq (getUint16 rd remainLen) (\<lambda>(keepAlive, remainLen).
     seq (if kEnableGzip then getGzipString Z rd remainLen else getString rd remainLen) (\<lambda>(payload, remainLen).
     seq (throwIf (remainLen \<noteq> 0) TcpExcMsgTooLong) (\<lambda>_.
     ret (m\<lparr>cn_protocolName := protocolName, cn_protocolVersion := protocolVersion,
            cn_enableGzip := flags AND 0x80 > 0, cn_keepAlive := keepAlive, cn_payload := payload\<rparr>))))))))))"

section \<open>ConnAck\<close>

datatype ReturnCode =
    RetCodeAccepted
  | RetCodeServerUnavailable
  | RetCodeBadLoginInfo
  | RetCodeNotAuthorized
  | RetCodeAlreadyConnected
  | RetCodeConcurrentLogin
  | RetCodeBadToken
  | RetCodeInvalid

fun retCode :: "ReturnCode \<Rightarrow> u8" where
  "retCode RetCodeAccepted = 0"
| "retCode RetCodeServerUnavailable = 1"
| "retCode RetCodeBadLoginInfo = 2"
| "retCode RetCodeNotAuthorized = 3"
| "retCode RetCodeAlreadyConnected = 4"
| "retCode RetCodeConcurrentLogin = 5"
| "retCode RetCodeBadToken = 6"
| "retCode RetCodeInvalid = 7"

text \<open>The cast is only made for values below \<^verbatim>\<open>RetCodeInvalid\<close>.\<close>

definition ReturnCode_of :: "u8 \<Rightarrow> ReturnCode" where
  "ReturnCode_of v =
     (if v = 0 then RetCodeAccepted else if v = 1 then RetCodeServerUnavailable
      else if v = 2 then RetCodeBadLoginInfo else if v = 3 then RetCodeNotAuthorized
      else if v = 4 then RetCodeAlreadyConnected else if v = 5 then RetCodeConcurrentLogin
      else if v = 6 then RetCodeBadToken else RetCodeInvalid)"

record ConnAck =
  ca_header :: FixHeader
  ca_returnCode :: ReturnCode

text \<open>The constructor stores \<^verbatim>\<open>kMsgConnect\<close>, as in the source.\<close>

definition ConnAck_new :: "junk \<Rightarrow> ConnAck" where
  "ConnAck_new j =
     \<lparr>ca_header = (FixHeader_new j)\<lparr>fh_msgType := kMsgConnect\<rparr>,
      ca_returnCode = ReturnCode_of (junk_u8 j)\<rparr>"

definition ConnAck_Encode :: "(bytes \<Rightarrow> ('s, unit) io) \<Rightarrow> ConnAck \<Rightarrow> ('s, ConnAck) io" where
  "ConnAck_Encode wr m =
     (let buf = setUint8 (retCode (ca_returnCode m)) (setUint8 0 [])
      in seq (WriteHeader (ca_header m) [] (Some buf) 0 0) (\<lambda>(h, finalBuf).
         seq (wr finalBuf) (\<lambda>_. ret (m\<lparr>ca_header := h\<rparr>))))"

definition ConnAck_Decode :: "(nat \<Rightarrow> ('s, bytes) io) \<Rightarrow> ConnAck \<Rightarrow> ('s, ConnAck) io" where
  "ConnAck_Decode rd m =
     seq (getUint8 rd (fh_remainLen (ca_header m))) (\<lambda>(flags, remainLen).
     seq (throwIf (flags \<noteq> 0) TcpExcInvalidFlag) (\<lambda>_.
     seq (getUint8 rd remainLen) (\<lambda>(code, remainLen).
     seq (throwIf (code \<ge> retCode RetCodeInvalid) TcpExcBadReturnCode) (\<lambda>_.
     seq (throwIf (remainLen \<noteq> 0) TcpExcMsgTooLong) (\<lambda>_.
     ret (m\<lparr>ca_returnCode := ReturnCode_of code\<rparr>))))))"

section \<open>PingReq, PingResp\<close>

record PingReq =
  pq_header :: FixHeader

definition PingReq_new :: "junk \<Rightarrow> PingReq" where
  "PingReq_new j = \<lparr>pq_header = (FixHeader_new j)\<lparr>fh_msgType := kMsgPingReq\<rparr>\<rparr>"

definition PingReq_Encode :: "(bytes \<Rightarrow> ('s, unit) io) \<Rightarrow> PingReq \<Rightarrow> ('s, PingReq) io" where
  "PingReq_Encode wr m =
     seq (WriteHeader (pq_header m) [] None 0 0) (\<lambda>(h, finalBuf).
     seq (wr finalBuf) (\<lambda>_. ret (m\<lparr>pq_header := h\<rparr>)))"

definition PingReq_Decode :: "PingReq \<Rightarrow> ('s, PingReq) io" where
  "PingReq_Decode m = seq (throwIf (fh_remainLen (pq_header m) \<noteq> 0) TcpExcMsgTooLong) (\<lambda>_. ret m)"

record PingResp =
  pr_header :: FixHeader

definition PingResp_new :: "junk \<Rightarrow> PingResp" where
  "PingResp_new j = \<lparr>pr_header = (FixHeader_new j)\<lparr>fh_msgType := kMsgPingResp\<rparr>\<rparr>"

definition PingResp_Encode :: "(bytes \<Rightarrow> ('s, unit) io) \<Rightarrow> PingResp \<Rightarrow> ('s, PingResp) io" where
  "PingResp_Encode wr m =
     seq (WriteHeader (pr_header m) [] None 0 0) (\<lambda>(h, finalBuf).
     seq (wr finalBuf) (\<lambda>_. ret (m\<lparr>pr_header := h\<rparr>)))"

definition PingResp_Decode :: "PingResp \<Rightarrow> ('s, PingResp) io" where
  "PingResp_Decode m = seq (throwIf (fh_remainLen (pr_header m) \<noteq> 0) TcpExcMsgTooLong) (\<lambda>_. ret m)"

section \<open>Disconnect\<close>

text \<open>\<^verbatim>\<open>enum DisconnectType\<close>; \<open>DiscTypeUnnamed\<close> is any other byte cast to the enumeration.\<close>

datatype DisconnectType = DiscTypeNone | DiscTypeKickout | DiscTypeUnnamed u8

definition DisconnectType_of :: "u8 \<Rightarrow> DisconnectType" where
  "DisconnectType_of v =
     (if v = 0 then DiscTypeNone else if v = 1 then DiscTypeKickout else DiscTypeUnnamed v)"

fun discCode :: "DisconnectType \<Rightarrow> u8" where
  "discCode DiscTypeNone = 0"
| "discCode DiscTypeKickout = 1"
| "discCode (DiscTypeUnnamed v) = v"

record DisconnectMsg =
  dc_header :: FixHeader
  dc_type :: DisconnectType

definition Disconnect_new :: "junk \<Rightarrow> DisconnectMsg" where
  "Disconnect_new j =
     \<lparr>dc_header = (FixHeader_new j)\<lparr>fh_msgType := kMsgDisconnect\<rparr>, dc_type = DiscTypeNone\<rparr>"

definition Disconnect_Encode :: "(bytes \<Rightarrow> ('s, unit) io) \<Rightarrow> DisconnectMsg \<Rightarrow> ('s, DisconnectMsg) io" where
  "Disconnect_Encode wr m =
     (let buf = setUint8 (discCode (dc_type m)) []
      in seq (WriteHeader (dc_header m) [] (Some buf) 0 0) (\<lambda>(h, finalBuf).
         seq (wr finalBuf) (\<lambda>_. ret (m\<lparr>dc_header := h\<rparr>))))"

definition Disconnect_Decode :: "(nat \<Rightarrow> ('s, bytes) io) \<Rightarrow> DisconnectMsg \<Rightarrow> ('s, DisconnectMsg) io" where
  "Disconnect_Decode rd m =
     seq (getUint8 rd (fh_remainLen (dc_header m))) (\<lambda>(t, remainLen).
     seq (throwIf (remainLen \<noteq> 0) TcpExcMsgTooLong) (\<lambda>_.
     ret (m\<lparr>dc_type := DisconnectType_of t\<rparr>)))"

section \<open>SendReq\<close>

text \<open>\<^verbatim>\<open>enum ReplyLevel\<close>; its value range is 0 to 3, and 3 has no name.\<close>

datatype ReplyLevel = RLevelNoReply | RLevelReplyLater | RLevelReplyNow | RLevelUnnamed

fun replyCode :: "ReplyLevel \<Rightarrow> u8" where
  "replyCode RLevelNoReply = 0"
| "replyCode RLevelReplyLater = 1"
| "replyCode RLevelReplyNow = 2"
| "replyCode RLevelUnnamed = 3"

definition ReplyLevel_of :: "u8 \<Rightarrow> ReplyLevel" where
  "ReplyLevel_of v =
     (if v = 0 then RLevelNoReply else if v = 1 then RLevelReplyLater
      else if v = 2 then RLevelReplyNow else RLevelUnnamed)"

record SendReq =
  sq_header :: FixHeader
  sq_replyLevel :: ReplyLevel
  sq_hasData :: bool
  sq_messageId :: u16
  sq_type :: bytes
  sq_payload :: bytes
  sq_data :: bytes

definition SendReq_new :: "junk \<Rightarrow> SendReq" where
  "SendReq_new j =
     \<lparr>sq_header = (FixHeader_new j)\<lparr>fh_msgType := kMsgSendReq\<rparr>, sq_replyLevel = RLevelReplyLater,
      sq_hasData = False, sq_messageId = junk_u16 j, sq_type = [], sq_payload = [], sq_data = []\<rparr>"

definition SendReq_SetData :: "bytes \<Rightarrow> SendReq \<Rightarrow> SendReq" where
  "SendReq_SetData dat m = m\<lparr>sq_hasData := True, sq_data := dat\<rparr>"

definition SendReq_flags :: "SendReq \<Rightarrow> u8" where
  "SendReq_flags m = push_bit 1 (replyCode (sq_replyLevel m)) OR push_bit 3 (if sq_hasData m then 1 else 0)"

definition SendReq_Encode :: "'z zlib \<Rightarrow> (bytes \<Rightarrow> ('s, unit) io) \<Rightarrow> SendReq \<Rightarrow> ('s, SendReq) io" where
  "SendReq_Encode Z wr m =
     (let h0 = (sq_header m)\<lparr>fh_flags := SendReq_flags m\<rparr>;
          buf = setString (sq_type m) (setUint16 (sq_messageId m) [])
      in seq (if kEnableGzip then setGzipString Z (sq_payload m) [] else ret (setString (sq_payload m) [])) (\<lambda>payloadBuf.
         seq (if sq_hasData m
              then (if kEnableGzip then setGzipData Z (sq_data m) [] else ret (setData (sq_data m) []))
              else ret []) (\<lambda>dataBuf.
         seq (WriteHeader h0 [] (Some buf) (int32 (length payloadBuf)) (int32 (length dataBuf))) (\<lambda>(h, finalBuf).
         seq (wr (finalBuf @ payloadBuf @ dataBuf)) (\<lambda>_. ret (m\<lparr>sq_header := h\<rparr>))))))"

definition SendReq_Decode :: "'z zlib \<Rightarrow> (nat \<Rightarrow> ('s, bytes) io) \<Rightarrow> SendReq \<Rightarrow> ('s, SendReq) io" where
  "SendReq_Decode Z rd m =
     (let replyLevel = ReplyLevel_of (drop_bit 1 (fh_flags (sq_header m) AND 0x06));
          hasData = (drop_bit 3 (fh_flags (sq_header m) AND 0x08) \<noteq> 0)
      in seq (getUint16 rd (fh_remainLen (sq_header m))) (\<lambda>(messageId, remainLen).
         seq (getString rd remainLen) (\<lambda>(typ, remainLen).
         seq (if kEnableGzip then getGzipString Z rd remainLen else getString rd remainLen) (\<lambda>(payload, remainLen).
         seq (if hasData
              then (if kEnableGzip then getGzipData Z rd remainLen else getData rd remainLen)
              else ret (sq_data m, remainLen)) (\<lambda>(dat, remainLen).
         seq (throwIf (remainLen \<noteq> 0) TcpExcMsgTooLong) (\<lambda>_.
         ret (m\<lparr>sq_replyLevel := replyLevel, sq_hasData := hasData, sq_messageId := messageId,
                sq_type := typ, sq_payload := payload, sq_data := dat\<rparr>)))))))"

section \<open>SendResp\<close>

record SendResp =
  sr_header :: FixHeader
  sr_messageId :: u16
  sr_payload :: bytes

definition SendResp_new :: "junk \<Rightarrow> SendResp" where
  "SendResp_new j =
     \<lparr>sr_header = (FixHeader_new j)\<lparr>fh_msgType := kMsgSendResp\<rparr>, sr_messageId = junk_u16 j, sr_payload = []\<rparr>"

text \<open>As in the source, the buffer written is \<^verbatim>\<open>payloadBuf\<close>, not \<^verbatim>\<open>finalBuf\<close>.\<close>

definition SendResp_Encode :: "'z zlib \<Rightarrow> (bytes \<Rightarrow> ('s, unit) io) \<Rightarrow> SendResp \<Rightarrow> ('s, SendResp) io" where
  "SendResp_Encode Z wr m =
     (let buf = setUint16 (sr_messageId m) []
      in seq (if kEnableGzip then setGzipString Z (sr_payload m) [] else ret (setString (sr_payload m) [])) (\<lambda>payloadBuf.
         seq (WriteHeader (sr_header m) [] (Some buf) (int32 (length payloadBuf)) 0) (\<lambda>(h, finalBuf).
         seq (wr payloadBuf) (\<lambda>_. ret (m\<lparr>sr_header := h\<rparr>)))))"

definition SendResp_Decode :: "'z zlib \<Rightarrow> (nat \<Rightarrow> ('s, bytes) io) \<Rightarrow> SendResp \<Rightarrow> ('s, SendResp) io" where
  "SendResp_Decode Z rd m =
     seq (getUint16 rd (fh_remainLen (sr_header m))) (\<lambda>(messageId, remainLen).
     seq (if kEnableGzip then getGzipString Z rd remainLen else getString rd remainLen) (\<lambda>(payload, remainLen).
     seq (throwIf (remainLen \<noteq> 0) TcpExcMsgTooLong) (\<lambda>_.
     ret (m\<lparr>sr_messageId := messageId, sr_payload := payload\<rparr>))))"

section \<open>MessageManager\<close>

text \<open>A \<^verbatim>\<open>MessageBase *\<close>: one constructor per class.\<close>

datatype message =
    MConnect Connect
  | MConnAck ConnAck
  | MPingReq PingReq
  | MPingResp PingResp
  | MDisconnect DisconnectMsg
  | MSendReq SendReq
  | MSendResp SendResp

fun msg_header :: "message \<Rightarrow> FixHeader" where
  "msg_header (MConnect m) = cn_header m"
| "msg_header (MConnAck m) = ca_header m"
| "msg_header (MPingReq m) = pq_header m"
| "msg_header (MPingResp m) = pr_header m"
| "msg_header (MDisconnect m) = dc_header m"
| "msg_header (MSendReq m) = sq_header m"
| "msg_header (MSendResp m) = sr_header m"

definition GetMsgType :: "message \<Rightarrow> MessageType" where
  "GetMsgType m = fh_msgType (msg_header m)"

fun SetHeader :: "FixHeader \<Rightarrow> message \<Rightarrow> message" where
  "SetHeader h (MConnect m) = MConnect (m\<lparr>cn_header := h\<rparr>)"
| "SetHeader h (MConnAck m) = MConnAck (m\<lparr>ca_header := h\<rparr>)"
| "SetHeader h (MPingReq m) = MPingReq (m\<lparr>pq_header := h\<rparr>)"
| "SetHeader h (MPingResp m) = MPingResp (m\<lparr>pr_header := h\<rparr>)"
| "SetHeader h (MDisconnect m) = MDisconnect (m\<lparr>dc_header := h\<rparr>)"
| "SetHeader h (MSendReq m) = MSendReq (m\<lparr>sq_header := h\<rparr>)"
| "SetHeader h (MSendResp m) = MSendResp (m\<lparr>sr_header := h\<rparr>)"

text \<open>The virtual \<^verbatim>\<open>Decode\<close> and \<^verbatim>\<open>Encode\<close>.\<close>

fun Message_Decode :: "'z zlib \<Rightarrow> (nat \<Rightarrow> ('s, bytes) io) \<Rightarrow> message \<Rightarrow> ('s, message) io" where
  "Message_Decode Z rd (MConnect m) = seq (Connect_Decode Z rd m) (\<lambda>m'. ret (MConnect m'))"
| "Message_Decode Z rd (MConnAck m) = seq (ConnAck_Decode rd m) (\<lambda>m'. ret (MConnAck m'))"
| "Message_Decode Z rd (MPingReq m) = seq (PingReq_Decode m) (\<lambda>m'. ret (MPingReq m'))"
| "Message_Decode Z rd (MPingResp m) = seq (PingResp_Decode m) (\<lambda>m'. ret (MPingResp m'))"
| "Message_Decode Z rd (MDisconnect m) = seq (Disconnect_Decode rd m) (\<lambda>m'. ret (MDisconnect m'))"
| "Message_Decode Z rd (MSendReq m) = seq (SendReq_Decode Z rd m) (\<lambda>m'. ret (MSendReq m'))"
| "Message_Decode Z rd (MSendResp m) = seq (SendResp_Decode Z rd m) (\<lambda>m'. ret (MSendResp m'))"

fun EncodeMessage :: "'z zlib \<Rightarrow> (bytes \<Rightarrow> ('s, unit) io) \<Rightarrow> message \<Rightarrow> ('s, message) io" where
  "EncodeMessage Z wr (MConnect m) = seq (Connect_Encode Z wr m) (\<lambda>m'. ret (MConnect m'))"
| "EncodeMessage Z wr (MConnAck m) = seq (ConnAck_Encode wr m) (\<lambda>m'. ret (MConnAck m'))"
| "EncodeMessage Z wr (MPingReq m) = seq (PingReq_Encode wr m) (\<lambda>m'. ret (MPingReq m'))"
| "EncodeMessage Z wr (MPingResp m) = seq (PingResp_Encode wr m) (\<lambda>m'. ret (MPingResp m'))"
| "EncodeMessage Z wr (MDisconnect m) = seq (Disconnect_Encode wr m) (\<lambda>m'. ret (MDisconnect m'))"
| "EncodeMessage Z wr (MSendReq m) = seq (SendReq_Encode Z wr m) (\<lambda>m'. ret (MSendReq m'))"
| "EncodeMessage Z wr (MSendResp m) = seq (SendResp_Encode Z wr m) (\<lambda>m'. ret (MSendResp m'))"

text \<open>
  The switch of \<^verbatim>\<open>DecodeMessage\<close>; \<open>None\<close> is the null pointer its default branch leaves.
\<close>

fun newMessage :: "junk \<Rightarrow> MessageType \<Rightarrow> message option" where
  "newMessage j kMsgConnect = Some (MConnect (Connect_new j))"
| "newMessage j kMsgConnAck = Some (MConnAck (ConnAck_new j))"
| "newMessage j kMsgDisconnect = Some (MDisconnect (Disconnect_new j))"
| "newMessage j kMsgPingReq = Some (MPingReq (PingReq_new j))"
| "newMessage j kMsgPingResp = Some (MPingResp (PingResp_new j))"
| "newMessage j kMsgSendReq = Some (MSendReq (SendReq_new j))"
| "newMessage j kMsgSendResp = Some (MSendResp (SendResp_new j))"
| "newMessage j _ = None"

definition DecodeMessage :: "'z zlib \<Rightarrow> junk \<Rightarrow> (nat \<Rightarrow> ('s, bytes) io) \<Rightarrow> ('s, message) io" where
  "DecodeMessage Z j rd =
     seq (FixHeader_Decode rd (FixHeader_new j)) (\<lambda>header.
       case newMessage j (fh_msgType header) of
         None \<Rightarrow> fail Undefined
       | Some message \<Rightarrow> Message_Decode Z rd (SetHeader header message))"

end
