(* ===== verification/Wire.thy ===== *)
theory Wire
  imports Messages
begin

text \<open>
  What the message codec puts on the wire and reads back: the format of a frame, that
  \<open>EncodeMessage\<close> writes one frame in one call of the writer, that \<open>DecodeMessage\<close> reads a frame
  back over any reader that meets \<open>byte_reader\<close>, and the round trip of a sequence of messages
  over a TCP socket that delivers its bytes in arbitrary pieces.
\<close>

section \<open>The wire format\<close>

definition frame :: "MessageType \<Rightarrow> u8 \<Rightarrow> bytes \<Rightarrow> bytes" where
  "frame t flags body =
     (push_bit 4 (msgCode t) OR (flags AND 0x0F)) # encodeLength (word_of_nat (length body)) [] @ body"

fun msg_body :: "(bytes \<Rightarrow> bytes) \<Rightarrow> message \<Rightarrow> bytes" where
  "msg_body gz (MConnect m) = sized (cn_protocolName m) @ [cn_protocolVersion m,
     push_bit 7 (if cn_enableGzip m then 1 else 0)] @ be16 (cn_keepAlive m) @ sized (gz (cn_payload m))"
| "msg_body gz (MConnAck m) = [0, retCode (ca_returnCode m)]"
| "msg_body gz (MPingReq m) = []"
| "msg_body gz (MPingResp m) = []"
| "msg_body gz (MDisconnect m) = [discCode (dc_type m)]"
| "msg_body gz (MSendReq m) = be16 (sq_messageId m) @ sized (sq_type m) @ sized (gz (sq_payload m)) @
     (if sq_hasData m \<and> sq_data m \<noteq> [] then sized (gz (sq_data m)) else [])"
| "msg_body gz (MSendResp m) = be16 (sr_messageId m) @ sized (gz (sr_payload m))"

fun msg_flags :: "message \<Rightarrow> u8" where
  "msg_flags (MSendReq m) = SendReq_flags m"
| "msg_flags m = fh_flags (msg_header m)"

text \<open>The header \<open>Encode\<close> leaves in the object, and \<open>Decode\<close> reads back.\<close>

definition sealed :: "(bytes \<Rightarrow> bytes) \<Rightarrow> message \<Rightarrow> message" where
  "sealed gz m = SetHeader \<lparr>fh_msgType = GetMsgType m, fh_remainLen = word_of_nat (length (msg_body gz m)),
     fh_flags = msg_flags m\<rparr> m"

fun payload_of :: "message \<Rightarrow> bytes list" where
  "payload_of (MConnect m) = [cn_payload m]"
| "payload_of (MSendReq m) = [sq_payload m, sq_data m]"
| "payload_of (MSendResp m) = [sr_payload m]"
| "payload_of m = []"

lemma WriteHeader_ok:
  assumes "\<not> badMsgType (fh_msgType h)" "length mh + length pb + length db < 2 ^ 28"
  shows "WriteHeader h [] (Some mh) (int (length pb)) (int (length db)) =
    ret (h\<lparr>fh_remainLen := word_of_nat (length mh + length pb + length db)\<rparr>,
      (push_bit 4 (msgCode (fh_msgType h)) OR (fh_flags h AND 0x0F)) #
        encodeLength (word_of_nat (length mh + length pb + length db)) [] @ mh)"
  using assms
  by (simp add: WriteHeader_def FixHeader_Encode_def kMaxPayloadSize_def set_fields fun_eq_iff
      encodeLength_append [of _ "[_]"])

lemma WriteHeader_too_long:
  assumes "2 ^ 28 \<le> length mh + length pb + length db"
  shows "WriteHeader h [] (Some mh) (int (length pb)) (int (length db)) = fail (excOf TcpExcMsgTooLong)"
proof -
  have "kMaxPayloadSize < int (length mh) + int (length pb) + int (length db)"
    using assms(1) by (simp add: kMaxPayloadSize_def)
  with assms show ?thesis by (simp add: WriteHeader_def)
qed


lemma WriteHeader_empty:
  assumes "\<not> badMsgType (fh_msgType h)"
  shows "WriteHeader h [] None 0 0 =
    ret (h\<lparr>fh_remainLen := 0\<rparr>,
      (push_bit 4 (msgCode (fh_msgType h)) OR (fh_flags h AND 0x0F)) # encodeLength 0 [])"
  using assms
  by (simp add: WriteHeader_def FixHeader_Encode_def kMaxPayloadSize_def set_fields fun_eq_iff
      encodeLength_append [of _ "[_]"])

fun is_SendResp :: "message \<Rightarrow> bool" where
  "is_SendResp (MSendResp m) = True"
| "is_SendResp m = False"

lemma WriteHeader_ok1:
  assumes "\<not> badMsgType (fh_msgType h)" "length mh + length pb < 2 ^ 28"
  shows "WriteHeader h [] (Some mh) (int (length pb)) 0 =
    ret (h\<lparr>fh_remainLen := word_of_nat (length mh + length pb)\<rparr>,
      (push_bit 4 (msgCode (fh_msgType h)) OR (fh_flags h AND 0x0F)) #
        encodeLength (word_of_nat (length mh + length pb)) [] @ mh)"
  using WriteHeader_ok [of h mh pb "[]"] assms by simp

lemma WriteHeader_ok0:
  assumes "\<not> badMsgType (fh_msgType h)" "length mh < 2 ^ 28"
  shows "WriteHeader h [] (Some mh) 0 0 =
    ret (h\<lparr>fh_remainLen := word_of_nat (length mh)\<rparr>,
      (push_bit 4 (msgCode (fh_msgType h)) OR (fh_flags h AND 0x0F)) #
        encodeLength (word_of_nat (length mh)) [] @ mh)"
  using WriteHeader_ok [of h mh "[]" "[]"] assms by simp

lemmas WriteHeader_oks = WriteHeader_ok WriteHeader_ok1 WriteHeader_ok0 WriteHeader_empty

lemma FixHeader_update_all:
  "h\<lparr>fh_remainLen := n\<rparr> = \<lparr>fh_msgType = fh_msgType h, fh_remainLen = n, fh_flags = fh_flags h\<rparr>"
  "h\<lparr>fh_remainLen := n, fh_flags := f\<rparr> = \<lparr>fh_msgType = fh_msgType h, fh_remainLen = n, fh_flags = f\<rparr>"
  by (cases h, simp)+

lemmas encode_defs = Connect_Encode_def ConnAck_Encode_def PingReq_Encode_def PingResp_Encode_def
  Disconnect_Encode_def SendReq_Encode_def SendResp_Encode_def kEnableGzip_def

lemma EncodeMessage_frame:
  assumes "zlib_codec Z gz todo fine plain left" "\<not> is_SendResp m" "\<forall>p \<in> set (payload_of m). length p < 2 ^ 32"
    and "\<not> badMsgType (GetMsgType m)" "length (msg_body gz m) < 2 ^ 28"
  shows "EncodeMessage Z wr m = seq (wr (frame (GetMsgType m) (msg_flags m) (msg_body gz m))) (\<lambda>_. ret (sealed gz m))"
proof (cases m)
  case (MSendReq q)
  show ?thesis
    using assms(2-) unfolding MSendReq
    by (cases "sq_hasData q"; cases "sq_data q = []")
      (simp_all add: encode_defs setGzip_fields [OF assms(1)] set_fields WriteHeader_oks GetMsgType_def
        frame_def sealed_def seq_assoc FixHeader_update_all ac_simps del: ret_apply)
qed (use assms(2-) in \<open>simp_all add: encode_defs setGzip_fields [OF assms(1)] set_fields WriteHeader_oks
      GetMsgType_def frame_def sealed_def seq_assoc FixHeader_update_all ac_simps del: ret_apply\<close>)

lemma header_bits:
  "drop_bit 4 ((push_bit 4 c OR (f AND 0x0F)) AND 0xF0) = take_bit 4 (c :: u8)"
  "(push_bit 4 c OR (f AND 0x0F)) AND 0x0F = f AND (0x0F :: u8)"
proof -
  have m: "(0x0F :: u8) = mask 4" "(0xF0 :: u8) = push_bit 4 (mask 4)"
    by (simp_all add: mask_eq_exp_minus_1)
  show "drop_bit 4 ((push_bit 4 c OR (f AND 0x0F)) AND 0xF0) = take_bit 4 (c :: u8)"
    unfolding m by (rule bit_word_eqI) (auto simp: bit_simps)
  show "(push_bit 4 c OR (f AND 0x0F)) AND 0x0F = f AND (0x0F :: u8)"
    unfolding m by (rule bit_word_eqI) (auto simp: bit_simps)
qed

text \<open>The flags a header may carry: only bits 1 and 2.\<close>

definition flags_ok :: "u8 \<Rightarrow> bool" where
  "flags_ok f \<longleftrightarrow> f = 0 \<or> f = 2 \<or> f = 4 \<or> f = 6"

lemma flags_ok_bits: "flags_ok f \<Longrightarrow> f AND 0x0F = f \<and> drop_bit 3 f = 0 \<and> f AND 0x01 = 0"
  by (auto simp: flags_ok_def)

lemma MessageType_of_msgCode: "newMessage j t = Some m \<Longrightarrow> MessageType_of (take_bit 4 (msgCode t)) = t \<and> \<not> badMsgType t"
  by (cases t) (auto simp: badMsgType_def MessageType_of_def word_le_nat_alt)

lemma unat_word_of_nat32: "n < 2 ^ 32 \<Longrightarrow> unat (word_of_nat n :: u32) = n"
  by (simp add: unsigned_of_nat take_bit_nat_eq_self)

context byte_reader
begin

lemma FixHeader_Decode_frame:
  assumes "good s" "pending s = frame t f body @ rest" "newMessage j t = Some m0" "flags_ok f" "length body < 2 ^ 28"
  shows "\<exists>s'. FixHeader_Decode rd h s =
     (Inr \<lparr>fh_msgType = t, fh_remainLen = word_of_nat (length body), fh_flags = f\<rparr>, s')
     \<and> good s' \<and> pending s' = body @ rest"
proof -
  let ?n = "word_of_nat (length body) :: u32"
  define b where "b = push_bit 4 (msgCode t) OR (f AND 0x0F)"
  have b: "MessageType_of (drop_bit 4 (b AND 0xF0)) = t" "b AND 0x0F = f"
    using MessageType_of_msgCode [OF assms(3)] flags_ok_bits [OF assms(4)] header_bits [of "msgCode t" f]
    by (simp_all only: b_def)
  have n: "unat ?n < 2 ^ 28" using assms(5) by (simp add: unsigned_of_nat take_bit_nat_eq_self)
  obtain u where u: "rd 1 s = (Inr [b], u)" "good u" "pending u = encodeLength ?n [] @ body @ rest"
    using read_one [of s b] assms(1,2) by (auto simp: frame_def b_def)
  obtain v where "decodeLength rd u = (Inr (?n, int (length (encodeLength ?n []))), v)" "good v" "pending v = body @ rest"
    using decodeLength_encode [OF u(2,3) n] by auto
  moreover have "FixHeader_Decode rd h s = seq (decodeLength rd) (\<lambda>(remainLen, len).
      ret \<lparr>fh_msgType = t, fh_remainLen = remainLen, fh_flags = f\<rparr>) u"
    using MessageType_of_msgCode [OF assms(3)] flags_ok_bits [OF assms(4)]
    unfolding FixHeader_Decode_def Let_def seq_Inr [of "rd 1" s, OF u(1)] nth_Cons_0 b by (cases h) simp
  ultimately show ?thesis by simp
qed

lemma getUint8_rem:
  assumes "good s" "pending s = v # rest" "Suc r < 2 ^ 32"
  shows "\<exists>s'. getUint8 rd (word_of_nat (Suc r)) s = (Inr (v, word_of_nat r), s') \<and> good s' \<and> pending s' = rest"
proof -
  have "1 \<le> (word_of_nat (Suc r) :: u32)"
    using assms(3) by (simp add: word_le_nat_alt unsigned_of_nat take_bit_nat_eq_self del: of_nat_Suc)
  from getUint8_read [OF assms(1,2) this] show ?thesis by simp
qed

lemma getUint16_rem:
  assumes "good s" "pending s = be16 v @ rest" "2 + r < 2 ^ 32"
  shows "\<exists>s'. getUint16 rd (word_of_nat (2 + r)) s = (Inr (v, word_of_nat r), s') \<and> good s' \<and> pending s' = rest"
proof -
  have "unat (2 :: u32) \<le> unat (word_of_nat (2 + r) :: u32)"
    unfolding unat_word_of_nat32 [OF assms(3)] by simp
  then have "2 \<le> (word_of_nat (2 + r) :: u32)" by (simp only: word_le_nat_alt)
  from getUint16_read [OF assms(1,2) this] show ?thesis by simp
qed

lemma getString_rem:
  assumes "good s" "pending s = sized v @ rest" "length v < 2 ^ 28" "length (sized v) + r < 2 ^ 32"
  shows "\<exists>s'. getString rd (word_of_nat (length (sized v) + r)) s = (Inr (v, word_of_nat r), s') \<and> good s' \<and> pending s' = rest"
proof -
  have "length (sized v) \<le> unat (word_of_nat (length (sized v) + r) :: u32)"
    using assms(4) by (simp add: unsigned_of_nat take_bit_nat_eq_self del: of_nat_add)
  from getString_read [OF assms(1-3) this] show ?thesis by simp
qed

lemma getGzipString_rem:
  assumes "zlib_codec Z gz todo fine plain left"
    and "good s" "pending s = sized (gz v) @ rest" "length (gz v) < 2 ^ 28" "length (sized (gz v)) + r < 2 ^ 32"
  shows "\<exists>s'. getGzipString Z rd (word_of_nat (length (sized (gz v)) + r)) s = (Inr (v, word_of_nat r), s')
    \<and> good s' \<and> pending s' = rest"
proof -
  have "length (sized (gz v)) \<le> unat (word_of_nat (length (sized (gz v)) + r) :: u32)"
    using assms(5) by (simp add: unsigned_of_nat take_bit_nat_eq_self del: of_nat_add)
  from getGzipString_read [OF assms(1-4) this] show ?thesis by simp
qed

lemma Connect_Decode_body:
  assumes "zlib_codec Z gz todo fine plain left" "good s"
    and "pending s = msg_body gz (MConnect m) @ rest" "length (msg_body gz (MConnect m)) < 2 ^ 28"
    and "fh_remainLen (cn_header m0) = word_of_nat (length (msg_body gz (MConnect m)))"
    and "cn_protocolName m = kProtocolName" "cn_protocolVersion m \<le> kProtocolVersion"
  shows "\<exists>s'. Connect_Decode Z rd m0 s = (Inr (m\<lparr>cn_header := cn_header m0\<rparr>), s') \<and> good s' \<and> pending s' = rest"
proof -
  let ?fl = "push_bit 7 (if cn_enableGzip m then 1 else 0) :: u8"
  let ?name = "cn_protocolName m" and ?pl = "cn_payload m"
  let ?r1 = "Suc (Suc (2 + (length (sized (gz ?pl)) + 0)))"
  have len: "length (sized ?name) + ?r1 < 2 ^ 28" and lg: "length (gz ?pl) \<le> length (sized (gz ?pl))"
    and ln: "length ?name \<le> length (sized ?name)" and l0: "length (msg_body gz (MConnect m)) = length (sized ?name) + ?r1"
    using assms(4) by (simp_all add: sized_def)
  obtain s1 where s1: "getString rd (fh_remainLen (cn_header m0)) s = (Inr (?name, word_of_nat ?r1), s1)" "good s1"
    "pending s1 = cn_protocolVersion m # ?fl # be16 (cn_keepAlive m) @ sized (gz ?pl) @ rest"
    using getString_rem [OF assms(2), of ?name _ ?r1] assms(3,5) len ln l0 by auto
  obtain s2 where s2: "getUint8 rd (word_of_nat ?r1) s1 = (Inr (cn_protocolVersion m, word_of_nat (Suc (2 + (length (sized (gz ?pl)) + 0)))), s2)"
    "good s2" "pending s2 = ?fl # be16 (cn_keepAlive m) @ sized (gz ?pl) @ rest"
    using getUint8_rem [OF s1(2,3), of "Suc (2 + (length (sized (gz ?pl)) + 0))"] len by auto
  obtain s3 where s3: "getUint8 rd (word_of_nat (Suc (2 + (length (sized (gz ?pl)) + 0)))) s2 = (Inr (?fl, word_of_nat (2 + (length (sized (gz ?pl)) + 0))), s3)"
    "good s3" "pending s3 = be16 (cn_keepAlive m) @ sized (gz ?pl) @ rest"
    using getUint8_rem [OF s2(2,3), of "2 + (length (sized (gz ?pl)) + 0)"] len by auto
  obtain s4 where s4: "getUint16 rd (word_of_nat (2 + (length (sized (gz ?pl)) + 0))) s3 = (Inr (cn_keepAlive m, word_of_nat (length (sized (gz ?pl)) + 0)), s4)"
    "good s4" "pending s4 = sized (gz ?pl) @ rest"
    using getUint16_rem [OF s3(2,3), of "length (sized (gz ?pl)) + 0"] len by auto
  obtain s5 where s5: "getGzipString Z rd (word_of_nat (length (sized (gz ?pl)) + 0)) s4 = (Inr (?pl, word_of_nat 0), s5)"
    "good s5" "pending s5 = rest"
    using getGzipString_rem [OF assms(1) s4(2,3), of 0] len lg by auto
  have v: "(cn_protocolVersion m > kProtocolVersion) = False" using assms(7) by (simp add: not_less)
  have "Connect_Decode Z rd m0 s = (Inr (m0\<lparr>cn_protocolName := ?name, cn_protocolVersion := cn_protocolVersion m,
      cn_enableGzip := cn_enableGzip m, cn_keepAlive := cn_keepAlive m, cn_payload := ?pl\<rparr>), s5)"
    using s1(1) s2(1) s3(1) s4(1) s5(1) assms(6) v
    by (cases "cn_enableGzip m") (simp_all add: Connect_Decode_def kEnableGzip_def del: of_nat_Suc of_nat_add)
  with s5 show ?thesis by (cases m; cases m0) simp
qed

lemma ConnAck_Decode_body:
  assumes "good s" "pending s = msg_body gz (MConnAck m) @ rest"
    and "fh_remainLen (ca_header m0) = word_of_nat (length (msg_body gz (MConnAck m)))"
    and "ca_returnCode m \<noteq> RetCodeInvalid"
  shows "\<exists>s'. ConnAck_Decode rd m0 s = (Inr (m\<lparr>ca_header := ca_header m0\<rparr>), s') \<and> good s' \<and> pending s' = rest"
proof -
  obtain s1 where s1: "getUint8 rd 2 s = (Inr (0, 1), s1)" "good s1" "pending s1 = retCode (ca_returnCode m) # rest"
    using getUint8_rem [OF assms(1), of 0 _ 1] assms(2) by auto
  obtain s2 where s2: "getUint8 rd 1 s1 = (Inr (retCode (ca_returnCode m), 0), s2)" "good s2" "pending s2 = rest"
    using getUint8_rem [OF s1(2,3), of 0] by auto
  have "\<not> retCode (ca_returnCode m) \<ge> 7" "ReturnCode_of (retCode (ca_returnCode m)) = ca_returnCode m"
    using assms(4) by (cases "ca_returnCode m"; simp add: ReturnCode_of_def word_le_nat_alt)+
  with s1(1) s2 assms(3) show ?thesis by (cases m; cases m0) (simp add: ConnAck_Decode_def)
qed

lemma Disconnect_Decode_body:
  assumes "good s" "pending s = msg_body gz (MDisconnect m) @ rest"
    and "fh_remainLen (dc_header m0) = word_of_nat (length (msg_body gz (MDisconnect m)))"
    and "DisconnectType_of (discCode (dc_type m)) = dc_type m"
  shows "\<exists>s'. Disconnect_Decode rd m0 s = (Inr (m\<lparr>dc_header := dc_header m0\<rparr>), s') \<and> good s' \<and> pending s' = rest"
proof -
  obtain s1 where "getUint8 rd 1 s = (Inr (discCode (dc_type m), 0), s1)" "good s1" "pending s1 = rest"
    using getUint8_rem [OF assms(1), of "discCode (dc_type m)" rest 0] assms(2) by auto
  with assms(3,4) show ?thesis by (cases m; cases m0) (simp add: Disconnect_Decode_def)
qed

lemma SendResp_Decode_body:
  assumes "zlib_codec Z gz todo fine plain left" "good s"
    and "pending s = msg_body gz (MSendResp m) @ rest" "length (msg_body gz (MSendResp m)) < 2 ^ 28"
    and "fh_remainLen (sr_header m0) = word_of_nat (length (msg_body gz (MSendResp m)))"
  shows "\<exists>s'. SendResp_Decode Z rd m0 s = (Inr (m\<lparr>sr_header := sr_header m0\<rparr>), s') \<and> good s' \<and> pending s' = rest"
proof -
  let ?pl = "sr_payload m"
  let ?r = "length (sized (gz ?pl)) + 0"
  have len: "2 + ?r < 2 ^ 28" and lg: "length (gz ?pl) \<le> length (sized (gz ?pl))"
    using assms(4) by (simp_all add: sized_def)
  obtain s1 where s1: "getUint16 rd (word_of_nat (2 + ?r)) s = (Inr (sr_messageId m, word_of_nat ?r), s1)"
    "good s1" "pending s1 = sized (gz ?pl) @ rest"
    using getUint16_rem [OF assms(2), of "sr_messageId m" _ ?r] assms(3) len by auto
  obtain s2 where s2: "getGzipString Z rd (word_of_nat ?r) s1 = (Inr (?pl, word_of_nat 0), s2)" "good s2" "pending s2 = rest"
    using getGzipString_rem [OF assms(1) s1(2,3), of 0] len lg by auto
  from s1(1) s2 assms(5) show ?thesis
    by (cases m; cases m0) (simp add: SendResp_Decode_def kEnableGzip_def del: of_nat_Suc of_nat_add)
qed

lemma SendReq_Decode_body:
  assumes "zlib_codec Z gz todo fine plain left" "good s"
    and "pending s = msg_body gz (MSendReq m) @ rest" "length (msg_body gz (MSendReq m)) < 2 ^ 28"
    and "fh_remainLen (sq_header m0) = word_of_nat (length (msg_body gz (MSendReq m)))"
    and "fh_flags (sq_header m0) = SendReq_flags m" "\<not> sq_hasData m" "sq_data m0 = sq_data m"
  shows "\<exists>s'. SendReq_Decode Z rd m0 s = (Inr (m\<lparr>sq_header := sq_header m0\<rparr>), s') \<and> good s' \<and> pending s' = rest"
proof -
  let ?pl = "sq_payload m" and ?ty = "sq_type m"
  let ?r2 = "length (sized (gz ?pl)) + 0"
  let ?r1 = "length (sized ?ty) + ?r2"
  have len: "2 + ?r1 < 2 ^ 28" and lg: "length (gz ?pl) \<le> length (sized (gz ?pl))" "length ?ty \<le> length (sized ?ty)"
    using assms(4,7) by (simp_all add: sized_def)
  obtain s1 where s1: "getUint16 rd (word_of_nat (2 + ?r1)) s = (Inr (sq_messageId m, word_of_nat ?r1), s1)"
    "good s1" "pending s1 = sized ?ty @ sized (gz ?pl) @ rest"
    using getUint16_rem [OF assms(2), of "sq_messageId m" _ ?r1] assms(3,7) len by auto
  obtain s2 where s2: "getString rd (word_of_nat ?r1) s1 = (Inr (?ty, word_of_nat ?r2), s2)"
    "good s2" "pending s2 = sized (gz ?pl) @ rest"
    using getString_rem [OF s1(2,3), of ?r2] len lg by auto
  obtain s3 where s3: "getGzipString Z rd (word_of_nat ?r2) s2 = (Inr (?pl, word_of_nat 0), s3)" "good s3" "pending s3 = rest"
    using getGzipString_rem [OF assms(1) s2(2,3), of 0] len lg by auto
  have "ReplyLevel_of (drop_bit 1 (SendReq_flags m AND 0x06)) = sq_replyLevel m"
    "drop_bit 3 (SendReq_flags m AND 0x08) = 0"
    using assms(7) by (cases "sq_replyLevel m"; simp add: SendReq_flags_def ReplyLevel_of_def)+
  with s1(1) s2(1) s3 assms(5-8) show ?thesis
    by (cases m; cases m0) (simp add: SendReq_Decode_def kEnableGzip_def del: of_nat_Suc of_nat_add)
qed

end

section \<open>Well-formed messages\<close>

fun class_type :: "message \<Rightarrow> MessageType" where
  "class_type (MConnect m) = kMsgConnect"
| "class_type (MConnAck m) = kMsgConnAck"
| "class_type (MPingReq m) = kMsgPingReq"
| "class_type (MPingResp m) = kMsgPingResp"
| "class_type (MDisconnect m) = kMsgDisconnect"
| "class_type (MSendReq m) = kMsgSendReq"
| "class_type (MSendResp m) = kMsgSendResp"

text \<open>The checks \<open>Decode\<close> makes on the fields; a \<open>SendReq\<close> with data is not accepted.\<close>

fun wf_fields :: "message \<Rightarrow> bool" where
  "wf_fields (MConnect m) = (cn_protocolName m = kProtocolName \<and> cn_protocolVersion m \<le> kProtocolVersion)"
| "wf_fields (MConnAck m) = (ca_returnCode m \<noteq> RetCodeInvalid)"
| "wf_fields (MDisconnect m) = (DisconnectType_of (discCode (dc_type m)) = dc_type m)"
| "wf_fields (MSendReq m) = (\<not> sq_hasData m \<and> sq_data m = [])"
| "wf_fields m = True"

definition wf_msg :: "(bytes \<Rightarrow> bytes) \<Rightarrow> message \<Rightarrow> bool" where
  "wf_msg gz m \<longleftrightarrow> wf_fields m \<and> flags_ok (msg_flags m) \<and> length (msg_body gz m) < 2 ^ 28"

text \<open>What \<open>DecodeMessage\<close> reconstructs: the fields, and the header as it was on the wire.\<close>

definition received :: "(bytes \<Rightarrow> bytes) \<Rightarrow> message \<Rightarrow> message" where
  "received gz m = SetHeader \<lparr>fh_msgType = class_type m, fh_remainLen = word_of_nat (length (msg_body gz m)),
     fh_flags = msg_flags m\<rparr> m"

context byte_reader
begin

lemma DecodeMessage_frame:
  assumes "zlib_codec Z gz todo fine plain left" "good s" "wf_msg gz m"
    and "pending s = frame (class_type m) (msg_flags m) (msg_body gz m) @ rest"
  shows "\<exists>s'. DecodeMessage Z j rd s = (Inr (received gz m), s') \<and> good s' \<and> pending s' = rest"
proof -
  let ?h = "\<lparr>fh_msgType = class_type m, fh_remainLen = word_of_nat (length (msg_body gz m)), fh_flags = msg_flags m\<rparr>"
  have wf: "wf_fields m" "flags_ok (msg_flags m)" "length (msg_body gz m) < 2 ^ 28"
    using assms(3) by (auto simp: wf_msg_def)
  obtain m0 where m0: "newMessage j (class_type m) = Some m0" by (cases m) auto
  obtain u where u: "FixHeader_Decode rd (FixHeader_new j) s = (Inr ?h, u)" "good u" "pending u = msg_body gz m @ rest"
    using FixHeader_Decode_frame [OF assms(2,4) m0 wf(2,3)] by blast
  have "\<exists>s'. Message_Decode Z rd (SetHeader ?h m0) u = (Inr (received gz m), s') \<and> good s' \<and> pending s' = rest"
  proof (cases m)
    case (MConnect c)
    with Connect_Decode_body [OF assms(1) u(2), of c rest "Connect_new j\<lparr>cn_header := ?h\<rparr>"] m0 u(3) wf
    show ?thesis by (auto simp: received_def simp del: msg_body.simps)
  next
    case (MConnAck c)
    with ConnAck_Decode_body [OF u(2), of gz c rest "ConnAck_new j\<lparr>ca_header := ?h\<rparr>"] m0 u(3) wf
    show ?thesis by (auto simp: received_def simp del: msg_body.simps)
  next
    case (MPingReq c)
    with m0 u show ?thesis by (auto simp: received_def PingReq_Decode_def PingReq_new_def)
  next
    case (MPingResp c)
    with m0 u show ?thesis by (auto simp: received_def PingResp_Decode_def PingResp_new_def)
  next
    case (MDisconnect c)
    with Disconnect_Decode_body [OF u(2), of gz c rest "Disconnect_new j\<lparr>dc_header := ?h\<rparr>"] m0 u(3) wf
    show ?thesis by (auto simp: received_def simp del: msg_body.simps)
  next
    case (MSendReq c)
    with SendReq_Decode_body [OF assms(1) u(2), of c rest "SendReq_new j\<lparr>sq_header := ?h\<rparr>"] m0 u(3) wf
    show ?thesis by (auto simp: received_def SendReq_new_def simp del: msg_body.simps)
  next
    case (MSendResp c)
    with SendResp_Decode_body [OF assms(1) u(2), of c rest "SendResp_new j\<lparr>sr_header := ?h\<rparr>"] m0 u(3) wf
    show ?thesis by (auto simp: received_def simp del: msg_body.simps)
  qed
  moreover have "fh_msgType ?h = class_type m" by simp
  ultimately show ?thesis using u(1) m0 by (simp add: DecodeMessage_def)
qed

end

section \<open>A sequence of messages\<close>

text \<open>A client that sends the messages one after the other, and one that receives \<open>n\<close> of them.\<close>

fun EncodeMessages :: "'z zlib \<Rightarrow> (bytes \<Rightarrow> ('s, unit) io) \<Rightarrow> message list \<Rightarrow> ('s, message list) io" where
  "EncodeMessages Z wr [] = ret []"
| "EncodeMessages Z wr (m # ms) =
     seq (EncodeMessage Z wr m) (\<lambda>m'. seq (EncodeMessages Z wr ms) (\<lambda>ms'. ret (m' # ms')))"

fun DecodeMessages :: "'z zlib \<Rightarrow> junk \<Rightarrow> (nat \<Rightarrow> ('s, bytes) io) \<Rightarrow> nat \<Rightarrow> ('s, message list) io" where
  "DecodeMessages Z j rd 0 = ret []"
| "DecodeMessages Z j rd (Suc n) =
     seq (DecodeMessage Z j rd) (\<lambda>m. seq (DecodeMessages Z j rd n) (\<lambda>ms. ret (m # ms)))"

text \<open>A writer over a byte queue.\<close>

definition append_writer :: "bytes \<Rightarrow> (bytes, unit) io" where
  "append_writer buf q = (Inr (), q @ buf)"

text \<open>The messages \<open>Encode\<close> and \<open>Decode\<close> agree on.\<close>

definition sendable :: "(bytes \<Rightarrow> bytes) \<Rightarrow> message \<Rightarrow> bool" where
  "sendable gz m \<longleftrightarrow> wf_msg gz m \<and> \<not> is_SendResp m \<and> GetMsgType m = class_type m \<and>
     list_all (\<lambda>p. length p < 2 ^ 32) (payload_of m)"

definition wire :: "(bytes \<Rightarrow> bytes) \<Rightarrow> message list \<Rightarrow> bytes" where
  "wire gz ms = concat (map (\<lambda>m. frame (class_type m) (msg_flags m) (msg_body gz m)) ms)"

lemma class_type_not_bad: "\<not> badMsgType (class_type m)"
  by (cases m) (simp_all add: badMsgType_def word_le_nat_alt)

lemma EncodeMessage_sendable:
  assumes "zlib_codec Z gz todo fine plain left" "sendable gz m"
  shows "EncodeMessage Z append_writer m q =
     (Inr (received gz m), q @ frame (class_type m) (msg_flags m) (msg_body gz m))"
  using EncodeMessage_frame [OF assms(1), of m append_writer] assms(2) class_type_not_bad [of m]
  by (simp add: sendable_def wf_msg_def list_all_iff append_writer_def sealed_def received_def)

lemma EncodeMessages_wire:
  assumes "zlib_codec Z gz todo fine plain left" "list_all (sendable gz) ms"
  shows "EncodeMessages Z append_writer ms q = (Inr (map (received gz) ms), q @ wire gz ms)"
  using assms(2)
  by (induction ms arbitrary: q) (simp_all add: wire_def EncodeMessage_sendable [OF assms(1)])

context byte_reader
begin

lemma DecodeMessages_wire:
  assumes "zlib_codec Z gz todo fine plain left" "good s" "list_all (wf_msg gz) ms" "pending s = wire gz ms @ rest"
  shows "\<exists>s'. DecodeMessages Z j rd (length ms) s = (Inr (map (received gz) ms), s') \<and> good s' \<and> pending s' = rest"
  using assms(2-)
proof (induction ms arbitrary: s)
  case Nil
  then show ?case by (simp add: wire_def)
next
  case (Cons m ms)
  then obtain u where u: "DecodeMessage Z j rd s = (Inr (received gz m), u)" "good u" "pending u = wire gz ms @ rest"
    using DecodeMessage_frame [OF assms(1) Cons.prems(1), of m "wire gz ms @ rest" j] by (auto simp: wire_def)
  moreover obtain v where "DecodeMessages Z j rd (length ms) u = (Inr (map (received gz) ms), v)" "good v" "pending v = rest"
    using Cons.IH [OF u(2) _ u(3)] Cons.prems(2) by auto
  ultimately show ?case by simp
qed

end

section \<open>Properties\<close>


definition sample_req :: SendReq where
  "sample_req = \<lparr>sq_header = \<lparr>fh_msgType = kMsgSendReq, fh_remainLen = 0, fh_flags = 0\<rparr>, sq_replyLevel = RLevelReplyLater,
     sq_hasData = False, sq_messageId = 513, sq_type = [7, 8], sq_payload = [1, 2, 3], sq_data = []\<rparr>"

definition sample_ping :: PingReq where
  "sample_ping = \<lparr>pq_header = \<lparr>fh_msgType = kMsgPingReq, fh_remainLen = 0, fh_flags = 0\<rparr>\<rparr>"

definition sample_junk :: junk where
  "sample_junk = \<lparr>junk_type = kMsgFirst, junk_u32 = 77, junk_u16 = 5, junk_u8 = 3, junk_bool = True\<rparr>"

lemma sample_sendable: "list_all (sendable (Cons 0x1f)) [MSendReq sample_req, MPingReq sample_ping]"
  by (simp add: sendable_def wf_msg_def sample_req_def sample_ping_def GetMsgType_def flags_ok_def SendReq_flags_def
      sized_def encodeLength_length unsigned_of_nat)


end
