(* ===== verification/WireSafety.thy ===== *)
theory WireSafety
  imports Wire
begin

text \<open>
  What \<open>DecodeMessage\<close> guarantees on arbitrary input: a message that is accepted used up exactly the
  bytes its header announced, although \<^verbatim>\<open>packetRemaining\<close> may wrap around on the way; which inputs
  run into undefined behaviour; and what \<open>EncodeMessage\<close> does with messages it cannot send.
\<close>

section \<open>A decoded message is exactly its announced bytes\<close>

context byte_reader
begin

lemma Connect_Decode_takes:
  assumes "good s" "Connect_Decode Z rd m s = (Inr m', s')"
  shows "\<exists>k. takes pending good k s s' \<and> k < 2 ^ 30 \<and> fh_remainLen (cn_header m) = word_of_nat k \<and> cn_header m' = cn_header m"
proof -
  from assms(2) obtain n r1 s1 v r2 s2 f r3 s3 ka r4 s4 p r5 s5 where
    g: "getString rd (fh_remainLen (cn_header m)) s = (Inr (n, r1), s1)" "getUint8 rd r1 s1 = (Inr (v, r2), s2)"
      "getUint8 rd r2 s2 = (Inr (f, r3), s3)" "getUint16 rd r3 s3 = (Inr (ka, r4), s4)"
      "getGzipString Z rd r4 s4 = (Inr (p, r5), s5)" and e: "r5 = 0" "s' = s5" "cn_header m' = cn_header m"
    unfolding Connect_Decode_def kEnableGzip_def by (auto simp: throwIf_Inr)
  obtain k1 where k1: "takes pending good k1 s s1" "k1 < 2 ^ 28 + 4" "r1 = fh_remainLen (cn_header m) - word_of_nat k1"
    using getString_takes [OF assms(1) g(1)] by blast
  have k2: "takes pending good 1 s1 s2" "r2 = r1 - of_nat 1" using getUint8_takes [OF takes_ok [OF k1(1)] g(2)] by blast+
  have k3: "takes pending good 1 s2 s3" "r3 = r2 - of_nat 1" using getUint8_takes [OF takes_ok [OF k2(1)] g(3)] by blast+
  have k4: "takes pending good 2 s3 s4" "r4 = r3 - of_nat 2" using getUint16_takes [OF takes_ok [OF k3(1)] g(4)] by blast+
  obtain k5 where k5: "takes pending good k5 s4 s5" "k5 < 2 ^ 28 + 4" "r5 = r4 - word_of_nat k5"
    using getGzipString_takes [OF takes_ok [OF k4(1)] g(5)] by blast
  have "takes pending good (k1 + (1 + (1 + (2 + k5)))) s s5"
    by (intro takes_trans [OF k1(1)] takes_trans [OF k2(1)] takes_trans [OF k3(1)] takes_trans [OF k4(1)] k5(1))
  moreover have "fh_remainLen (cn_header m) = word_of_nat (k1 + (1 + (1 + (2 + k5)))) + r5"
    unfolding k5(3) k4(2) k3(2) k2(2) k1(3) by simp
  ultimately show ?thesis using k1(2) k5(2) e by (intro exI conjI) auto
qed

lemma ConnAck_Decode_takes:
  assumes "good s" "ConnAck_Decode rd m s = (Inr m', s')"
  shows "takes pending good 2 s s' \<and> fh_remainLen (ca_header m) = word_of_nat 2 \<and> ca_header m' = ca_header m"
proof -
  from assms(2) obtain f r1 s1 c r2 where
    g: "getUint8 rd (fh_remainLen (ca_header m)) s = (Inr (f, r1), s1)" "getUint8 rd r1 s1 = (Inr (c, r2), s')"
    and e: "r2 = 0" "ca_header m' = ca_header m"
    unfolding ConnAck_Decode_def by (auto simp: throwIf_Inr)
  have k1: "takes pending good 1 s s1" "r1 = fh_remainLen (ca_header m) - of_nat 1"
    using getUint8_takes [OF assms(1) g(1)] by blast+
  have k2: "takes pending good 1 s1 s'" "r2 = r1 - of_nat 1"
    using getUint8_takes [OF takes_ok [OF k1(1)] g(2)] by blast+
  from takes_trans [OF k1(1) k2(1)] k1(2) k2(2) e show ?thesis by (simp add: algebra_simps numeral_2_eq_2)
qed

lemma Disconnect_Decode_takes:
  assumes "good s" "Disconnect_Decode rd m s = (Inr m', s')"
  shows "takes pending good 1 s s' \<and> fh_remainLen (dc_header m) = word_of_nat 1 \<and> dc_header m' = dc_header m"
  using assms by (auto simp: Disconnect_Decode_def throwIf_Inr dest!: getUint8_takes)

lemma SendResp_Decode_takes:
  assumes "good s" "SendResp_Decode Z rd m s = (Inr m', s')"
  shows "\<exists>k. takes pending good k s s' \<and> k < 2 ^ 30 \<and> fh_remainLen (sr_header m) = word_of_nat k \<and> sr_header m' = sr_header m"
proof -
  from assms(2) obtain i r1 s1 p r2 where
    g: "getUint16 rd (fh_remainLen (sr_header m)) s = (Inr (i, r1), s1)" "getGzipString Z rd r1 s1 = (Inr (p, r2), s')"
    and e: "r2 = 0" "sr_header m' = sr_header m"
    unfolding SendResp_Decode_def kEnableGzip_def by (auto simp: throwIf_Inr)
  have k1: "takes pending good 2 s s1" "r1 = fh_remainLen (sr_header m) - of_nat 2"
    using getUint16_takes [OF assms(1) g(1)] by blast+
  obtain k2 where k2: "takes pending good k2 s1 s'" "k2 < 2 ^ 28 + 4" "r2 = r1 - word_of_nat k2"
    using getGzipString_takes [OF takes_ok [OF k1(1)] g(2)] by blast
  from takes_trans [OF k1(1) k2(1)] k1(2) k2(2,3) e show ?thesis
    by (intro exI [of _ "2 + k2"]) (simp add: algebra_simps)
qed

lemma SendReq_Decode_takes:
  assumes "good s" "SendReq_Decode Z rd m s = (Inr m', s')"
  shows "\<exists>k. takes pending good k s s' \<and> k < 2 ^ 30 \<and> fh_remainLen (sq_header m) = word_of_nat k \<and> sq_header m' = sq_header m"
proof -
  let ?has = "drop_bit 3 (fh_flags (sq_header m) AND 0x08) \<noteq> 0"
  from assms(2) obtain i r1 s1 t r2 s2 p r3 s3 d r4 where
    g: "getUint16 rd (fh_remainLen (sq_header m)) s = (Inr (i, r1), s1)" "getString rd r1 s1 = (Inr (t, r2), s2)"
      "getGzipString Z rd r2 s2 = (Inr (p, r3), s3)"
      "(if ?has then getGzipData Z rd r3 else ret (sq_data m, r3)) s3 = (Inr (d, r4), s')"
    and e: "r4 = 0" "sq_header m' = sq_header m"
    unfolding SendReq_Decode_def kEnableGzip_def Let_def if_True by (auto simp: throwIf_Inr)
  have k1: "takes pending good 2 s s1" "r1 = fh_remainLen (sq_header m) - of_nat 2"
    using getUint16_takes [OF assms(1) g(1)] by blast+
  obtain k2 where k2: "takes pending good k2 s1 s2" "k2 < 2 ^ 28 + 4" "r2 = r1 - word_of_nat k2"
    using getString_takes [OF takes_ok [OF k1(1)] g(2)] by blast
  obtain k3 where k3: "takes pending good k3 s2 s3" "k3 < 2 ^ 28 + 4" "r3 = r2 - word_of_nat k3"
    using getGzipString_takes [OF takes_ok [OF k2(1)] g(3)] by blast
  obtain k4 where k4: "takes pending good k4 s3 s'" "k4 < 2 ^ 28 + 4" "r4 = r3 - word_of_nat k4"
  proof (cases ?has)
    case True
    with getGzipData_takes [OF takes_ok [OF k3(1)], of Z r3 d r4 s'] g(4) that show ?thesis by auto
  next
    case False
    with g(4) that [of 0] takes_ok [OF k3(1)] show ?thesis by simp
  qed
  have "takes pending good (2 + (k2 + (k3 + k4))) s s'"
    by (intro takes_trans [OF k1(1)] takes_trans [OF k2(1)] takes_trans [OF k3(1)] k4(1))
  moreover have "fh_remainLen (sq_header m) = word_of_nat (2 + (k2 + (k3 + k4))) + r4"
    unfolding k4(3) k3(3) k2(3) k1(2) by simp
  ultimately show ?thesis using k2(2) k3(2) k4(2) e by (intro exI conjI) auto
qed

lemma Message_Decode_takes:
  assumes "good s" "Message_Decode Z rd m s = (Inr m', s')"
  shows "\<exists>k. takes pending good k s s' \<and> k < 2 ^ 30 \<and> fh_remainLen (msg_header m) = word_of_nat k \<and> msg_header m' = msg_header m"
proof (cases m)
  case (MConnect c)
  with assms(2) obtain c' where c': "Connect_Decode Z rd c s = (Inr c', s')" "m' = MConnect c'" by auto
  from Connect_Decode_takes [OF assms(1) c'(1)] MConnect c'(2) show ?thesis by auto
next
  case (MConnAck c)
  with ConnAck_Decode_takes [OF assms(1), of c] assms(2) show ?thesis by (intro exI [of _ 2]) auto
next
  case (MPingReq c)
  with assms show ?thesis by (intro exI [of _ 0]) (auto simp: PingReq_Decode_def throwIf_Inr)
next
  case (MPingResp c)
  with assms show ?thesis by (intro exI [of _ 0]) (auto simp: PingResp_Decode_def throwIf_Inr)
next
  case (MDisconnect c)
  with Disconnect_Decode_takes [OF assms(1), of c] assms(2) show ?thesis by (intro exI [of _ 1]) auto
next
  case (MSendReq c)
  with assms(2) obtain c' where c': "SendReq_Decode Z rd c s = (Inr c', s')" "m' = MSendReq c'" by auto
  from SendReq_Decode_takes [OF assms(1) c'(1)] MSendReq c'(2) show ?thesis by auto
next
  case (MSendResp c)
  with assms(2) obtain c' where c': "SendResp_Decode Z rd c s = (Inr c', s')" "m' = MSendResp c'" by auto
  from SendResp_Decode_takes [OF assms(1) c'(1)] MSendResp c'(2) show ?thesis by auto
qed

lemma FixHeader_Decode_takes:
  assumes "good s" "FixHeader_Decode rd h s = (Inr h', s')"
  shows "\<exists>k. takes pending good (Suc k) s s' \<and> 0 < k \<and> k \<le> 4 \<and> (unat (fh_remainLen h') < 2 ^ 28 \<or> fh_remainLen h' = - 1)
     \<and> \<not> badMsgType (fh_msgType h') \<and> drop_bit 3 (fh_flags h') = 0 \<and> fh_flags h' AND 1 = 0"
proof -
  from assms(2) obtain buf u n l where g: "rd 1 s = (Inr buf, u)" "decodeLength rd u = (Inr (n, l), s')"
    and h: "fh_remainLen h' = n" "\<not> badMsgType (fh_msgType h')" "drop_bit 3 (fh_flags h') = 0" "fh_flags h' AND 1 = 0"
    by (auto simp: FixHeader_Decode_def throwIf_Inr Let_def)
  have t: "takes pending good 1 s u" using read_takes [OF assms(1) g(1)] by blast
  obtain k where k: "takes pending good k u s'" "0 < k" "k \<le> 4" "unat n < 2 ^ 28 \<or> n = - 1"
    using decodeLength_takes [OF takes_ok [OF t] g(2)] by blast
  from takes_trans [OF t k(1)] k(2-4) h show ?thesis by (intro exI [of _ k]) simp
qed

end

lemma SetHeader_header [simp]: "msg_header (SetHeader h m) = h"
  by (cases m) auto

lemma newMessage_Some: "\<not> badMsgType t \<Longrightarrow> t = MessageType_of b \<Longrightarrow> \<exists>m. newMessage j t = Some m"
proof -
  assume t: "\<not> badMsgType t" "t = MessageType_of b"
  then have "b \<noteq> 0" "unat b < 8" by (auto simp: badMsgType_def MessageType_of_def word_le_nat_alt split: if_splits)
  then have "b = 1 \<or> b = 2 \<or> b = 3 \<or> b = 4 \<or> b = 5 \<or> b = 6 \<or> b = 7"
    by (simp add: word_unat_eq_iff) arith
  with t(2) show ?thesis by (auto simp: MessageType_of_def)
qed

context byte_reader
begin

text \<open>The default branch of the switch is never taken.\<close>

lemma FixHeader_Decode_class:
  assumes "FixHeader_Decode rd h s = (Inr h', s')"
  shows "\<exists>m. newMessage j (fh_msgType h') = Some m"
proof -
  from assms obtain b where "fh_msgType h' = MessageType_of b" "\<not> badMsgType (fh_msgType h')"
    by (auto simp: FixHeader_Decode_def throwIf_Inr Let_def)
  then show ?thesis using newMessage_Some by blast
qed

lemma DecodeMessage_takes:
  assumes "good s" "DecodeMessage Z j rd s = (Inr m, s')"
  shows "\<exists>k. takes pending good (Suc k + unat (fh_remainLen (msg_header m))) s s' \<and> 0 < k \<and> k \<le> 4
     \<and> unat (fh_remainLen (msg_header m)) < 2 ^ 28"
proof -
  from assms(2) obtain h u m0 where h: "FixHeader_Decode rd (FixHeader_new j) s = (Inr h, u)"
    and m: "Message_Decode Z rd (SetHeader h m0) u = (Inr m, s')"
    by (auto simp: DecodeMessage_def split: option.splits)
  obtain k where k: "takes pending good (Suc k) s u" "0 < k" "k \<le> 4" "unat (fh_remainLen h) < 2 ^ 28 \<or> fh_remainLen h = - 1"
    using FixHeader_Decode_takes [OF assms(1) h] by blast
  obtain n where n: "takes pending good n u s'" "n < 2 ^ 30" "fh_remainLen h = word_of_nat n" "msg_header m = h"
    using Message_Decode_takes [OF takes_ok [OF k(1)] m] by auto
  then have un: "unat (fh_remainLen h) = n" by (simp add: unsigned_of_nat take_bit_nat_eq_self)
  have "unat (- 1 :: u32) = 2 ^ 32 - 1" by (simp add: unsigned_minus_1_eq_mask mask_eq_exp_minus_1)
  with un n(2) have "fh_remainLen h \<noteq> - 1" by auto
  with takes_trans [OF k(1) n(1)] k n(4) un show ?thesis by (intro exI [of _ k]) simp
qed

end

section \<open>Where undefined behaviour is possible\<close>

definition defd :: "('s, 'a) io \<Rightarrow> 's \<Rightarrow> bool" where
  "defd m s \<longleftrightarrow> fst (m s) \<noteq> Inl Undefined"

lemma defd_seq:
  assumes "defd m s" "\<And>a s'. m s = (Inr a, s') \<Longrightarrow> defd (k a) s'"
  shows "defd (seq m k) s"
  using assms by (auto simp: defd_def seq_def split: prod.splits sum.splits)

lemma defd_ret [simp]: "defd (ret a) s"
  by (simp add: defd_def)

lemma defd_throwIf [simp]: "defd (throwIf c t) s"
  by (simp add: defd_def throwIf_def)

lemma defd_fail [simp]: "defd (fail f) s \<longleftrightarrow> f \<noteq> Undefined"
  by (simp add: defd_def)

lemma defd_gzipUncompress [simp]: "defd (gzipUncompress Z src out) s"
  by (auto simp: gzipUncompress_def split: prod.splits option.splits)

context defined_reader
begin

lemma defd_rd: "good s \<Longrightarrow> defd (rd n) s"
  using read_defined [of s n] by (cases "rd n s") (auto simp: defd_def)

lemma defd_decodeLength_from: "good s \<Longrightarrow> defd (decodeLength_from rd i v sh) s"
proof (induction "4 - i" arbitrary: i v sh s)
  case 0
  then show ?case by (simp add: defd_def decodeLength_from.simps)
next
  case (Suc x)
  have x: "x = 4 - Suc i" using Suc.hyps(2) by simp
  show ?case
    by (subst decodeLength_from.simps)
      (auto intro!: defd_seq defd_rd Suc.prems Suc.hyps(1) [OF x] simp: Let_def dest!: read_takes [OF Suc.prems] takes_ok)
qed

lemma defd_readSized: 
  assumes "good s" "rem \<noteq> - 2" 
  shows "defd (readSized rd rem) s"
  unfolding readSized_def
proof (rule defd_seq)
  show "defd (decodeLength rd) s" using assms(1) by (simp add: decodeLength_def defd_decodeLength_from)
next
  fix a s' assume a: "decodeLength rd s = (Inr a, s')"
  obtain w l where wl: "a = (w, l)" by force
  obtain k where k: "takes pending good k s s'" "l = int k \<and> unat w < 2 ^ 28 \<or> l = - 1 \<and> w = - 1"
    using decodeLength_takes [OF assms(1) a [unfolded wl]] by blast
  have "\<not> (rem - of_int l < w) \<Longrightarrow> \<not> sint w < 0"
  proof -
    assume "\<not> (rem - of_int l < w)"
    moreover have "rem + 1 \<noteq> - 1"
    proof
      assume "rem + 1 = - 1"
      then have "rem = - 1 - 1" by (simp only: eq_diff_eq)
      with assms(2) show False by simp
    qed
    ultimately have "\<not> (l = - 1 \<and> w = - 1)" by (auto simp: not_less word_order.extremum_unique)
    with k(2) show ?thesis using sint_nonneg_28 [of w] by auto
  qed
  then show "defd (case a of (strLen, lenLen) \<Rightarrow>
     let remaining = rem - of_int lenLen
     in seq (throwIf (remaining < strLen) TcpExcDataExceedsPacket) (\<lambda>_.
        if sint strLen < 0 then fail Undefined
        else seq (rd (unat strLen)) (\<lambda>buf. ret (buf, strLen, remaining - strLen)))) s'"
    using takes_ok [OF k(1)] by (auto simp: wl Let_def throwIf_Inr intro!: defd_seq defd_rd)
qed

lemma defd_getUint8: "good s \<Longrightarrow> defd (getUint8 rd rem) s"
  by (auto simp: getUint8_def throwIf_Inr intro!: defd_seq defd_rd)

lemma defd_getUint16: "good s \<Longrightarrow> defd (getUint16 rd rem) s"
  by (auto simp: getUint16_def throwIf_Inr intro!: defd_seq defd_rd)

lemma getUint16_room: "getUint16 rd rem s = (Inr (v, rem'), s') \<Longrightarrow> rem' \<noteq> - 2"
  by (auto simp: getUint16_def throwIf_Inr)

lemma defd_getString: "good s \<Longrightarrow> rem \<noteq> - 2 \<Longrightarrow> defd (getString rd rem) s"
  by (auto simp: getString_def intro!: defd_seq defd_readSized)

lemma defd_getGzipString: "good s \<Longrightarrow> rem \<noteq> - 2 \<Longrightarrow> defd (getGzipString Z rd rem) s"
  by (auto simp: getGzipString_def split: option.splits intro!: defd_seq defd_readSized)

lemma gets_good:
  "rd n s = (Inr bs, s') \<Longrightarrow> good s \<Longrightarrow> good s'"
  "getUint8 rd rem s = (Inr (b, r), s') \<Longrightarrow> good s \<Longrightarrow> good s'"
  "getUint16 rd rem s = (Inr (i, r), s') \<Longrightarrow> good s \<Longrightarrow> good s'"
  "getString rd rem s = (Inr (t, r), s') \<Longrightarrow> good s \<Longrightarrow> good s'"
  using read_takes [of s n bs s'] getUint8_takes [of s rem b r s'] getUint16_takes [of s rem i r s']
    getString_takes [of s rem t r s'] unfolding takes_def by simp_all

lemma defd_Connect_Decode:
  assumes "good s" "fh_remainLen (cn_header m) \<noteq> - 2"
  shows "defd (Connect_Decode Z rd m) s"
  unfolding Connect_Decode_def kEnableGzip_def if_True
  by (auto intro!: defd_seq defd_getString defd_getUint8 defd_getUint16 defd_getGzipString assms simp: throwIf_Inr
      dest: getUint16_room) (meson gets_good assms(1))+

lemma defd_SendResp_Decode: "good s \<Longrightarrow> defd (SendResp_Decode Z rd m) s"
  unfolding SendResp_Decode_def kEnableGzip_def if_True
  by (auto intro!: defd_seq defd_getUint16 defd_getGzipString simp: throwIf_Inr
      intro: gets_good dest: getUint16_room)

lemma defd_small_Decode:
  "good s \<Longrightarrow> defd (ConnAck_Decode rd a) s"
  "good s \<Longrightarrow> defd (Disconnect_Decode rd d) s"
  "defd (PingReq_Decode p) s"
  "defd (PingResp_Decode q) s"
  by (auto simp: ConnAck_Decode_def Disconnect_Decode_def PingReq_Decode_def PingResp_Decode_def throwIf_Inr
      intro!: defd_seq defd_getUint8 intro: gets_good)

lemma defd_FixHeader_Decode: "good s \<Longrightarrow> defd (FixHeader_Decode rd h) s"
  by (auto simp: FixHeader_Decode_def Let_def throwIf_Inr decodeLength_def
      intro!: defd_seq defd_rd defd_decodeLength_from intro: gets_good)

lemma defd_Message_Decode:
  assumes "good s" "fh_remainLen h \<noteq> - 2" "newMessage j t = Some m" "t \<noteq> kMsgSendReq"
  shows "defd (Message_Decode Z rd (SetHeader h m)) s"
  using assms(2-) by (cases t)
    (auto intro!: defd_seq defd_Connect_Decode defd_SendResp_Decode defd_small_Decode assms(1))

lemma FixHeader_Decode_type:
  assumes "good s" "FixHeader_Decode rd h s = (Inr h', s')" "pending s = b # rest"
  shows "fh_msgType h' = MessageType_of (drop_bit 4 (b AND 0xF0))"
proof -
  obtain u where "rd 1 s = (Inr [b], u)" using read_one [OF assms(1,3)] .
  with assms(2) show ?thesis by (auto simp: FixHeader_Decode_def Let_def throwIf_Inr)
qed

lemma defd_DecodeMessage:
  assumes "good s" "pending s = b # rest" "b AND 0xF0 \<noteq> 0x60"
  shows "defd (DecodeMessage Z j rd) s"
  unfolding DecodeMessage_def
proof (rule defd_seq)
  show "defd (FixHeader_Decode rd (FixHeader_new j)) s" by (rule defd_FixHeader_Decode [OF assms(1)])
next
  fix h s' assume h: "FixHeader_Decode rd (FixHeader_new j) s = (Inr h, s')"
  obtain k where k: "takes pending good (Suc k) s s'" "unat (fh_remainLen h) < 2 ^ 28 \<or> fh_remainLen h = - 1"
    using FixHeader_Decode_takes [OF assms(1) h] by blast
  have "unat (- 2 :: u32) = 2 ^ 32 - 2" using arg_cong [of "- 2 :: u32" 4294967294 unat] by simp
  with k(2) have rem: "fh_remainLen h \<noteq> - 2" by auto
  obtain m where m: "newMessage j (fh_msgType h) = Some m" using FixHeader_Decode_class [OF h] by blast
  have "drop_bit 4 (b AND 0xF0) \<noteq> (6 :: u8)"
  proof
    assume "drop_bit 4 (b AND 0xF0) = (6 :: u8)"
    then have "push_bit 4 (drop_bit 4 (b AND 0xF0)) = (0x60 :: u8)" by simp
    moreover have "push_bit 4 (drop_bit 4 (b AND 0xF0)) = b AND (0xF0 :: u8)"
    proof -
      have f0: "(0xF0 :: u8) = push_bit 4 (mask 4)" by (simp add: mask_eq_exp_minus_1)
      show ?thesis unfolding f0 by (rule bit_word_eqI) (auto simp: bit_simps)
    qed
    ultimately show False using assms(3) by simp
  qed
  then have "fh_msgType h \<noteq> kMsgSendReq"
    using FixHeader_Decode_type [OF assms(1) h assms(2)] by (auto simp: MessageType_of_def split: if_splits)
  from defd_Message_Decode [OF takes_ok [OF k(1)] rem m this] m
  show "defd (case newMessage j (fh_msgType h) of None \<Rightarrow> fail Undefined
       | Some message \<Rightarrow> Message_Decode Z rd (SetHeader h message)) s'" by simp
qed

end

section \<open>A frame that reaches it\<close>

context byte_reader
begin

lemma decodeLength_overlong_zero:
  assumes "good s" "pending s = 0x80 # 0 # rest"
  shows "\<exists>s'. decodeLength rd s = (Inr (0, 2), s') \<and> good s' \<and> pending s' = rest"
proof -
  obtain s1 where s1: "rd 1 s = (Inr [0x80], s1)" "good s1" "pending s1 = 0 # rest" using read_one [OF assms] .
  obtain s2 where s2: "rd 1 s1 = (Inr [0], s2)" "good s2" "pending s2 = rest" using read_one [OF s1(2,3)] .
  with s1 show ?thesis by (simp add: decodeLength_def decodeLength_from.simps)
qed

lemma decodeLength_malformed:
  assumes "good s" "pending s = 0xFF # 0xFF # 0xFF # 0xFF # rest"
  shows "\<exists>s'. decodeLength rd s = (Inr (- 1, - 1), s') \<and> good s' \<and> pending s' = rest"
proof -
  obtain s1 where s1: "rd 1 s = (Inr [0xFF], s1)" "good s1" "pending s1 = 0xFF # 0xFF # 0xFF # rest" using read_one [OF assms] .
  obtain s2 where s2: "rd 1 s1 = (Inr [0xFF], s2)" "good s2" "pending s2 = 0xFF # 0xFF # rest" using read_one [OF s1(2,3)] .
  obtain s3 where s3: "rd 1 s2 = (Inr [0xFF], s3)" "good s3" "pending s3 = 0xFF # rest" using read_one [OF s2(2,3)] .
  obtain s4 where s4: "rd 1 s3 = (Inr [0xFF], s4)" "good s4" "pending s4 = rest" using read_one [OF s3(2,3)] .
  from s1(1) s2(1) s3(1) s4 show ?thesis by (simp add: decodeLength_def decodeLength_from.simps)
qed

lemma SendReq_underflow:
  assumes "good s" "pending s = [0x60, 0x02, a, b, 0x80, 0x00, 0xFF, 0xFF, 0xFF, 0xFF] @ rest"
  shows "\<exists>s'. DecodeMessage Z j rd s = (Inl Undefined, s')"
proof -
  obtain s1 where s1: "rd 1 s = (Inr [0x60], s1)" "good s1"
    "pending s1 = 0x02 # [a, b, 0x80, 0x00, 0xFF, 0xFF, 0xFF, 0xFF] @ rest" using read_one [OF assms(1)] assms(2) by auto
  obtain s2 where s2: "rd 1 s1 = (Inr [2], s2)" "good s2" "pending s2 = [a, b] @ [0x80, 0x00, 0xFF, 0xFF, 0xFF, 0xFF] @ rest"
    using read_one [OF s1(2,3)] by auto
  obtain s3 where s3: "rd 2 s2 = (Inr [a, b], s3)" "good s3" "pending s3 = 0x80 # 0 # [0xFF, 0xFF, 0xFF, 0xFF] @ rest"
    using read_exact [OF s2(2,3), of 2] by auto
  obtain s4 where s4: "decodeLength rd s3 = (Inr (0, 2), s4)" "good s4" "pending s4 = [0xFF, 0xFF, 0xFF, 0xFF] @ rest"
    using decodeLength_overlong_zero [OF s3(2,3)] by auto
  obtain s5 where s5: "rd 0 s4 = (Inr [], s5)" "good s5" "pending s5 = 0xFF # 0xFF # 0xFF # 0xFF # rest"
    using read_exact [of s4 "[]" _ 0] s4(2,3) by auto
  obtain s6 where s6: "decodeLength rd s5 = (Inr (- 1, - 1), s6)"
    using decodeLength_malformed [OF s5(2,3)] by auto
  have dl: "decodeLength rd s1 = (Inr (2, 1), s2)"
    using s2(1) by (simp add: decodeLength_def decodeLength_from.simps)
  have ty: "MessageType_of (drop_bit 4 ((0x60 :: u8) AND 0xF0)) = kMsgSendReq" "\<not> badMsgType kMsgSendReq"
    by (simp_all add: MessageType_of_def badMsgType_def word_le_nat_alt)
  have h: "FixHeader_Decode rd (FixHeader_new j) s = (Inr \<lparr>fh_msgType = kMsgSendReq, fh_remainLen = 2, fh_flags = 0\<rparr>, s2)"
    using s1(1) dl ty by (simp add: FixHeader_Decode_def FixHeader_new_def)
  have i: "getUint16 rd 2 s2 = (Inr (push_bit 8 (ucast a) OR ucast b, 0), s3)" using s3(1) by (simp add: getUint16_def)
  have t: "getString rd 0 s3 = (Inr ([], - 2), s5)" using s4(1) s5(1) by (simp add: getString_def readSized_def)
  have "getGzipString Z rd (- 2) s5 = (Inl Undefined, s6)" using s6 by (simp add: getGzipString_def readSized_def)
  with h i t show ?thesis
    by (simp add: DecodeMessage_def SendReq_Decode_def kEnableGzip_def)
qed

end

section \<open>Properties\<close>

text \<open>
  C8: When \<open>DecodeMessage\<close> accepts a message from a socket, it has read a header of two to five bytes
  and then exactly the \<open>remainLen\<close> bytes the header announces, fewer than 2 to the 28; the connection
  stays in step, although the 32-bit \<^verbatim>\<open>packetRemaining\<close> can wrap around during the decoding.
\<close>

theorem DecodeMessage_exact:
  assumes "os_stream P so pend ok" "ok w"
    and "DecodeMessage Z j (TcpReader_ReadFull P \<lparr>tr_socket = Some so\<rparr>) w = (Inr m, w')"
  shows "\<exists>hd body. pend w = hd @ body @ pend w' \<and> 2 \<le> length hd \<and> length hd \<le> 5
     \<and> length body = unat (fh_remainLen (msg_header m)) \<and> length body < 2 ^ 28"
proof -
  let ?n = "unat (fh_remainLen (msg_header m))"
  obtain k bs where k: "0 < k" "k \<le> 4" "?n < 2 ^ 28" and bs: "length bs = Suc k + ?n" "pend w = bs @ pend w'"
    using tcp_rd.DecodeMessage_takes [of ok w P so pend Z j m w'] assms by (auto simp: takes_def)
  have "pend w = take (Suc k) bs @ drop (Suc k) bs @ pend w'" using bs(2) by (simp flip: append_assoc)
  with k bs(1) show ?thesis
    by (intro exI [of _ "take (Suc k) bs"] exI [of _ "drop (Suc k) bs"]) simp
qed

theorem DecodeMessage_exact_witness:
  "\<exists>hd body. [0x50, 0x01, 0x01, 0x40] = hd @ body @ [0x40 :: u8] \<and> 2 \<le> length hd \<and> length hd \<le> 5
     \<and> length body = unat (1 :: u32) \<and> length body < 2 ^ 28"
  using DecodeMessage_exact [of drip_posix "PlainSocket \<lparr>ts_socket = 3\<rparr>" "\<lambda>w. w" "\<lambda>w. True" "[0x50, 0x01, 0x01, 0x40]"
      stored_zlib sample_junk "MDisconnect \<lparr>dc_header = \<lparr>fh_msgType = kMsgDisconnect, fh_remainLen = 1, fh_flags = 0\<rparr>, dc_type = DiscTypeKickout\<rparr>" "[0x40]"]
    drip_recv_stream
  by (simp add: DecodeMessage_def FixHeader_Decode_def TcpReader_ReadFull_def ReadFull_loop.simps TcpSocket_Read_def drip_posix_def
      MessageType_of_def badMsgType_def word_le_nat_alt decodeLength_def decodeLength_from.simps FixHeader_new_def sample_junk_def
      Disconnect_Decode_def getUint8_def Disconnect_new_def DisconnectType_of_def)



text \<open>
  C32: A \<open>SendReq\<close> frame of ten bytes whose type length is the over-long code of zero drives
  \<^verbatim>\<open>packetRemaining\<close> below zero; the malformed payload length that follows passes the bounds check
  and declares an array of length -1, whatever else the peer sends.
\<close>

theorem SendReq_length_underflow:
  assumes "os_stream P so pend ok" "ok w"
    and "pend w = [0x60, 0x02, a, b, 0x80, 0x00, 0xFF, 0xFF, 0xFF, 0xFF] @ rest"
  shows "\<exists>w'. DecodeMessage Z j (TcpReader_ReadFull P \<lparr>tr_socket = Some so\<rparr>) w = (Inl Undefined, w')"
  using tcp_rd.SendReq_underflow [of ok w P so pend a b rest Z j] assms by simp

theorem SendReq_length_underflow_witness:
  "\<exists>w'. DecodeMessage stored_zlib sample_junk (TcpReader_ReadFull drip_posix \<lparr>tr_socket = Some (PlainSocket \<lparr>ts_socket = 3\<rparr>)\<rparr>)
     [0x60, 0x02, 0, 9, 0x80, 0x00, 0xFF, 0xFF, 0xFF, 0xFF] = (Inl Undefined, w')"
  using SendReq_length_underflow [of drip_posix "PlainSocket \<lparr>ts_socket = 3\<rparr>" "\<lambda>w. w" "\<lambda>w. True"
      "[0x60, 0x02, 0, 9, 0x80, 0x00, 0xFF, 0xFF, 0xFF, 0xFF]" 0 9 "[]" stored_zlib sample_junk] drip_recv_stream by simp

end
