(* ===== verification/WireErrors.thy ===== *)
theory WireErrors
  imports WireSafety
begin

text \<open>
  The length code on its own, the messages \<open>EncodeMessage\<close> refuses, and the frames on which the two
  directions of the codec disagree.
\<close>

section \<open>Lemmas\<close>

lemma WriteHeader_too_long1:
  "2 ^ 28 \<le> length mh + length pb \<Longrightarrow> WriteHeader h [] (Some mh) (int (length pb)) 0 = fail (excOf TcpExcMsgTooLong)"
  using WriteHeader_too_long [of mh pb "[]"] by simp

lemma wrote_nothing: "seq (fail f) k = fail f"
  by simp

lemma SendReq_data_flags: "sq_hasData m \<Longrightarrow> drop_bit 3 (SendReq_flags m AND 0x0F) = 1"
  by (cases "sq_replyLevel m") (simp_all add: SendReq_flags_def)

lemma minus_one_u32: "(0xFFFFFFFF :: u32) = - 1"
  by simp

context byte_reader
begin

lemma FixHeader_Decode_data_flag:
  assumes "good s" "pending s = (push_bit 4 (msgCode kMsgSendReq) OR (f AND 0x0F)) # rest" "drop_bit 3 (f AND 0x0F) \<noteq> 0"
  shows "\<exists>s'. FixHeader_Decode rd h s = (Inl (excOf TcpExcInvalidFlag), s') \<and> pending s' = rest"
proof -
  define b where "b = push_bit 4 (msgCode kMsgSendReq) OR (f AND 0x0F)"
  obtain s1 where s1: "rd 1 s = (Inr [b], s1)" "pending s1 = rest"
    using read_one [OF assms(1,2)] unfolding b_def by blast
  have b: "MessageType_of (drop_bit 4 (b AND 0xF0)) = kMsgSendReq" "b AND 0x0F = f AND 0x0F"
    using header_bits [of "msgCode kMsgSendReq" f] by (simp_all only: b_def) (simp add: MessageType_of_def)
  have "\<not> badMsgType kMsgSendReq" by (simp add: badMsgType_def word_le_nat_alt)
  then show ?thesis
    using assms(3) s1(2) unfolding FixHeader_Decode_def Let_def seq_Inr [of "rd 1" s, OF s1(1)] nth_Cons_0 b by simp
qed

lemma FixHeader_Decode_malformed:
  assumes "good s" "pending s = b # 0xFF # 0xFF # 0xFF # 0xFF # rest"
    and "MessageType_of (drop_bit 4 (b AND 0xF0)) = t" "\<not> badMsgType t" "flags_ok (b AND 0x0F)"
  shows "\<exists>s'. FixHeader_Decode rd h s =
     (Inr \<lparr>fh_msgType = t, fh_remainLen = - 1, fh_flags = b AND 0x0F\<rparr>, s') \<and> pending s' = rest"
proof -
  obtain s1 where s1: "rd 1 s = (Inr [b], s1)" "good s1" "pending s1 = 0xFF # 0xFF # 0xFF # 0xFF # rest"
    using read_one [OF assms(1,2)] .
  obtain s2 where s2: "decodeLength rd s1 = (Inr (- 1, - 1), s2)" "pending s2 = rest"
    using decodeLength_malformed [OF s1(2,3)] by blast
  have f: "drop_bit 3 (b AND 0x0F) = 0" "(b AND 0x0F) AND 0x01 = 0"
    using flags_ok_bits [OF assms(5)] by blast+
  show ?thesis
    using s2 assms(3,4) f unfolding FixHeader_Decode_def Let_def seq_Inr [of "rd 1" s, OF s1(1)] nth_Cons_0
    by (cases h) simp
qed

end

section \<open>Properties\<close>

text \<open>
  Every length below 2 to the 28 is encoded in one to four bytes, one per started group of seven
  bits, and \<open>decodeLength\<close> reads it back from a socket together with that number of bytes, leaving
  what follows unread.
\<close>

theorem length_code_roundtrip:
  assumes "os_stream P so pend ok" "ok w" "unat n < 2 ^ 28" "pend w = encodeLength n [] @ rest"
  shows "length (encodeLength n []) =
     (if unat n < 2 ^ 7 then 1 else if unat n < 2 ^ 14 then 2 else if unat n < 2 ^ 21 then 3 else 4) \<and>
     (\<exists>w'. decodeLength (TcpReader_ReadFull P \<lparr>tr_socket = Some so\<rparr>) w = (Inr (n, int (length (encodeLength n []))), w')
      \<and> pend w' = rest)"
  using tcp_rd.decodeLength_encode [of ok w P so pend n rest] assms encodeLength_length [of n] by auto

theorem length_code_roundtrip_witness:
  "length (encodeLength 300 []) =
     (if unat (300 :: u32) < 2 ^ 7 then 1 else if unat (300 :: u32) < 2 ^ 14 then 2 else if unat (300 :: u32) < 2 ^ 21 then 3 else 4) \<and>
   (\<exists>w'. decodeLength (TcpReader_ReadFull drip_posix \<lparr>tr_socket = Some (PlainSocket \<lparr>ts_socket = 3\<rparr>)\<rparr>) (encodeLength 300 [] @ [9])
      = (Inr (300, int (length (encodeLength 300 []))), w') \<and> w' = [9])"
  using length_code_roundtrip [of drip_posix "PlainSocket \<lparr>ts_socket = 3\<rparr>" "\<lambda>w. w" "\<lambda>w. True" "encodeLength 300 [] @ [9]" 300 "[9]"]
    drip_recv_stream by simp

text \<open>
  A message whose body has 2 to the 28 bytes or more is refused with \<open>TcpExcMsgTooLong\<close> and the
  writer is never called (for bodies below 2 to the 31, where the \<^verbatim>\<open>int32_t\<close> sizes are exact).
\<close>

theorem EncodeMessage_too_long:
  assumes "zlib_codec Z gz todo fine plain left" "list_all (\<lambda>p. length p < 2 ^ 32) (payload_of m)"
    and "2 ^ 28 \<le> length (msg_body gz m)" "length (msg_body gz m) < 2 ^ 31"
  shows "EncodeMessage Z wr m q = (Inl (excOf TcpExcMsgTooLong), q)"
proof (cases m)
  case (MConnect c)
  with assms(2-) show ?thesis
    by (simp add: encode_defs setGzip_fields [OF assms(1)] set_fields WriteHeader_too_long1 seq_assoc)
next
  case (MSendReq c)
  with assms(2-) show ?thesis
    by (cases "sq_hasData c"; cases "sq_data c = []")
      (simp_all add: encode_defs setGzip_fields [OF assms(1)] set_fields WriteHeader_too_long1 WriteHeader_too_long seq_assoc)
next
  case (MSendResp c)
  with assms(2-) show ?thesis
    by (simp add: encode_defs setGzip_fields [OF assms(1)] set_fields WriteHeader_too_long1 seq_assoc)
qed (use assms in simp_all)

theorem EncodeMessage_too_long_witness:
  "EncodeMessage stored_zlib append_writer (MSendReq (sample_req\<lparr>sq_payload := replicate (2 ^ 28) 0\<rparr>)) [] = (Inl (excOf TcpExcMsgTooLong), [])"
proof (rule EncodeMessage_too_long [OF stored_zlib_codec])
  let ?m = "MSendReq (sample_req\<lparr>sq_payload := replicate (2 ^ 28) 0\<rparr>)"
  show "list_all (\<lambda>p. length p < 2 ^ 32) (payload_of ?m)" by (simp add: sample_req_def)
  show "2 ^ 28 \<le> length (msg_body (Cons 0x1f) ?m)" "length (msg_body (Cons 0x1f) ?m) < 2 ^ 31"
    by (simp_all add: sample_req_def sized_def encodeLength_length)
qed

text \<open>
  \<open>SendResp::Encode\<close> hands the writer the payload field alone: the type byte, the length and the
  message id it has just assembled are not sent.
\<close>

theorem SendResp_Encode_unframed:
  assumes "zlib_codec Z gz todo fine plain left" "length (sr_payload m) < 2 ^ 32"
    and "length (msg_body gz (MSendResp m)) < 2 ^ 28" "\<not> badMsgType (fh_msgType (sr_header m))"
  shows "EncodeMessage Z append_writer (MSendResp m) q = (Inr (sealed gz (MSendResp m)), q @ sized (gz (sr_payload m)))"
  using assms(2-)
  by (simp add: encode_defs setGzip_fields [OF assms(1)] set_fields WriteHeader_oks append_writer_def GetMsgType_def
      sealed_def FixHeader_update_all seq_assoc)

theorem SendResp_Encode_unframed_witness:
  "EncodeMessage stored_zlib append_writer
     (MSendResp \<lparr>sr_header = \<lparr>fh_msgType = kMsgSendResp, fh_remainLen = 0, fh_flags = 0\<rparr>, sr_messageId = 5, sr_payload = [1, 2]\<rparr>) [] =
   (Inr (sealed (Cons 0x1f)
     (MSendResp \<lparr>sr_header = \<lparr>fh_msgType = kMsgSendResp, fh_remainLen = 0, fh_flags = 0\<rparr>, sr_messageId = 5, sr_payload = [1, 2]\<rparr>)),
    [] @ sized [0x1f, 1, 2])"
  using SendResp_Encode_unframed [OF stored_zlib_codec,
      of "\<lparr>sr_header = \<lparr>fh_msgType = kMsgSendResp, fh_remainLen = 0, fh_flags = 0\<rparr>, sr_messageId = 5, sr_payload = [1, 2]\<rparr>" "[]"]
  by (simp add: badMsgType_def word_le_nat_alt sized_def encodeLength_length)

text \<open>
  C33: A \<open>SendReq\<close> carrying data is encoded with flag bit 3, and \<open>DecodeMessage\<close> refuses every frame with
  that bit after its first byte: a peer running this code cannot receive data.
\<close>

theorem SendReq_data_rejected:
  assumes "zlib_codec Z gz todo fine plain left" "os_stream P so pend ok" "ok w"
    and "sq_hasData m" "fh_msgType (sq_header m) = kMsgSendReq" "list_all (\<lambda>p. length p < 2 ^ 32) (payload_of (MSendReq m))"
    and "length (msg_body gz (MSendReq m)) < 2 ^ 28"
    and "pend w = snd (EncodeMessage Z append_writer (MSendReq m) [])"
  shows "\<exists>w'. DecodeMessage Z j (TcpReader_ReadFull P \<lparr>tr_socket = Some so\<rparr>) w = (Inl (excOf TcpExcInvalidFlag), w')"
proof -
  let ?f = "SendReq_flags m"
  have "\<not> badMsgType kMsgSendReq" by (simp add: badMsgType_def word_le_nat_alt)
  with assms(5-8) have "pend w = frame kMsgSendReq ?f (msg_body gz (MSendReq m))"
    using EncodeMessage_frame [OF assms(1), of "MSendReq m" append_writer]
    by (simp add: GetMsgType_def append_writer_def list_all_iff)
  then obtain rest where "pend w = (push_bit 4 (msgCode kMsgSendReq) OR (?f AND 0x0F)) # rest" by (auto simp: frame_def)
  then obtain w' where "FixHeader_Decode (TcpReader_ReadFull P \<lparr>tr_socket = Some so\<rparr>) (FixHeader_new j) w =
      (Inl (excOf TcpExcInvalidFlag), w')"
    using tcp_rd.FixHeader_Decode_data_flag [of ok w P so pend ?f rest "FixHeader_new j"] assms(2,3) SendReq_data_flags [OF assms(4)]
    by auto
  then show ?thesis by (simp add: DecodeMessage_def)
qed

theorem SendReq_data_rejected_witness:
  "\<exists>w'. DecodeMessage stored_zlib sample_junk (TcpReader_ReadFull drip_posix \<lparr>tr_socket = Some (PlainSocket \<lparr>ts_socket = 3\<rparr>)\<rparr>)
     (snd (EncodeMessage stored_zlib append_writer (MSendReq (SendReq_SetData [5] sample_req)) [])) = (Inl (excOf TcpExcInvalidFlag), w')"
  by (rule SendReq_data_rejected [OF stored_zlib_codec, where pend = "\<lambda>w. w" and ok = "\<lambda>w. True"])
    (simp_all add: drip_recv_stream SendReq_SetData_def sample_req_def sized_def encodeLength_length)

text \<open>
  C34: A fixed header whose length code does not end within four bytes is accepted, with the remaining
  length 2 to the 32 minus 1; the exception declared for it is not thrown.
\<close>

theorem FixHeader_malformed_length_accepted:
  assumes "os_stream P so pend ok" "ok w" "pend w = b # 0xFF # 0xFF # 0xFF # 0xFF # rest"
    and "\<not> badMsgType (MessageType_of (drop_bit 4 (b AND 0xF0)))" "flags_ok (b AND 0x0F)"
  shows "\<exists>w'. FixHeader_Decode (TcpReader_ReadFull P \<lparr>tr_socket = Some so\<rparr>) h w =
     (Inr \<lparr>fh_msgType = MessageType_of (drop_bit 4 (b AND 0xF0)), fh_remainLen = 0xFFFFFFFF, fh_flags = b AND 0x0F\<rparr>, w')
     \<and> pend w' = rest"
  using tcp_rd.FixHeader_Decode_malformed [of ok w P so pend b rest _ h] assms
  by (simp add: minus_one_u32)

theorem FixHeader_malformed_length_accepted_witness:
  "\<exists>w'. FixHeader_Decode (TcpReader_ReadFull drip_posix \<lparr>tr_socket = Some (PlainSocket \<lparr>ts_socket = 3\<rparr>)\<rparr>) (FixHeader_new sample_junk)
     [0x40, 0xFF, 0xFF, 0xFF, 0xFF, 7] =
     (Inr \<lparr>fh_msgType = MessageType_of (drop_bit 4 (0x40 AND 0xF0)), fh_remainLen = 0xFFFFFFFF, fh_flags = 0x40 AND 0x0F\<rparr>, w')
     \<and> w' = [7]"
  by (rule FixHeader_malformed_length_accepted [where pend = "\<lambda>w. w" and ok = "\<lambda>w. True"])
    (simp_all add: drip_recv_stream flags_ok_def MessageType_of_def badMsgType_def word_le_nat_alt)

end
