(* ===== verification/StdMap.thy ===== *)
theory StdMap
  imports Prelude
begin

text \<open>
  \<^verbatim>\<open>std::map\<close> as the association list its iterator walks over: keys strictly ascending. The
  locale \<open>dictionary\<close> is the contract its users rely on.
\<close>

section \<open>Operations\<close>

type_synonym ('k, 'v) std_map = "('k \<times> 'v) list"

fun map_put :: "'k::linorder \<Rightarrow> 'v \<Rightarrow> ('k, 'v) std_map \<Rightarrow> ('k, 'v) std_map" where
  "map_put k v [] = [(k, v)]"
| "map_put k v ((k', v') # m) =
     (if k < k' then (k, v) # (k', v') # m
      else if k = k' then (k, v) # m
      else (k', v') # map_put k v m)"

definition map_erase :: "'k \<Rightarrow> ('k, 'v) std_map \<Rightarrow> ('k, 'v) std_map" where
  "map_erase k m = filter (\<lambda>(k', v). k' \<noteq> k) m"

definition map_ok :: "('k::linorder, 'v) std_map \<Rightarrow> bool" where
  "map_ok m \<longleftrightarrow> sorted_wrt (<) (map fst m)"

lemma map_ok_Nil [simp]: "map_ok []"
  by (simp add: map_ok_def)

lemma keys_map_put: "set (map fst (map_put k v m)) = insert k (set (map fst m))"
  by (induction m rule: map_put.induct) auto

lemma map_put_ok [simp]: "map_ok m \<Longrightarrow> map_ok (map_put k v m)"
proof (induction k v m rule: map_put.induct)
  case (2 k v k' v' m)
  have "x \<in> set (map fst (map_put k v m)) \<Longrightarrow> x = k \<or> x \<in> set (map fst m)" for x
    by (simp add: keys_map_put [unfolded set_map])
  with 2 show ?case by (force simp: map_ok_def)
qed (simp add: map_ok_def)

lemma map_erase_ok [simp]: "map_ok m \<Longrightarrow> map_ok (map_erase k m)"
  by (induction m) (auto simp: map_ok_def map_erase_def)

lemma map_of_put: "map_ok m \<Longrightarrow> map_of (map_put k v m) = (map_of m)(k \<mapsto> v)"
  by (induction k v m rule: map_put.induct) (auto simp: map_ok_def fun_eq_iff)

lemma map_of_erase: "map_of (map_erase k m) = (map_of m)(k := None)"
  by (induction m) (auto simp: map_erase_def fun_eq_iff)

lemma map_ok_distinct: "map_ok m \<Longrightarrow> distinct (map fst m)"
  unfolding map_ok_def by (rule strict_sorted_iff [THEN iffD1, THEN conjunct2])

section \<open>The contract\<close>

locale dictionary =
  fixes look :: "'m \<Rightarrow> 'k \<Rightarrow> 'v option"
    and put :: "'k \<Rightarrow> 'v \<Rightarrow> 'm \<Rightarrow> 'm"
    and erase :: "'k \<Rightarrow> 'm \<Rightarrow> 'm"
    and ok :: "'m \<Rightarrow> bool"
  assumes look_put: "ok m \<Longrightarrow> look (put k v m) k' = (if k' = k then Some v else look m k')"
    and look_erase: "ok m \<Longrightarrow> look (erase k m) k' = (if k' = k then None else look m k')"
    and ok_put: "ok m \<Longrightarrow> ok (put k v m)"
    and ok_erase: "ok m \<Longrightarrow> ok (erase k m)"
begin

text \<open>An entry that is looked up and erased can be taken once.\<close>

lemma take_once: "ok m \<Longrightarrow> look (erase k m) k = None"
  by (simp add: look_erase)

lemma put_kept: "ok m \<Longrightarrow> k \<noteq> k' \<Longrightarrow> look (put k v (erase k m)) k' = look m k'"
  by (simp add: look_put look_erase ok_erase)

lemma put_erase_other: "ok m \<Longrightarrow> k \<noteq> k' \<Longrightarrow> look (erase k' (put k v m)) k = Some v"
  by (simp add: look_put look_erase ok_put)

end

interpretation std_map: dictionary map_of "map_put :: 'k::linorder \<Rightarrow> 'v \<Rightarrow> _" map_erase map_ok
  by unfold_locales (auto simp: map_of_put map_of_erase)

end
