(* ===== verification/TimerQueue.thy ===== *)
theory TimerQueue
  imports StdMap TcpErrors "HOL-Library.Multiset"
begin

text \<open>
  \<^verbatim>\<open>common/message_queue\<close>: the timer queue every alarm of the client is posted to. The linked list
  is a list of messages; each operation that holds the mutex is one function. The thread that
  runs \<^verbatim>\<open>__RunLoop\<close> is a step relation over the points at which it does not hold the mutex, so that
  posts and cancellations of other threads (and of the callbacks it runs) interleave with it.
\<close>

section \<open>State\<close>

text \<open>Time points and durations are nanoseconds (\<^verbatim>\<open>system_clock\<close>).\<close>

record 'cb Message =
  msg_callback :: "'cb option"
  msg_messageId :: u32
  msg_when :: int

record 'cb MessageQueue =
  mq_firstMessage :: "'cb Message list"
  mq_currentMsgId :: u32
  mq_hasPost :: bool
  mq_canceledMessageIds :: "u32 set"

definition UINT32_MAX :: u32 where
  "UINT32_MAX = 0xFFFFFFFF"

text \<open>\<^verbatim>\<open>DURATION_TO_MS(d).count()\<close>: truncation towards zero.\<close>

definition DURATION_TO_MS :: "int \<Rightarrow> int" where
  "DURATION_TO_MS d = (if d < 0 then - ((- d) div 1000000) else d div 1000000)"

definition MessageQueue_new :: "'cb MessageQueue" where
  "MessageQueue_new =
     \<lparr>mq_firstMessage = [], mq_currentMsgId = 1, mq_hasPost = False, mq_canceledMessageIds = {}\<rparr>"

section \<open>Operations\<close>

text \<open>The search loop of \<^verbatim>\<open>PostMessage\<close>: the messages passed, and the list from \<^verbatim>\<open>currentMessage\<close> on.\<close>

fun post_seek :: "int \<Rightarrow> 'cb Message list \<Rightarrow> 'cb Message list \<times> 'cb Message list" where
  "post_seek t [] = ([], [])"
| "post_seek t (m # ms) =
     (if msg_when m < t then (case post_seek t ms of (before, current) \<Rightarrow> (m # before, current))
      else ([], m # ms))"

definition PostMessage :: "int \<Rightarrow> int \<Rightarrow> 'cb option \<Rightarrow> 'cb MessageQueue \<Rightarrow> u32 \<times> 'cb MessageQueue" where
  "PostMessage now afterSec callback q =
     (let timePoint = now + afterSec * 1000000000;
          messageId = mq_currentMsgId q;
          newMessage = \<lparr>msg_callback = callback, msg_messageId = messageId, msg_when = timePoint\<rparr>;
          next = mq_currentMsgId q + 1;
          currentMsgId = (if next = UINT32_MAX then 1 else next);
          (before, current) = post_seek timePoint (mq_firstMessage q);
          list = (if before = [] then newMessage # mq_firstMessage q
                  else if current = [] then before @ [newMessage]
                  else before @ newMessage # current)
      in (messageId, q\<lparr>mq_firstMessage := list, mq_currentMsgId := currentMsgId, mq_hasPost := True\<rparr>))"

text \<open>The search of \<^verbatim>\<open>CancelMessage\<close>; \<open>None\<close> when the id is not in the list.\<close>

fun cancel_seek :: "u32 \<Rightarrow> 'cb Message list \<Rightarrow> ('cb Message list \<times> 'cb Message list) option" where
  "cancel_seek i [] = None"
| "cancel_seek i (m # ms) =
     (if msg_messageId m = i then Some ([], ms)
      else case cancel_seek i ms of None \<Rightarrow> None | Some (before, after) \<Rightarrow> Some (m # before, after))"

definition CancelMessage :: "u32 \<Rightarrow> 'cb MessageQueue \<Rightarrow> bool \<times> 'cb MessageQueue" where
  "CancelMessage messageId q =
     (let q' = q\<lparr>mq_canceledMessageIds := insert messageId (mq_canceledMessageIds q)\<rparr>
      in case cancel_seek messageId (mq_firstMessage q) of
           None \<Rightarrow> (False, q')
         | Some (before, after) \<Rightarrow> (True, q'\<lparr>mq_firstMessage := before @ after\<rparr>))"

definition PrintMessageQueue :: "'cb MessageQueue \<Rightarrow> string" where
  "PrintMessageQueue q =
     ''MessageQueue:'' @ concat (map (\<lambda>m. to_string (uint (msg_messageId m)) @ '' '') (mq_firstMessage q))"

subsection \<open>The loop thread\<close>

text \<open>
  The inner loop of \<^verbatim>\<open>__RunLoop\<close>: due messages leave the list, their callbacks go to the map.
\<close>

fun collect_due :: "int \<Rightarrow> 'cb Message list \<Rightarrow> (u32, 'cb) std_map \<Rightarrow> 'cb Message list \<times> (u32, 'cb) std_map" where
  "collect_due now [] callbackMap = ([], callbackMap)"
| "collect_due now (m # ms) callbackMap =
     (if DURATION_TO_MS (now - msg_when m) \<ge> 0
      then collect_due now ms
             (case msg_callback m of None \<Rightarrow> callbackMap | Some cb \<Rightarrow> map_put (msg_messageId m) cb callbackMap)
      else (m # ms, callbackMap))"

text \<open>The first locked section; the result is the callback map and \<^verbatim>\<open>duration\<close> in milliseconds.\<close>

definition RunLoop_scan :: "int \<Rightarrow> 'cb MessageQueue \<Rightarrow> 'cb MessageQueue \<times> (u32, 'cb) std_map \<times> int" where
  "RunLoop_scan now q =
     (let (rest, callbackMap) = collect_due now (mq_firstMessage q) [];
          duration = (case rest of [] \<Rightarrow> 0 | m # ms \<Rightarrow> DURATION_TO_MS (msg_when m - now))
      in (q\<lparr>mq_firstMessage := rest, mq_canceledMessageIds := {}, mq_hasPost := False\<rparr>, callbackMap, duration))"

text \<open>
  Where the loop thread is while it does not hold the mutex: about to start an iteration; about
  to check the next callback of the map; past the check of one and about to call it;
  waiting on the condition variable, without or with a deadline.
\<close>

datatype 'cb loop_pc =
    AtTop
  | AtCheck "(u32, 'cb) std_map" int int
  | AtCall u32 'cb "(u32, 'cb) std_map" int int
  | Waiting "int option"

datatype 'cb loop_event =
    Scan int
  | Skip u32
  | Pass u32
  | Call u32 'cb
  | Again
  | Sleep
  | Wake
  | Post u32
  | Cancel u32

text \<open>\<^verbatim>\<open>notify_all\<close> wakes the thread if it waits.\<close>

fun notified :: "'cb loop_pc \<Rightarrow> 'cb loop_pc" where
  "notified (Waiting t) = AtTop"
| "notified pc = pc"

inductive loop_step :: "'cb MessageQueue \<times> 'cb loop_pc \<Rightarrow> 'cb loop_event \<Rightarrow> 'cb MessageQueue \<times> 'cb loop_pc \<Rightarrow> bool" where
  scan: "RunLoop_scan now q = (q', callbackMap, duration) \<Longrightarrow>
     loop_step (q, AtTop) (Scan now) (q', AtCheck callbackMap duration now)"
| skip: "i \<in> mq_canceledMessageIds q \<Longrightarrow>
     loop_step (q, AtCheck ((i, cb) # rest) d n) (Skip i) (q, AtCheck rest d n)"
| pass: "i \<notin> mq_canceledMessageIds q \<Longrightarrow>
     loop_step (q, AtCheck ((i, cb) # rest) d n) (Pass i) (q, AtCall i cb rest d n)"
| call: "loop_step (q, AtCall i cb rest d n) (Call i cb) (q, AtCheck rest d n)"
| again: "mq_hasPost q \<Longrightarrow>
     loop_step (q, AtCheck [] d n) Again (q\<lparr>mq_hasPost := False\<rparr>, AtTop)"
| sleep: "\<not> mq_hasPost q \<Longrightarrow>
     loop_step (q, AtCheck [] d n) Sleep (q, Waiting (if d = 0 then None else Some (n + d * 1000000)))"
| wake: "loop_step (q, Waiting t) Wake (q, AtTop)"
| post: "PostMessage now afterSec cb q = (i, q') \<Longrightarrow>
     loop_step (q, pc) (Post i) (q', notified pc)"
| cancel: "CancelMessage i q = (b, q') \<Longrightarrow>
     loop_step (q, pc) (Cancel i) (q', pc)"

inductive_cases loop_stepE: "loop_step s e s'"

inductive loop_run :: "'cb MessageQueue \<times> 'cb loop_pc \<Rightarrow> 'cb loop_event list \<Rightarrow> 'cb MessageQueue \<times> 'cb loop_pc \<Rightarrow> bool" where
  nil: "loop_run s [] s"
| more: "loop_step s e s' \<Longrightarrow> loop_run s' es s'' \<Longrightarrow> loop_run s (e # es) s''"

inductive_cases loop_run_ConsE: "loop_run s (e # es) s''"

section \<open>Lemmas on the operations\<close>

definition by_time :: "'cb Message list \<Rightarrow> bool" where
  "by_time ms \<longleftrightarrow> sorted (map msg_when ms)"

definition ids :: "'cb MessageQueue \<Rightarrow> u32 list" where
  "ids q = map msg_messageId (mq_firstMessage q)"

text \<open>
  The invariant of the queue: ordered by time; ids neither 0 (which an alarm uses for \<open>not posted\<close>)
  nor \<open>UINT32_MAX\<close>.
\<close>

definition valid_id :: "u32 \<Rightarrow> bool" where
  "valid_id i \<longleftrightarrow> i \<noteq> 0 \<and> i \<noteq> UINT32_MAX"

definition queue_ok :: "'cb MessageQueue \<Rightarrow> bool" where
  "queue_ok q \<longleftrightarrow> by_time (mq_firstMessage q) \<and> valid_id (mq_currentMsgId q) \<and> list_all valid_id (ids q)"

lemma post_seek_split:
  "post_seek t ms = (b, c) \<Longrightarrow> ms = b @ c \<and> (\<forall>m \<in> set b. msg_when m < t) \<and> (c \<noteq> [] \<longrightarrow> t \<le> msg_when (hd c))"
  by (induction ms arbitrary: b c) (auto split: if_splits prod.splits)

lemma PostMessage_list:
  assumes "PostMessage now sec cb q = (i, q')"
  obtains b c where "mq_firstMessage q = b @ c"
    "mq_firstMessage q' = b @ \<lparr>msg_callback = cb, msg_messageId = mq_currentMsgId q, msg_when = now + sec * 1000000000\<rparr> # c"
    "\<forall>m \<in> set b. msg_when m < now + sec * 1000000000" "c \<noteq> [] \<longrightarrow> now + sec * 1000000000 \<le> msg_when (hd c)"
proof -
  obtain b c where bc: "post_seek (now + sec * 1000000000) (mq_firstMessage q) = (b, c)" by force
  with assms post_seek_split [OF bc] that [of b c] show thesis
    by (cases b; cases c) (auto simp: PostMessage_def Let_def)
qed

lemma PostMessage_fields:
  "PostMessage now sec cb q = (i, q') \<Longrightarrow> i = mq_currentMsgId q \<and> mq_hasPost q' \<and>
     mq_canceledMessageIds q' = mq_canceledMessageIds q \<and>
     mq_currentMsgId q' = (if i + 1 = UINT32_MAX then 1 else i + 1)"
  by (auto simp: PostMessage_def Let_def split: prod.splits)

lemma by_time_insert:
  assumes "by_time (b @ c)" "\<forall>m \<in> set b. msg_when m < msg_when x" "c \<noteq> [] \<longrightarrow> msg_when x \<le> msg_when (hd c)"
  shows "by_time (b @ x # c)"
  using assms by (cases c) (fastforce simp: by_time_def sorted_append less_imp_le)+

lemma next_id_valid: "valid_id i \<Longrightarrow> valid_id (if i + 1 = UINT32_MAX then 1 else i + 1)"
proof -
  assume "valid_id i"
  then have "i + 1 \<noteq> 0" by (auto simp: valid_id_def UINT32_MAX_def eq_neg_iff_add_eq_0 [symmetric])
  then show ?thesis by (simp add: valid_id_def UINT32_MAX_def)
qed

lemma PostMessage_ok:
  assumes "queue_ok q" "PostMessage now sec cb q = (i, q')"
  shows "queue_ok q' \<and> valid_id i"
proof -
  obtain b c where bc: "mq_firstMessage q = b @ c"
    "mq_firstMessage q' = b @ \<lparr>msg_callback = cb, msg_messageId = mq_currentMsgId q, msg_when = now + sec * 1000000000\<rparr> # c"
    "\<forall>m \<in> set b. msg_when m < now + sec * 1000000000" "c \<noteq> [] \<longrightarrow> now + sec * 1000000000 \<le> msg_when (hd c)"
    using PostMessage_list [OF assms(2)] .
  have "by_time (mq_firstMessage q')"
    unfolding bc(2) by (rule by_time_insert) (use assms(1) bc(1,3,4) in \<open>auto simp: queue_ok_def\<close>)
  with assms(1) bc(1,2) PostMessage_fields [OF assms(2)] next_id_valid [of i] show ?thesis
    by (auto simp: queue_ok_def ids_def)
qed

lemma cancel_seek_split:
  "cancel_seek i ms = Some (b, a) \<Longrightarrow> \<exists>m. ms = b @ m # a \<and> msg_messageId m = i \<and> i \<notin> msg_messageId ` set b"
  "cancel_seek i ms = None \<longleftrightarrow> i \<notin> msg_messageId ` set ms"
  by (induction ms arbitrary: b a) (auto split: if_splits option.splits)

lemma CancelMessage_cases:
  assumes "CancelMessage i q = (found, q')"
  obtains (missing) "\<not> found" "i \<notin> set (ids q)" "mq_firstMessage q' = mq_firstMessage q"
  | (removed) b m a where "found" "mq_firstMessage q = b @ m # a" "msg_messageId m = i"
      "i \<notin> msg_messageId ` set b" "mq_firstMessage q' = b @ a"
proof (cases "cancel_seek i (mq_firstMessage q)")
  case None
  with assms cancel_seek_split(2) [of i "mq_firstMessage q"] show thesis
    by (intro missing) (auto simp: CancelMessage_def ids_def)
next
  case (Some ba)
  then obtain b a where ba: "cancel_seek i (mq_firstMessage q) = Some (b, a)" by (cases ba) auto
  from cancel_seek_split(1) [OF ba] obtain m where "mq_firstMessage q = b @ m # a" "msg_messageId m = i"
    "i \<notin> msg_messageId ` set b" by blast
  with assms ba show thesis by (intro removed) (auto simp: CancelMessage_def Let_def)
qed

lemma CancelMessage_fields:
  "CancelMessage i q = (found, q') \<Longrightarrow> mq_currentMsgId q' = mq_currentMsgId q \<and> mq_hasPost q' = mq_hasPost q \<and>
     mq_canceledMessageIds q' = insert i (mq_canceledMessageIds q) \<and> set (mq_firstMessage q') \<subseteq> set (mq_firstMessage q)"
  by (rule CancelMessage_cases [of i q found q'], assumption)
    (auto simp: CancelMessage_def Let_def split: option.splits prod.splits)

lemma CancelMessage_ok: "queue_ok q \<Longrightarrow> CancelMessage i q = (found, q') \<Longrightarrow> queue_ok q'"
  by (rule CancelMessage_cases [of i q found q'], assumption)
    (drule CancelMessage_fields, auto simp: queue_ok_def ids_def by_time_def sorted_append)+

lemma CancelMessage_gone:
  "distinct (ids q) \<Longrightarrow> CancelMessage i q = (found, q') \<Longrightarrow> i \<notin> set (ids q') \<and> distinct (ids q')"
  by (rule CancelMessage_cases [of i q found q'], assumption) (auto simp: ids_def)

section \<open>Lemmas on the loop\<close>

lemma due_iff: "DURATION_TO_MS d \<ge> 0 \<longleftrightarrow> - 1000000 < d"
  by (auto simp: DURATION_TO_MS_def)

lemma duration_le: "0 < d \<Longrightarrow> DURATION_TO_MS d * 1000000 \<le> d"
  by (simp add: DURATION_TO_MS_def)

lemma duration_pos: "1000000 \<le> d \<Longrightarrow> 0 < DURATION_TO_MS d"
  by (simp add: DURATION_TO_MS_def)

definition is_due :: "int \<Rightarrow> 'cb Message \<Rightarrow> bool" where
  "is_due now m \<longleftrightarrow> msg_when m < now + 1000000"

lemma collect_due_split:
  "collect_due now ms cm = (rest, cm') \<Longrightarrow> by_time ms \<Longrightarrow>
     rest = filter (\<lambda>m. \<not> is_due now m) ms \<and>
     cm' = fold (\<lambda>m. case msg_callback m of None \<Rightarrow> id | Some cb \<Rightarrow> map_put (msg_messageId m) cb) (filter (is_due now) ms) cm"
proof (induction now ms cm rule: collect_due.induct)
  case (2 now m ms cm)
  show ?case
  proof (cases "is_due now m")
    case True
    then have "DURATION_TO_MS (now - msg_when m) \<ge> 0" unfolding due_iff is_due_def by simp
    with 2 True show ?thesis by (cases "msg_callback m") (auto simp: by_time_def)
  next
    case False
    then have "\<not> DURATION_TO_MS (now - msg_when m) \<ge> 0" unfolding due_iff is_due_def by simp
    moreover have "\<forall>x \<in> set ms. \<not> is_due now x" using 2(3) False by (force simp: by_time_def is_due_def)
    ultimately show ?thesis using 2(2) False by (auto simp: filter_id_conv filter_empty_conv)
  qed
qed simp

lemma collect_due_keys:
  "collect_due now ms cm = (rest, cm') \<Longrightarrow> fst ` set cm' \<subseteq> fst ` set cm \<union> msg_messageId ` set ms"
proof (induction now ms cm rule: collect_due.induct)
  case (2 now m ms cm)
  then show ?case
    using keys_map_put [of "msg_messageId m" _ cm] by (auto split: if_splits option.splits)
qed simp

lemma RunLoop_scan_fields:
  assumes "RunLoop_scan now q = (q', cm, d)"
  shows "mq_currentMsgId q' = mq_currentMsgId q \<and> \<not> mq_hasPost q' \<and> mq_canceledMessageIds q' = {} \<and>
     collect_due now (mq_firstMessage q) [] = (mq_firstMessage q', cm)"
  using assms by (auto simp: RunLoop_scan_def split: prod.splits)

text \<open>After the scan nothing due is left, and the deadline is not later than any message left.\<close>

definition quiet :: "'cb MessageQueue \<Rightarrow> int \<Rightarrow> int \<Rightarrow> bool" where
  "quiet q d n \<longleftrightarrow> (if d = 0 then mq_firstMessage q = [] else \<forall>m \<in> set (mq_firstMessage q). n + d * 1000000 \<le> msg_when m)"

lemma RunLoop_scan_quiet:
  assumes "by_time (mq_firstMessage q)" "RunLoop_scan now q = (q', cm, d)"
  shows "quiet q' d now \<and> by_time (mq_firstMessage q')"
proof -
  from RunLoop_scan_fields [OF assms(2)] have
    r: "mq_firstMessage q' = filter (\<lambda>m. \<not> is_due now m) (mq_firstMessage q)"
    using collect_due_split [OF _ assms(1)] by blast
  then have st: "by_time (mq_firstMessage q')" using assms(1) by (simp add: by_time_def sorted_filter)
  show ?thesis
  proof (cases "mq_firstMessage q'")
    case Nil
    with assms(2) st show ?thesis by (auto simp: RunLoop_scan_def quiet_def split: prod.splits)
  next
    case (Cons m ms)
    then have "m \<in> set (mq_firstMessage q')" by simp
    then have w: "1000000 \<le> msg_when m - now" unfolding r by (auto simp: is_due_def)
    have d: "d = DURATION_TO_MS (msg_when m - now)"
      using assms(2) Cons by (auto simp: RunLoop_scan_def split: prod.splits)
    have "now + d * 1000000 \<le> msg_when m" using duration_le [of "msg_when m - now"] w d by simp
    moreover have "\<forall>x \<in> set ms. msg_when m \<le> msg_when x" using st Cons by (auto simp: by_time_def)
    ultimately show ?thesis using st Cons duration_pos [OF w] d by (auto simp: quiet_def)
  qed
qed

fun alert :: "'cb MessageQueue \<times> 'cb loop_pc \<Rightarrow> bool" where
  "alert (q, AtTop) = True"
| "alert (q, AtCheck cbs d n) = (mq_hasPost q \<or> quiet q d n)"
| "alert (q, AtCall i cb cbs d n) = (mq_hasPost q \<or> quiet q d n)"
| "alert (q, Waiting None) = (mq_firstMessage q = [])"
| "alert (q, Waiting (Some t)) = (\<forall>m \<in> set (mq_firstMessage q). t \<le> msg_when m)"

lemma alert_mono:
  "alert (q, pc) \<Longrightarrow> set (mq_firstMessage q') \<subseteq> set (mq_firstMessage q) \<Longrightarrow> mq_hasPost q' = mq_hasPost q \<Longrightarrow> alert (q', pc)"
  by (cases "(q, pc)" rule: alert.cases) (auto simp: quiet_def)

lemma alert_notified: "mq_hasPost q \<Longrightarrow> alert (q, notified pc)"
  by (cases pc) auto

lemma loop_step_inv:
  assumes "loop_step s e s'" "queue_ok (fst s)" "alert s"
  shows "queue_ok (fst s') \<and> alert s'"
  using assms
proof cases
  case (scan now q q' cm d)
  have "collect_due now (mq_firstMessage q) [] = (mq_firstMessage q', cm)" "mq_currentMsgId q' = mq_currentMsgId q"
    using RunLoop_scan_fields [OF scan(4)] by auto
  then have "set (mq_firstMessage q') \<subseteq> set (mq_firstMessage q)"
    using collect_due_split [of now "mq_firstMessage q" "[]"] assms(2) scan(1) by (auto simp: queue_ok_def)
  with scan RunLoop_scan_quiet [OF _ scan(4)] assms(2) RunLoop_scan_fields [OF scan(4)] show ?thesis
    by (auto simp: queue_ok_def ids_def list_all_iff)
next
  case (sleep q d n)
  with assms(2,3) show ?thesis by (auto simp: quiet_def split: if_splits)
next
  case (post now sec cb q i q' pc)
  with assms(2) PostMessage_ok [OF _ post(4)] PostMessage_fields [OF post(4)] show ?thesis
    by (simp add: alert_notified)
next
  case (cancel i q b q' pc)
  with assms(2,3) CancelMessage_ok [OF _ cancel(4)] CancelMessage_fields [OF cancel(4)] show ?thesis
    by (auto elim: alert_mono)
qed (auto simp: queue_ok_def ids_def)

lemma loop_run_inv: "loop_run s es s' \<Longrightarrow> queue_ok (fst s) \<Longrightarrow> alert s \<Longrightarrow> queue_ok (fst s') \<and> alert s'"
  by (induction rule: loop_run.induct) (blast dest: loop_step_inv)+

lemma queue_ok_new: "queue_ok MessageQueue_new"
  by (simp add: queue_ok_def MessageQueue_new_def by_time_def valid_id_def UINT32_MAX_def ids_def)

section \<open>Cancelled messages\<close>

text \<open>A cancelled id is not in the list, and if the loop still holds its callback it will skip it.\<close>

fun dropped :: "u32 \<Rightarrow> 'cb MessageQueue \<times> 'cb loop_pc \<Rightarrow> bool" where
  "dropped i (q, pc) \<longleftrightarrow> i \<notin> set (ids q) \<and>
     (case pc of AtCheck cbs d n \<Rightarrow> i \<in> fst ` set cbs \<longrightarrow> i \<in> mq_canceledMessageIds q
      | AtCall j cb cbs d n \<Rightarrow> j \<noteq> i \<and> (i \<in> fst ` set cbs \<longrightarrow> i \<in> mq_canceledMessageIds q)
      | _ \<Rightarrow> True)"

lemma notified_dropped:
  "dropped i (q, pc) \<Longrightarrow> i \<notin> set (ids q') \<Longrightarrow> mq_canceledMessageIds q' = mq_canceledMessageIds q \<Longrightarrow> dropped i (q', notified pc)"
  by (cases pc) auto

lemma PostMessage_ids:
  "PostMessage now sec cb q = (i, q') \<Longrightarrow> mset (ids q') = add_mset i (mset (ids q))"
  by (rule PostMessage_list, assumption) (drule PostMessage_fields, auto simp: ids_def)

lemma collect_due_subset: "collect_due now ms cm = (rest, cm') \<Longrightarrow> set rest \<subseteq> set ms"
  by (induction now ms cm rule: collect_due.induct) (auto split: if_splits)

lemma loop_step_dropped:
  assumes "loop_step s e s'" "dropped i s" "e \<noteq> Post i"
  shows "dropped i s' \<and> (\<forall>cb. e \<noteq> Call i cb)"
  using assms
proof cases
  case (scan now q q' cm d)
  have c: "collect_due now (mq_firstMessage q) [] = (mq_firstMessage q', cm)"
    using RunLoop_scan_fields [OF scan(4)] by auto
  from collect_due_subset [OF c] collect_due_keys [OF c] assms(2) scan show ?thesis by (auto simp: ids_def)
next
  case (post now sec cb q j q' pc)
  have "set (ids q') = insert j (set (ids q))"
    using arg_cong [OF PostMessage_ids [OF post(4)], of set_mset] by simp
  with assms(2,3) post PostMessage_fields [OF post(4)] show ?thesis
    by (auto intro!: notified_dropped [of i q pc] simp del: dropped.simps) (simp add: dropped.simps)
next
  case (cancel j q b q' pc)
  with assms(2) CancelMessage_fields [OF cancel(4)] show ?thesis by (cases pc) (auto simp: ids_def)
qed (auto simp: ids_def)

lemma loop_run_dropped:
  "loop_run s es s' \<Longrightarrow> dropped i s \<Longrightarrow> Post i \<notin> set es \<Longrightarrow> Call i cb \<notin> set es"
  by (induction rule: loop_run.induct) (auto dest: loop_step_dropped)

section \<open>Collected callbacks\<close>

abbreviation collect1 :: "'cb Message \<Rightarrow> (u32, 'cb) std_map \<Rightarrow> (u32, 'cb) std_map" where
  "collect1 m \<equiv> (case msg_callback m of None \<Rightarrow> id | Some cb \<Rightarrow> map_put (msg_messageId m) cb)"

lemma fold_collect_ok: "map_ok cm \<Longrightarrow> map_ok (fold collect1 ms cm)"
  by (induction ms arbitrary: cm) (auto split: option.splits)

lemma fold_collect:
  "distinct (map msg_messageId ms) \<Longrightarrow> map_ok cm \<Longrightarrow>
     map_of (fold collect1 ms cm) i = Some cb \<longleftrightarrow>
       (\<exists>m \<in> set ms. msg_messageId m = i \<and> msg_callback m = Some cb) \<or>
       (map_of cm i = Some cb \<and> (\<forall>m \<in> set ms. msg_messageId m = i \<longrightarrow> msg_callback m = None))"
proof (induction ms arbitrary: cm)
  case (Cons m ms)
  show ?case
  proof (cases "msg_callback m")
    case None
    with Cons show ?thesis by auto
  next
    case (Some c)
    have other: "\<forall>x \<in> set ms. msg_messageId x \<noteq> msg_messageId m" using Cons.prems(1) by (simp add: image_iff) metis
    have ih: "map_of (fold collect1 ms (map_put (msg_messageId m) c cm)) i = Some cb \<longleftrightarrow>
       (\<exists>m \<in> set ms. msg_messageId m = i \<and> msg_callback m = Some cb) \<or>
       (map_of (map_put (msg_messageId m) c cm) i = Some cb \<and> (\<forall>m \<in> set ms. msg_messageId m = i \<longrightarrow> msg_callback m = None))"
      using Cons.prems by (intro Cons.IH) auto
    show ?thesis
    proof (cases "msg_messageId m = i")
      case True
      then have "\<forall>x \<in> set ms. msg_messageId x \<noteq> i" using other by simp
      with True Some ih Cons.prems(2) show ?thesis by (auto simp: map_of_put)
    next
      case False
      with Some ih Cons.prems(2) show ?thesis by (simp add: map_of_put)
    qed
  qed
qed simp

lemma scan_collects:
  assumes "queue_ok q" "RunLoop_scan now q = (q', callbackMap, duration)"
  shows "mq_firstMessage q' = filter (\<lambda>m. \<not> is_due now m) (mq_firstMessage q)"
    "callbackMap = fold collect1 (filter (is_due now) (mq_firstMessage q)) []" "map_ok callbackMap"
proof -
  have "collect_due now (mq_firstMessage q) [] = (mq_firstMessage q', callbackMap)"
    using RunLoop_scan_fields [OF assms(2)] by simp
  from collect_due_split [OF this] assms(1)
  show "mq_firstMessage q' = filter (\<lambda>m. \<not> is_due now m) (mq_firstMessage q)"
    "callbackMap = fold collect1 (filter (is_due now) (mq_firstMessage q)) []"
    by (auto simp: queue_ok_def)
  then show "map_ok callbackMap" by (simp add: fold_collect_ok)
qed

lemma scan_collected:
  assumes "queue_ok q" "RunLoop_scan now q = (q', callbackMap, duration)" "distinct (ids q)"
  shows "map_of callbackMap i = Some cb \<longleftrightarrow>
    (\<exists>m \<in> set (mq_firstMessage q). msg_messageId m = i \<and> msg_callback m = Some cb \<and> is_due now m)"
proof -
  have "distinct (map msg_messageId (filter (is_due now) (mq_firstMessage q)))"
    using assms(3) unfolding ids_def by (rule distinct_map_filter)
  from fold_collect [OF this, of "[]"] show ?thesis by (auto simp: scan_collects(2) [OF assms(1,2)])
qed

section \<open>Properties\<close>

text \<open>
  C11: The timer thread never sleeps past a timer. Whatever is posted and cancelled while it runs
  callbacks, when it waits without a deadline the queue is empty, and when it waits with one the
  deadline is not later than any queued message; the list is ordered by time throughout.
\<close>

theorem timer_never_oversleeps:
  assumes "loop_run (MessageQueue_new, AtTop) es (q, Waiting t)"
  shows "by_time (mq_firstMessage q) \<and>
     (case t of None \<Rightarrow> mq_firstMessage q = [] | Some deadline \<Rightarrow> \<forall>m \<in> set (mq_firstMessage q). deadline \<le> msg_when m)"
  using loop_run_inv [OF assms] queue_ok_new by (auto simp: queue_ok_def split: option.splits)

theorem timer_never_oversleeps_witness:
  "\<exists>q. loop_run (MessageQueue_new :: bool MessageQueue, AtTop) [Post 1, Scan 5, Sleep] (q, Waiting (Some 2000000005)) \<and>
     by_time (mq_firstMessage q) \<and> (\<forall>m \<in> set (mq_firstMessage q). 2000000005 \<le> msg_when m)"
proof -
  let ?m = "\<lparr>msg_callback = Some True, msg_messageId = 1, msg_when = 2000000007\<rparr>"
  let ?q1 = "\<lparr>mq_firstMessage = [?m], mq_currentMsgId = 2, mq_hasPost = True, mq_canceledMessageIds = {}\<rparr>"
  have p: "PostMessage 7 2 (Some True) MessageQueue_new = (1, ?q1)"
    by (simp add: PostMessage_def MessageQueue_new_def UINT32_MAX_def)
  have s: "RunLoop_scan 5 ?q1 = (?q1\<lparr>mq_hasPost := False\<rparr>, [], 2000)"
    by (simp add: RunLoop_scan_def DURATION_TO_MS_def)
  have r: "loop_run (MessageQueue_new, AtTop) [Post 1, Scan 5, Sleep] (?q1\<lparr>mq_hasPost := False\<rparr>, Waiting (Some 2000000005))"
    using loop_step.post [OF p, of AtTop] loop_step.scan [OF s] loop_step.sleep [of "?q1\<lparr>mq_hasPost := False\<rparr>" 2000 5]
    by (auto intro!: loop_run.intros)
  show ?thesis
    using timer_never_oversleeps [OF r] r by (intro exI [of _ "?q1\<lparr>mq_hasPost := False\<rparr>"]) simp
qed

text \<open>
  C24: Once \<open>CancelMessage\<close> has returned, the callback of the cancelled message is not called any more
  (until its id is given out again), even if it was already collected for execution; the one
  exception is a callback the loop has just checked and is about to call.
\<close>

theorem cancelled_never_called:
  assumes "distinct (ids q)" "CancelMessage i q = (found, q')" "\<forall>cb cbs d n. pc \<noteq> AtCall i cb cbs d n"
    and "loop_run (q', pc) es s" "Post i \<notin> set es"
  shows "Call i cb \<notin> set es"
proof -
  have "dropped i (q', pc)"
    using CancelMessage_gone [OF assms(1,2)] CancelMessage_fields [OF assms(2)] assms(3) by (cases pc) auto
  from loop_run_dropped [OF assms(4) this assms(5)] show ?thesis .
qed

theorem cancelled_never_called_witness:
  "Call 4 True \<notin> set [Skip 4, Sleep :: bool loop_event]"
proof -
  let ?q = "\<lparr>mq_firstMessage = [], mq_currentMsgId = 5, mq_hasPost = False, mq_canceledMessageIds = {}\<rparr>"
  let ?q' = "?q\<lparr>mq_canceledMessageIds := {4}\<rparr>"
  have c: "CancelMessage 4 ?q = (False, ?q')" by (simp add: CancelMessage_def)
  have r: "loop_run (?q', AtCheck [(4, True)] 0 0) [Skip 4, Sleep] (?q', Waiting None)"
    using loop_step.skip [of 4 ?q' True "[]" 0 0] loop_step.sleep [of ?q' 0 0] by (auto intro!: loop_run.intros)
  from cancelled_never_called [OF _ c _ r] show ?thesis by (simp add: ids_def)
qed

text \<open>
  \<open>PostMessage\<close> adds exactly the new message, keeps the list ordered by time and keeps the ids out
  of the values 0 and \<open>UINT32_MAX\<close>; \<open>CancelMessage\<close> reports whether the id was queued and removes one
  entry of that id.
\<close>

theorem post_cancel_effect:
  assumes "queue_ok q" "PostMessage now sec cb q = (i, p)" "CancelMessage j q = (found, r)"
  shows "queue_ok p \<and> i \<noteq> 0 \<and> mset (mq_firstMessage p) =
       add_mset \<lparr>msg_callback = cb, msg_messageId = i, msg_when = now + sec * 1000000000\<rparr> (mset (mq_firstMessage q)) \<and>
     queue_ok r \<and> (found \<longleftrightarrow> j \<in> set (ids q)) \<and> mset (ids r) = mset (ids q) - {#j#}"
proof -
  have p: "queue_ok p" "i \<noteq> 0" using PostMessage_ok [OF assms(1,2)] by (auto simp: valid_id_def)
  have m: "mset (mq_firstMessage p) =
       add_mset \<lparr>msg_callback = cb, msg_messageId = i, msg_when = now + sec * 1000000000\<rparr> (mset (mq_firstMessage q))"
    using PostMessage_fields [OF assms(2)] by (rule_tac PostMessage_list [OF assms(2)]) auto
  have "(found \<longleftrightarrow> j \<in> set (ids q)) \<and> mset (ids r) = mset (ids q) - {#j#}"
    using assms(3) by (rule CancelMessage_cases) (auto simp: ids_def diff_single_trivial)
  with p m CancelMessage_ok [OF assms(1,3)] show ?thesis by blast
qed

theorem post_cancel_effect_witness:
  "queue_ok (snd (PostMessage 7 2 (Some True) MessageQueue_new)) \<and> fst (PostMessage 7 2 (Some True) MessageQueue_new) \<noteq> 0 \<and>
   fst (CancelMessage 9 (MessageQueue_new :: bool MessageQueue)) = False"
  using post_cancel_effect [OF queue_ok_new, of 7 2 "Some True" _ _ 9, OF prod.collapse [symmetric] prod.collapse [symmetric]]
  by (simp add: ids_def MessageQueue_new_def)

text \<open>
  One pass of the timer thread takes exactly the due messages (those whose time is less than a
  millisecond away or past) from the list, leaves the others in place, collects each due
  callback under its id, and forgets earlier cancellations.
\<close>

theorem RunLoop_scan_exact:
  assumes "queue_ok q" "RunLoop_scan now q = (q', callbackMap, duration)"
  shows "mq_firstMessage q' = filter (\<lambda>m. now + 1000000 \<le> msg_when m) (mq_firstMessage q) \<and>
     map_ok callbackMap \<and> (distinct (ids q) \<longrightarrow> (\<forall>i cb. map_of callbackMap i = Some cb \<longleftrightarrow>
        (\<exists>m \<in> set (mq_firstMessage q). msg_messageId m = i \<and> msg_callback m = Some cb \<and> msg_when m < now + 1000000))) \<and>
     mq_canceledMessageIds q' = {}"
  using scan_collects [OF assms] scan_collected [OF assms] RunLoop_scan_fields [OF assms(2)] by (auto simp: is_due_def not_less)

theorem RunLoop_scan_exact_witness:
  "mq_firstMessage (fst (RunLoop_scan 3000000000 (snd (PostMessage 7 2 (Some True) MessageQueue_new)))) = []"
proof -
  let ?q = "snd (PostMessage 7 2 (Some True) MessageQueue_new)"
  have "queue_ok ?q" using PostMessage_ok [OF queue_ok_new, of 7 2 "Some True" _ ?q] by (metis prod.collapse)
  then have "mq_firstMessage (fst (RunLoop_scan 3000000000 ?q)) = filter (\<lambda>m. 3000000000 + 1000000 \<le> msg_when m) (mq_firstMessage ?q)"
    using RunLoop_scan_exact [of ?q 3000000000] by (metis prod_cases3 fst_conv)
  then show ?thesis by (simp add: PostMessage_def MessageQueue_new_def)
qed

end
