(* ===== verification/Alarms.thy ===== *)
theory Alarms
  imports TimerQueue
begin

text \<open>
  \<^verbatim>\<open>common/alarm\<close> and \<^verbatim>\<open>object_pool.hpp\<close>: the alarms posted to the timer queue and the pool request
  timeouts take them from. The closure \<^verbatim>\<open>_callback\<close> captures only \<^verbatim>\<open>this\<close>; what the queue holds is
  therefore the alarm's identity, and \<open>Alarm_fire\<close> is the closure's body. The locale
  \<open>timer_service\<close> states what an alarm relies on from the queue.
\<close>

section \<open>The class\<close>

datatype AlarmStatus = kStatusInit | kStatusStart | kStatusCancel | kStatusAlarm

record 'f Alarm =
  al_callback :: bool
  al_innerCallback :: "'f option"
  al_messageId :: u32
  al_status :: AlarmStatus
  al_userData :: int

text \<open>\<^verbatim>\<open>_userData\<close> is not initialised.\<close>

definition Alarm_new :: "int \<Rightarrow> 'f Alarm" where
  "Alarm_new junk =
     \<lparr>al_callback = False, al_innerCallback = None, al_messageId = 0, al_status = kStatusInit, al_userData = junk\<rparr>"

definition Alarm_SetCallback :: "'f \<Rightarrow> 'f Alarm \<Rightarrow> 'f Alarm" where
  "Alarm_SetCallback f a = a\<lparr>al_innerCallback := Some f, al_callback := True\<rparr>"

text \<open>The body of the closure: the alarm after it, and the inner callback it goes on to call.\<close>

definition Alarm_fire :: "'f Alarm \<Rightarrow> 'f option \<times> 'f Alarm" where
  "Alarm_fire a =
     (if al_messageId a = 0 then (None, a) else (al_innerCallback a, a\<lparr>al_status := kStatusAlarm\<rparr>))"

text \<open>
  \<^verbatim>\<open>SharedQueue()->PostMessage\<close> and \<^verbatim>\<open>CancelMessage\<close> are the arguments \<open>post\<close> and \<open>cancel\<close>.
\<close>

definition Alarm_Start :: "(int \<Rightarrow> 'q \<Rightarrow> u32 \<times> 'q) \<Rightarrow> int \<Rightarrow> 'f Alarm \<Rightarrow> 'q \<Rightarrow> bool \<times> 'f Alarm \<times> 'q" where
  "Alarm_Start post afterSec a q =
     (if \<not> al_callback a then (False, a, q)
      else if al_status a = kStatusStart then (False, a, q)
      else case post afterSec q of (messageId, q') \<Rightarrow>
             (True, a\<lparr>al_messageId := messageId, al_status := kStatusStart\<rparr>, q'))"

definition Alarm_StartWith ::
  "(int \<Rightarrow> 'q \<Rightarrow> u32 \<times> 'q) \<Rightarrow> int \<Rightarrow> 'f \<Rightarrow> 'f Alarm \<Rightarrow> 'q \<Rightarrow> bool \<times> 'f Alarm \<times> 'q" where
  "Alarm_StartWith post afterSec f a q = Alarm_Start post afterSec (Alarm_SetCallback f a) q"

definition Alarm_Cancel :: "(u32 \<Rightarrow> 'q \<Rightarrow> bool \<times> 'q) \<Rightarrow> 'f Alarm \<Rightarrow> 'q \<Rightarrow> bool \<times> 'f Alarm \<times> 'q" where
  "Alarm_Cancel cancel a q =
     (if al_messageId a = 0 then (False, a, q)
      else case cancel (al_messageId a) q of (b, q') \<Rightarrow>
             (True, a\<lparr>al_messageId := 0, al_status := kStatusCancel\<rparr>, q'))"

definition Alarm_IsWaiting :: "'f Alarm \<Rightarrow> bool" where
  "Alarm_IsWaiting a \<longleftrightarrow> al_status a = kStatusStart"

definition Alarm_IsAlarm :: "'f Alarm \<Rightarrow> bool" where
  "Alarm_IsAlarm a \<longleftrightarrow> al_status a = kStatusAlarm"

text \<open>Operations on a \<^verbatim>\<open>TcpClient\<close>'s alarms go to the shared queue under the alarm's identity.\<close>

definition post_as :: "'a \<Rightarrow> int \<Rightarrow> int \<Rightarrow> 'a MessageQueue \<Rightarrow> u32 \<times> 'a MessageQueue" where
  "post_as self now afterSec q = PostMessage now afterSec (Some self) q"

section \<open>What an alarm relies on\<close>

text \<open>\<open>pending\<close>: the ids of the queued messages, with multiplicity.\<close>

locale timer_service =
  fixes post :: "int \<Rightarrow> 'q \<Rightarrow> u32 \<times> 'q"
    and cancel :: "u32 \<Rightarrow> 'q \<Rightarrow> bool \<times> 'q"
    and pending :: "'q \<Rightarrow> u32 multiset"
    and ok :: "'q \<Rightarrow> bool"
  assumes post_ok: "ok q \<Longrightarrow> ok (snd (post sec q))"
    and post_id: "ok q \<Longrightarrow> fst (post sec q) \<noteq> 0"
    and post_pending: "ok q \<Longrightarrow> pending (snd (post sec q)) = add_mset (fst (post sec q)) (pending q)"
    and cancel_ok: "ok q \<Longrightarrow> ok (snd (cancel i q))"
    and cancel_pending: "ok q \<Longrightarrow> pending (snd (cancel i q)) = pending q - {#i#}"
begin

definition armed :: "'f Alarm \<Rightarrow> bool" where
  "armed a \<longleftrightarrow> (al_messageId a \<noteq> 0 \<longleftrightarrow> al_status a = kStatusStart \<or> al_status a = kStatusAlarm)"

lemma Start_cases:
  assumes "ok q" "Alarm_Start post sec a q = (started, a', q')"
  shows "ok q' \<and> (if started then al_callback a \<and> al_status a \<noteq> kStatusStart \<and> al_messageId a' \<noteq> 0 \<and>
           al_status a' = kStatusStart \<and> pending q' = add_mset (al_messageId a') (pending q)
         else a' = a \<and> q' = q)"
  using assms post_ok [OF assms(1), of sec] post_id [OF assms(1), of sec] post_pending [OF assms(1), of sec]
  by (auto simp: Alarm_Start_def split: if_splits prod.splits)

lemma Cancel_cases:
  assumes "ok q" "Alarm_Cancel cancel a q = (stopped, a', q')"
  shows "ok q' \<and> al_messageId a' = 0 \<and> (if stopped then al_status a' = kStatusCancel \<and> pending q' = pending q - {#al_messageId a#}
         else a' = a \<and> q' = q)"
  using assms cancel_ok [OF assms(1), of "al_messageId a"] cancel_pending [OF assms(1), of "al_messageId a"]
  by (auto simp: Alarm_Cancel_def split: if_splits prod.splits)

lemma armed_Start: "ok q \<Longrightarrow> armed a \<Longrightarrow> Alarm_Start post sec a q = (b, a', q') \<Longrightarrow> armed a'"
  using Start_cases [of q sec a b a' q'] by (auto simp: armed_def split: if_splits)

lemma armed_Cancel: "ok q \<Longrightarrow> armed a \<Longrightarrow> Alarm_Cancel cancel a q = (b, a', q') \<Longrightarrow> armed a'"
  using Cancel_cases [of q a b a' q'] by (auto simp: armed_def split: if_splits)

lemma armed_fire: "armed a \<Longrightarrow> armed (snd (Alarm_fire a))"
  by (auto simp: armed_def Alarm_fire_def)

lemma armed_new: "armed (Alarm_new junk)"
  by (simp add: armed_def Alarm_new_def)

lemma cancel_disarms:
  assumes "ok q" "Alarm_Cancel cancel a q = (b, a', q')"
  shows "fst (Alarm_fire a') = None"
  using Cancel_cases [OF assms] by (simp add: Alarm_fire_def)

lemma start_cancel:
  assumes "ok q" "Alarm_Start post sec a q = (True, a1, q1)" "Alarm_Cancel cancel a1 q1 = (b, a2, q2)"
  shows "b \<and> pending q2 = pending q \<and> al_status a2 = kStatusCancel"
proof -
  have s: "ok q1" "al_messageId a1 \<noteq> 0" "pending q1 = add_mset (al_messageId a1) (pending q)"
    using Start_cases [OF assms(1,2)] by auto
  then have b using assms(3) by (auto simp: Alarm_Cancel_def split: prod.splits)
  with Cancel_cases [OF s(1) assms(3)] s(3) show ?thesis by simp
qed

end

interpretation queue_timer: timer_service "post_as self now" CancelMessage "\<lambda>q. mset (ids q)" queue_ok
  for self :: 'a and now
proof unfold_locales
  fix q :: "'a MessageQueue" and sec i
  assume q: "queue_ok q"
  obtain j p where p: "PostMessage now sec (Some self) q = (j, p)" by force
  obtain b r where r: "CancelMessage i q = (b, r)" by force
  show "queue_ok (snd (post_as self now sec q))" "fst (post_as self now sec q) \<noteq> 0"
    "mset (ids (snd (post_as self now sec q))) = add_mset (fst (post_as self now sec q)) (mset (ids q))"
    using PostMessage_ok [OF q p] PostMessage_ids [OF p] p by (auto simp: post_as_def valid_id_def)
  show "queue_ok (snd (CancelMessage i q))" using CancelMessage_ok [OF q r] r by simp
  show "mset (ids (snd (CancelMessage i q))) = mset (ids q) - {#i#}"
    using r by (rule_tac CancelMessage_cases [OF r]) (auto simp: ids_def diff_single_trivial)
qed

section \<open>ObjectPool\<close>

text \<open>
  \<^verbatim>\<open>Get\<close>: the object handed out and the pool after it; \<open>fresh\<close> is what \<^verbatim>\<open>new T()\<close> gives. The
  pointer's deleter puts the object back.
\<close>

record 't ObjectPool =
  op_pool :: "'t list"

definition ObjectPool_Get :: "'t \<Rightarrow> 't ObjectPool \<Rightarrow> 't \<times> 't ObjectPool" where
  "ObjectPool_Get fresh p =
     (if op_pool p = [] then (fresh, p) else (last (op_pool p), p\<lparr>op_pool := butlast (op_pool p)\<rparr>))"

definition ObjectPool_Put :: "'t \<Rightarrow> 't ObjectPool \<Rightarrow> 't ObjectPool" where
  "ObjectPool_Put t p = p\<lparr>op_pool := op_pool p @ [t]\<rparr>"

section \<open>Properties\<close>

text \<open>
  Starting an alarm and cancelling it leaves the timer queue with the messages it had before;
  and after a successful or failed \<open>Cancel\<close> a callback that was already on its way does nothing.
\<close>

theorem alarm_start_cancel:
  assumes "queue_ok q" "Alarm_Start (post_as self now) sec a q = (True, a1, q1)" "Alarm_Cancel CancelMessage a1 q1 = (b, a2, q2)"
  shows "b \<and> mset (ids q2) = mset (ids q) \<and> queue_ok q2 \<and> fst (Alarm_fire a2) = None \<and> \<not> Alarm_IsWaiting a2 \<and> \<not> Alarm_IsAlarm a2"
proof -
  have q1: "queue_ok q1" using queue_timer.Start_cases [OF assms(1,2)] by auto
  have c: "b \<and> mset (ids q2) = mset (ids q) \<and> al_status a2 = kStatusCancel"
    by (rule queue_timer.start_cancel [OF assms])
  then show ?thesis
    using queue_timer.cancel_disarms [OF q1 assms(3)] queue_timer.Cancel_cases [OF q1 assms(3)]
    by (simp add: Alarm_IsWaiting_def Alarm_IsAlarm_def)
qed

text \<open>Everything that can happen to an alarm; \<open>others\<close> is any other use of the queue.\<close>

inductive alarm_use :: "'f Alarm \<times> 'a MessageQueue \<Rightarrow> 'f Alarm \<times> 'a MessageQueue \<Rightarrow> bool" where
  set_callback: "alarm_use (a, q) (Alarm_SetCallback f a, q)"
| start: "Alarm_Start (post_as self now) sec a q = (b, a', q') \<Longrightarrow> alarm_use (a, q) (a', q')"
| cancel: "Alarm_Cancel CancelMessage a q = (b, a', q') \<Longrightarrow> alarm_use (a, q) (a', q')"
| fire: "Alarm_fire a = (f, a') \<Longrightarrow> alarm_use (a, q) (a', q)"
| others: "queue_ok q' \<Longrightarrow> alarm_use (a, q) (a, q')"

lemma alarm_use_armed:
  assumes "alarm_use s s'" "queue_ok (snd s)" "queue_timer.armed (fst s)"
  shows "queue_ok (snd s') \<and> queue_timer.armed (fst s')"
  using assms
proof cases
  case (set_callback a q f)
  with assms show ?thesis by (simp add: queue_timer.armed_def Alarm_SetCallback_def)
next
  case (start self now sec a q b a' q')
  with assms queue_timer.armed_Start queue_timer.Start_cases show ?thesis by (metis fst_conv snd_conv)
next
  case (cancel a q b a' q')
  with assms queue_timer.armed_Cancel queue_timer.Cancel_cases show ?thesis by (metis fst_conv snd_conv)
next
  case (fire a f a' q)
  with assms queue_timer.armed_fire [of a] show ?thesis by simp
qed auto

text \<open>
  In every state of an alarm, whatever was called on it, it has a message id exactly when it is
  waiting or has gone off; a second \<open>Start\<close> while it waits changes nothing.
\<close>

theorem alarm_status_invariant:
  assumes "alarm_use\<^sup>*\<^sup>* (Alarm_new junk, MessageQueue_new) (a, q)"
  shows "(al_messageId a \<noteq> 0 \<longleftrightarrow> Alarm_IsWaiting a \<or> Alarm_IsAlarm a) \<and>
     (Alarm_IsWaiting a \<longrightarrow> Alarm_Start (post_as self now) sec a q = (False, a, q))"
proof -
  have "queue_ok (snd (a, q)) \<and> queue_timer.armed (fst (a, q))"
    using assms
  proof (induction rule: rtranclp_induct)
    case base
    then show ?case by (simp add: queue_ok_new queue_timer.armed_new)
  next
    case (step y z)
    then show ?case using alarm_use_armed by blast
  qed
  then show ?thesis
    by (auto simp: queue_timer.armed_def Alarm_IsWaiting_def Alarm_IsAlarm_def Alarm_Start_def)
qed

theorem alarm_status_invariant_witness:
  "al_messageId (Alarm_SetCallback True (Alarm_new 3)) = 0 \<longleftrightarrow>
     \<not> (Alarm_IsWaiting (Alarm_SetCallback True (Alarm_new 3)) \<or> Alarm_IsAlarm (Alarm_SetCallback True (Alarm_new 3)))"
  using alarm_status_invariant [of 3 "Alarm_SetCallback True (Alarm_new 3)" "MessageQueue_new :: bool MessageQueue" True 0 0]
    alarm_use.set_callback [of "Alarm_new 3" "MessageQueue_new :: bool MessageQueue" True] by blast

text \<open>
  The pool neither loses nor duplicates objects: \<open>Get\<close> after a release returns the released
  object and restores the pool, and a new object is made only when the pool is empty.
\<close>

theorem object_pool_reuse:
  "ObjectPool_Get fresh (ObjectPool_Put t p) = (t, p) \<and>
   (op_pool p \<noteq> [] \<longrightarrow> ObjectPool_Put (fst (ObjectPool_Get fresh p)) (snd (ObjectPool_Get fresh p)) = p)"
  by (cases p) (auto simp: ObjectPool_Get_def ObjectPool_Put_def)

end
