(* ===== verification/Breaker.thy ===== *)
theory Breaker
  imports Posix
begin

text \<open>
  \<^verbatim>\<open>socket/socket_breaker\<close> and the helpers of \<^verbatim>\<open>packet/unix_socket\<close>. A breaker is a pipe whose read end
  is polled next to the sockets; \<^verbatim>\<open>Break\<close> makes it readable, \<^verbatim>\<open>Clear\<close> drains it. It refines one
  boolean signal, the contract \<open>signal_flag\<close>.
\<close>

section \<open>unix_socket.cpp\<close>

text \<open>\<^verbatim>\<open>flags | O_NONBLOCK\<close> and \<^verbatim>\<open>flags & ~O_NONBLOCK\<close> on \<^verbatim>\<open>long\<close>.\<close>

definition socket_set_noblo :: "'w posix \<Rightarrow> int \<Rightarrow> 'w \<Rightarrow> int \<times> 'w" where
  "socket_set_noblo P fd w =
     (let (r, w1) = sys_getfl P fd w
      in if r \<ge> 0 then sys_setfl P fd (r OR c_O_NONBLOCK P) w1 else (r, w1))"

definition socket_set_blo :: "'w posix \<Rightarrow> int \<Rightarrow> 'w \<Rightarrow> int \<times> 'w" where
  "socket_set_blo P fd w =
     (let (r, w1) = sys_getfl P fd w
      in if r \<ge> 0 then sys_setfl P fd (r AND NOT (c_O_NONBLOCK P)) w1 else (r, w1))"

definition socket_set_tcp_mss :: "'w posix \<Rightarrow> int \<Rightarrow> int \<Rightarrow> 'w \<Rightarrow> int \<times> 'w" where
  "socket_set_tcp_mss P fd mss = sys_setsockopt P fd (TCP_MAXSEG mss)"

definition socket_fix_tcp_mss :: "'w posix \<Rightarrow> int \<Rightarrow> 'w \<Rightarrow> int \<times> 'w" where
  "socket_fix_tcp_mss P fd = socket_set_tcp_mss P fd 1400"

definition socket_disable_nagle :: "'w posix \<Rightarrow> int \<Rightarrow> int \<Rightarrow> 'w \<Rightarrow> int \<times> 'w" where
  "socket_disable_nagle P fd nagle = sys_setsockopt P fd (TCP_NODELAY nagle)"

text \<open>
  The return value and \<^verbatim>\<open>*_nwriteLen\<close>, \<^verbatim>\<open>*_nreadLen\<close>, on a platform that is neither Apple nor Android.
\<close>

definition socket_get_nwrite :: "int \<Rightarrow> int \<times> int" where
  "socket_get_nwrite fd = (0, - 1)"

definition socket_get_nread :: "int \<Rightarrow> int \<times> int" where
  "socket_get_nread fd = (0, - 1)"

definition socket_nwrite :: "int \<Rightarrow> int" where
  "socket_nwrite fd = (case socket_get_nwrite fd of (r, v) \<Rightarrow> if r = 0 then v else r)"

definition socket_nread :: "int \<Rightarrow> int" where
  "socket_nread fd = (case socket_get_nread fd of (r, v) \<Rightarrow> if r = 0 then v else r)"

section \<open>SocketBreaker\<close>

record SocketBreaker =
  br_pipe0 :: int
  br_pipe1 :: int
  br_broken :: bool

definition Breaker_Close :: "'w posix \<Rightarrow> SocketBreaker \<Rightarrow> 'w \<Rightarrow> 'w" where
  "Breaker_Close P b w =
     (let w1 = (if br_pipe0 b \<noteq> - 1 then sys_close P (br_pipe0 b) w else w)
      in if br_pipe1 b \<noteq> - 1 then sys_close P (br_pipe1 b) w1 else w1)"

definition Breaker_ReCreate :: "'w posix \<Rightarrow> SocketBreaker \<Rightarrow> 'w \<Rightarrow> bool \<times> SocketBreaker \<times> 'w" where
  "Breaker_ReCreate P b w =
     (case sys_pipe P w of
        (None, w1) \<Rightarrow> (False, b\<lparr>br_pipe0 := - 1, br_pipe1 := - 1\<rparr>, w1)
      | (Some (r, s), w1) \<Rightarrow>
          let b1 = b\<lparr>br_pipe0 := r, br_pipe1 := s\<rparr>;
              (flags0, w2) = sys_getfl P r w1;
              (flags1, w3) = sys_getfl P s w2
          in if flags0 < 0 \<or> flags1 < 0 then (False, b1, Breaker_Close P b1 w3)
             else let (ret0, w4) = sys_setfl P r (flags0 OR c_O_NONBLOCK P) w3;
                      (ret1, w5) = sys_setfl P s (flags1 OR c_O_NONBLOCK P) w4
                  in if ret0 = - 1 \<or> ret1 = - 1 then (False, b1, Breaker_Close P b1 w5)
                     else (True, b1, w5))"

text \<open>The constructor; the result of \<^verbatim>\<open>ReCreate\<close> is dropped, the pipe fields are uninitialised before.\<close>

definition Breaker_new :: "'w posix \<Rightarrow> 'w \<Rightarrow> SocketBreaker \<times> 'w" where
  "Breaker_new P w = snd (Breaker_ReCreate P \<lparr>br_pipe0 = - 1, br_pipe1 = - 1, br_broken = False\<rparr> w)"

text \<open>\<^verbatim>\<open>'1'\<close> is byte 0x31.\<close>

definition Breaker_Break :: "'w posix \<Rightarrow> SocketBreaker \<Rightarrow> 'w \<Rightarrow> bool \<times> SocketBreaker \<times> 'w" where
  "Breaker_Break P b w =
     (if br_broken b then (True, b, w)
      else case sys_write P (br_pipe1 b) [0x31] w of (r, w') \<Rightarrow>
             if r \<noteq> 1 then (False, b, w') else (True, b\<lparr>br_broken := True\<rparr>, w'))"

definition Breaker_Clear :: "'w posix \<Rightarrow> SocketBreaker \<Rightarrow> 'w \<Rightarrow> bool \<times> SocketBreaker \<times> 'w" where
  "Breaker_Clear P b w =
     (case sys_read P (br_pipe0 b) 128 w of
        (None, w') \<Rightarrow> (False, b, w')
      | (Some bs, w') \<Rightarrow> (True, b\<lparr>br_broken := False\<rparr>, w'))"

definition Breaker_Fd :: "SocketBreaker \<Rightarrow> int" where
  "Breaker_Fd b = br_pipe0 b"

definition Breaker_IsBreak :: "SocketBreaker \<Rightarrow> bool" where
  "Breaker_IsBreak b = br_broken b"

section \<open>The contract of a signal\<close>

locale signal_flag =
  fixes raise :: "'b \<Rightarrow> bool \<times> 'b"
    and clear :: "'b \<Rightarrow> bool \<times> 'b"
    and level :: "'b \<Rightarrow> bool"
    and ok :: "'b \<Rightarrow> bool"
  assumes raise_ok: "ok b \<Longrightarrow> ok (snd (raise b))"
    and raise_sets: "ok b \<Longrightarrow> fst (raise b) \<and> level (snd (raise b))"
    and clear_ok: "ok b \<Longrightarrow> ok (snd (clear b))"
    and clear_resets: "ok b \<Longrightarrow> \<not> level (snd (clear b)) \<and> (fst (clear b) \<longleftrightarrow> level b)"
begin

primrec raises :: "nat \<Rightarrow> 'b \<Rightarrow> 'b" where
  "raises 0 b = b"
| "raises (Suc n) b = raises n (snd (raise b))"

lemma raises_ok: "ok b \<Longrightarrow> ok (raises n b)"
  by (induction n arbitrary: b) (simp_all add: raise_ok)

lemma raises_level: "ok b \<Longrightarrow> level (raises n b) \<longleftrightarrow> level b \<or> 0 < n"
  by (induction n arbitrary: b) (auto simp: raise_ok raise_sets)

text \<open>Any number of raises is undone by one clear.\<close>

lemma clear_after_raises:
  "ok b \<Longrightarrow> 0 < n \<Longrightarrow> fst (clear (raises n b)) \<and> \<not> level (snd (clear (raises n b)))"
  using clear_resets [OF raises_ok, of b n] raises_level [of b n] by simp

end

section \<open>The breaker meets it\<close>

text \<open>
  What \<^verbatim>\<open>pipe(7)\<close> promises for a non-blocking pipe nobody else uses: \<open>queued\<close> is the number of
  bytes in it, a one-byte write to a pipe that is not full succeeds, a read takes what is there,
  and a read of the empty pipe fails.
\<close>

definition pipe_laws :: "'w posix \<Rightarrow> int \<Rightarrow> int \<Rightarrow> ('w \<Rightarrow> nat) \<Rightarrow> ('w \<Rightarrow> bool) \<Rightarrow> bool" where
  "pipe_laws P rfd wfd queued ok \<longleftrightarrow>
     (\<forall>w b. ok w \<longrightarrow> queued w < 4096 \<longrightarrow>
        (case sys_write P wfd [b] w of (r, w') \<Rightarrow> r = 1 \<and> ok w' \<and> queued w' = queued w + 1)) \<and>
     (\<forall>w n. ok w \<longrightarrow> 0 < n \<longrightarrow>
        (case sys_read P rfd n w of
           (None, w') \<Rightarrow> ok w' \<and> queued w = 0 \<and> queued w' = 0
         | (Some bs, w') \<Rightarrow> ok w' \<and> 0 < queued w \<and> queued w' = queued w - n))"

definition breaker_ok :: "'w posix \<Rightarrow> ('w \<Rightarrow> nat) \<Rightarrow> ('w \<Rightarrow> bool) \<Rightarrow> SocketBreaker \<times> 'w \<Rightarrow> bool" where
  "breaker_ok P queued ok = (\<lambda>(b, w). ok w \<and> pipe_laws P (br_pipe0 b) (br_pipe1 b) queued ok \<and>
     queued w = (if br_broken b then 1 else 0))"

lemma pipe_write:
  assumes "pipe_laws P r s queued ok" "ok w" "queued w = 0" "sys_write P s [x] w = (k, w')"
  shows "k = 1 \<and> ok w' \<and> queued w' = 1"
proof -
  from assms(1) have "\<forall>w b. ok w \<longrightarrow> queued w < 4096 \<longrightarrow>
        (case sys_write P s [b] w of (r, w') \<Rightarrow> r = 1 \<and> ok w' \<and> queued w' = queued w + 1)"
    unfolding pipe_laws_def by (elim conjE)
  from this [rule_format, OF assms(2), of x] assms(3,4) show ?thesis by simp
qed

lemma pipe_read:
  assumes "pipe_laws P r s queued ok" "ok w" "0 < n" "sys_read P r n w = (res, w')"
  shows "ok w' \<and> (res = None \<longleftrightarrow> queued w = 0) \<and> queued w' = queued w - n"
proof -
  from assms(1) have "\<forall>w n. ok w \<longrightarrow> 0 < n \<longrightarrow>
        (case sys_read P r n w of
           (None, w') \<Rightarrow> ok w' \<and> queued w = 0 \<and> queued w' = 0
         | (Some bs, w') \<Rightarrow> ok w' \<and> 0 < queued w \<and> queued w' = queued w - n)"
    unfolding pipe_laws_def by (elim conjE)
  from this [rule_format, OF assms(2,3)] assms(4) show ?thesis by (auto split: option.splits)
qed

interpretation breaker: signal_flag
  "\<lambda>(b, w). Breaker_Break P b w" "\<lambda>(b, w). Breaker_Clear P b w" "\<lambda>(b, w). Breaker_IsBreak b" "breaker_ok P queued ok"
  for P queued ok
proof unfold_locales
  fix c assume c: "breaker_ok P queued ok c"
  obtain b w where bw: "c = (b, w)" by force
  obtain k w1 where w1: "sys_write P (br_pipe1 b) [0x31] w = (k, w1)" by force
  obtain res w2 where w2: "sys_read P (br_pipe0 b) 128 w = (res, w2)" by force
  have laws: "pipe_laws P (br_pipe0 b) (br_pipe1 b) queued ok" "ok w" "queued w = (if br_broken b then 1 else 0)"
    using c bw by (auto simp: breaker_ok_def)
  have wr: "\<not> br_broken b \<Longrightarrow> k = 1 \<and> ok w1 \<and> queued w1 = 1"
    using pipe_write [OF laws(1,2) _ w1] laws(3) by simp
  have rd: "ok w2 \<and> (res = None \<longleftrightarrow> queued w = 0) \<and> queued w2 = queued w - 128"
    using pipe_read [OF laws(1,2) _ w2] by simp
  show "breaker_ok P queued ok (snd (case c of (b, w) \<Rightarrow> Breaker_Break P b w))"
    using bw laws w1 wr by (auto simp: Breaker_Break_def breaker_ok_def)
  show "fst (case c of (b, w) \<Rightarrow> Breaker_Break P b w) \<and>
      (case snd (case c of (b, w) \<Rightarrow> Breaker_Break P b w) of (b, w) \<Rightarrow> Breaker_IsBreak b)"
    using bw w1 wr by (auto simp: Breaker_Break_def Breaker_IsBreak_def)
  show "breaker_ok P queued ok (snd (case c of (b, w) \<Rightarrow> Breaker_Clear P b w))"
    using bw laws w2 rd by (cases res) (auto simp: Breaker_Clear_def breaker_ok_def split: if_splits)
  show "\<not> (case snd (case c of (b, w) \<Rightarrow> Breaker_Clear P b w) of (b, w) \<Rightarrow> Breaker_IsBreak b) \<and>
      fst (case c of (b, w) \<Rightarrow> Breaker_Clear P b w) = (case c of (b, w) \<Rightarrow> Breaker_IsBreak b)"
    using bw laws(3) w2 rd by (cases res) (auto simp: Breaker_Clear_def Breaker_IsBreak_def split: if_splits)
qed

section \<open>A pipe that is a counter\<close>

definition pipe_posix :: "nat posix" where
  "pipe_posix = quiet_posix\<lparr>sys_write := (\<lambda>fd bs w. (int (length bs), w + length bs)),
     sys_read := (\<lambda>fd n w. if w = 0 then (None, w) else (Some (replicate (min n w) 0x31), w - n)),
     sys_pipe := (\<lambda>w. (Some (3, 4), 0)), sys_getfl := (\<lambda>fd w. (0, w)), sys_setfl := (\<lambda>fd f w. (0, w))\<rparr>"

lemma pipe_posix_laws: "pipe_laws pipe_posix r s (\<lambda>w. w) (\<lambda>w. True)"
  by (simp add: pipe_laws_def pipe_posix_def)

section \<open>Properties\<close>



text \<open>
  C35: A breaker that is rebuilt keeps its flag: if it was signalled, the new pipe is empty and
  \<open>Break\<close> reports success without writing to it, so a thread polling the new pipe is not woken.
\<close>

theorem recreated_breaker_is_silent:
  assumes "br_broken b" "Breaker_ReCreate P b w = (True, b', w')"
  shows "Breaker_Break P b' w' = (True, b', w')"
  using assms by (auto simp: Breaker_ReCreate_def Breaker_Break_def Let_def split: prod.splits option.splits if_splits)

theorem recreated_breaker_is_silent_witness:
  "Breaker_Break pipe_posix \<lparr>br_pipe0 = 3, br_pipe1 = 4, br_broken = True\<rparr> 0 = (True, \<lparr>br_pipe0 = 3, br_pipe1 = 4, br_broken = True\<rparr>, 0)"
  by (rule recreated_breaker_is_silent [of "\<lparr>br_pipe0 = 7, br_pipe1 = 8, br_broken = True\<rparr>" _ 1])
    (simp_all add: Breaker_ReCreate_def pipe_posix_def quiet_posix_def)

end
