(* ===== verification/Polling.thy ===== *)
theory Polling
  imports Breaker
begin

text \<open>
  The three implementations of \<^verbatim>\<open>SocketPollBase\<close> (\<^verbatim>\<open>socket/socket_poll\<close>, \<^verbatim>\<open>socket_epoll\<close>,
  \<^verbatim>\<open>socket_kqueue\<close>) and the wrapper \<^verbatim>\<open>SocketSelect\<close>. The referenced breaker is passed to the
  operations that use it. The locale \<open>poller\<close> is the contract of the virtual interface.
\<close>

section \<open>Updating a vector through find\_if\<close>

text \<open>The element \<^verbatim>\<open>std::find_if\<close> finds is updated in place; if there is none, one is appended.\<close>

fun upd_first :: "('a \<Rightarrow> bool) \<Rightarrow> ('a \<Rightarrow> 'a) \<Rightarrow> 'a \<Rightarrow> 'a list \<Rightarrow> 'a list" where
  "upd_first p f new [] = [new]"
| "upd_first p f new (x # xs) = (if p x then f x # xs else x # upd_first p f new xs)"

lemma find_upd_first:
  assumes "\<And>x. k x = a \<Longrightarrow> k (f x) = a" "k new = a"
  shows "find (\<lambda>x. k x = b) (upd_first (\<lambda>x. k x = a) f new xs) =
     (if b = a then Some (case find (\<lambda>x. k x = a) xs of Some x \<Rightarrow> f x | None \<Rightarrow> new) else find (\<lambda>x. k x = b) xs)"
  using assms by (induction xs) auto

lemma upd_first_nonempty [simp]: "upd_first p f new xs \<noteq> []"
  by (cases xs) auto

lemma upd_first_None: "find p xs = None \<Longrightarrow> upd_first p f new xs = xs @ [new]"
  by (induction xs) (auto split: if_splits)

lemma upd_first_Some: "find p xs \<noteq> None \<Longrightarrow> upd_first p f new xs = upd_first p f new' xs"
  by (induction xs) auto

lemma hd_upd_first: "xs \<noteq> [] \<Longrightarrow> hd (upd_first p f new xs) = (if p (hd xs) then f (hd xs) else hd xs)"
  by (cases xs) auto

section \<open>Event bits\<close>

definition POLLIN :: u16 where "POLLIN = 1"
definition POLLOUT :: u16 where "POLLOUT = 4"
definition POLLERR :: u16 where "POLLERR = 8"
definition POLLHUP :: u16 where "POLLHUP = 16"
definition POLLNVAL :: u16 where "POLLNVAL = 32"

definition EPOLLIN :: u32 where "EPOLLIN = 1"
definition EPOLLOUT :: u32 where "EPOLLOUT = 4"
definition EPOLLERR :: u32 where "EPOLLERR = 8"
definition EPOLLHUP :: u32 where "EPOLLHUP = 16"

definition EV_ADD :: u16 where "EV_ADD = 1"
definition EV_DELETE :: u16 where "EV_DELETE = 2"
definition EV_ENABLE :: u16 where "EV_ENABLE = 4"
definition EV_ERROR :: u16 where "EV_ERROR = 0x4000"
definition EV_EOF :: u16 where "EV_EOF = 0x8000"

lemmas event_bits = POLLIN_def POLLOUT_def POLLERR_def POLLHUP_def POLLNVAL_def EPOLLIN_def EPOLLOUT_def
  EPOLLERR_def EPOLLHUP_def EV_ADD_def EV_DELETE_def EV_ENABLE_def EV_ERROR_def EV_EOF_def

text \<open>\<^verbatim>\<open>x |= bit\<close> and \<^verbatim>\<open>x &= ~bit\<close>.\<close>

definition set_bits :: "'a::len word \<Rightarrow> bool \<Rightarrow> 'a word \<Rightarrow> 'a word" where
  "set_bits m active x = (if active then x OR m else x AND NOT m)"

text \<open>Seconds to milliseconds; anything below -1 polls without waiting.\<close>

definition poll_ms :: "int \<Rightarrow> int" where
  "poll_ms timeout =
     (let t = (if timeout > 0 then timeout * 1000 else timeout) in if t < - 1 then 0 else t)"

section \<open>SocketPoll\<close>

definition PollEvent_Readable :: "pollfd \<Rightarrow> bool" where "PollEvent_Readable e \<longleftrightarrow> pf_revents e AND POLLIN \<noteq> 0"
definition PollEvent_Writable :: "pollfd \<Rightarrow> bool" where "PollEvent_Writable e \<longleftrightarrow> pf_revents e AND POLLOUT \<noteq> 0"
definition PollEvent_HangUp :: "pollfd \<Rightarrow> bool" where "PollEvent_HangUp e \<longleftrightarrow> pf_revents e AND POLLHUP \<noteq> 0"
definition PollEvent_Error :: "pollfd \<Rightarrow> bool" where "PollEvent_Error e \<longleftrightarrow> pf_revents e AND POLLERR \<noteq> 0"
definition PollEvent_Invalid :: "pollfd \<Rightarrow> bool" where "PollEvent_Invalid e \<longleftrightarrow> pf_revents e AND POLLNVAL \<noteq> 0"

record SocketPoll =
  sp_events :: "pollfd list"
  sp_pollEvents :: "pollfd list"
  sp_errno :: int

definition SocketPoll_new :: "SocketBreaker \<Rightarrow> int \<Rightarrow> SocketPoll" where
  "SocketPoll_new b junk =
     \<lparr>sp_events = [\<lparr>pf_fd = Breaker_Fd b, pf_events = POLLIN, pf_revents = 0\<rparr>], sp_pollEvents = [], sp_errno = junk\<rparr>"

definition SocketPoll_AddEvent :: "int \<Rightarrow> bool \<Rightarrow> bool \<Rightarrow> bool \<Rightarrow> SocketPoll \<Rightarrow> SocketPoll" where
  "SocketPoll_AddEvent fd read write error s =
     (let events = (if read then POLLIN else 0) OR (if write then POLLOUT else 0) OR (if error then POLLERR OR POLLNVAL else 0);
          addEvent = \<lparr>pf_fd = fd, pf_events = events, pf_revents = 0\<rparr>
      in s\<lparr>sp_events := upd_first (\<lambda>v. pf_fd v = fd) (\<lambda>_. addEvent) addEvent (sp_events s)\<rparr>)"

definition SocketPoll_ReadEvent :: "int \<Rightarrow> bool \<Rightarrow> SocketPoll \<Rightarrow> SocketPoll" where
  "SocketPoll_ReadEvent fd active s =
     (if find (\<lambda>v. pf_fd v = fd) (sp_events s) = None then SocketPoll_AddEvent fd active False False s
      else s\<lparr>sp_events := upd_first (\<lambda>v. pf_fd v = fd) (\<lambda>v. v\<lparr>pf_events := set_bits POLLIN active (pf_events v)\<rparr>)
               \<lparr>pf_fd = fd, pf_events = 0, pf_revents = 0\<rparr> (sp_events s)\<rparr>)"

definition SocketPoll_WriteEvent :: "int \<Rightarrow> bool \<Rightarrow> SocketPoll \<Rightarrow> SocketPoll" where
  "SocketPoll_WriteEvent fd active s =
     (if find (\<lambda>v. pf_fd v = fd) (sp_events s) = None then SocketPoll_AddEvent fd False active False s
      else s\<lparr>sp_events := upd_first (\<lambda>v. pf_fd v = fd) (\<lambda>v. v\<lparr>pf_events := set_bits POLLOUT active (pf_events v)\<rparr>)
               \<lparr>pf_fd = fd, pf_events = 0, pf_revents = 0\<rparr> (sp_events s)\<rparr>)"

definition SocketPoll_ErrorEvent :: "int \<Rightarrow> bool \<Rightarrow> SocketPoll \<Rightarrow> SocketPoll" where
  "SocketPoll_ErrorEvent fd active s =
     (if find (\<lambda>v. pf_fd v = fd) (sp_events s) = None then SocketPoll_AddEvent fd False False active s
      else s\<lparr>sp_events := upd_first (\<lambda>v. pf_fd v = fd)
               (\<lambda>v. v\<lparr>pf_events := set_bits POLLNVAL active (set_bits POLLERR active (pf_events v))\<rparr>)
               \<lparr>pf_fd = fd, pf_events = 0, pf_revents = 0\<rparr> (sp_events s)\<rparr>)"

definition SocketPoll_ClearEvent :: "SocketPoll \<Rightarrow> SocketPoll" where
  "SocketPoll_ClearEvent s = s\<lparr>sp_events := take 1 (sp_events s)\<rparr>"

definition SocketPoll_Poll :: "'w posix \<Rightarrow> int \<Rightarrow> SocketPoll \<Rightarrow> SocketBreaker \<Rightarrow> 'w \<Rightarrow> (int \<times> SocketPoll \<times> SocketBreaker) \<times> 'w" where
  "SocketPoll_Poll P timeout s b w =
     (let events0 = map (\<lambda>e. e\<lparr>pf_revents := 0\<rparr>) (sp_events s);
          ((r, events1), w1) = sys_poll P events0 (poll_ms timeout) w;
          s1 = s\<lparr>sp_events := events1, sp_errno := (if r < 0 then sys_errno P w1 else 0),
                 sp_pollEvents := (if r > 0 then filter (\<lambda>e. pf_revents e \<noteq> 0) events1 else [])\<rparr>;
          (_, b1, w2) = Breaker_Clear P b w1
      in ((r, s1, b1), w2))"

definition SocketPoll_ReadFdIsSet :: "SocketPoll \<Rightarrow> int \<Rightarrow> bool" where
  "SocketPoll_ReadFdIsSet s fd =
     (case find (\<lambda>e. pf_fd e = fd) (sp_pollEvents s) of None \<Rightarrow> False | Some e \<Rightarrow> PollEvent_Readable e \<or> PollEvent_HangUp e)"

definition SocketPoll_WriteFdIsSet :: "SocketPoll \<Rightarrow> int \<Rightarrow> bool" where
  "SocketPoll_WriteFdIsSet s fd =
     (case find (\<lambda>e. pf_fd e = fd) (sp_pollEvents s) of None \<Rightarrow> False | Some e \<Rightarrow> PollEvent_Writable e)"

definition SocketPoll_ExceptionFdIsSet :: "SocketPoll \<Rightarrow> int \<Rightarrow> bool" where
  "SocketPoll_ExceptionFdIsSet s fd =
     (case find (\<lambda>e. pf_fd e = fd) (sp_pollEvents s) of None \<Rightarrow> False | Some e \<Rightarrow> PollEvent_Error e \<or> PollEvent_Invalid e)"

definition SocketPoll_BreakerIsError :: "SocketPoll \<Rightarrow> bool" where
  "SocketPoll_BreakerIsError s \<longleftrightarrow> PollEvent_Invalid (sp_events s ! 0) \<or> PollEvent_Error (sp_events s ! 0)"

definition SocketPoll_BreakerIsBreak :: "SocketPoll \<Rightarrow> bool" where
  "SocketPoll_BreakerIsBreak s \<longleftrightarrow> PollEvent_Readable (sp_events s ! 0)"

section \<open>SocketEpoll\<close>

definition EpollEvent_Readable :: "epoll_event \<Rightarrow> bool" where "EpollEvent_Readable e \<longleftrightarrow> ev_events e AND EPOLLIN \<noteq> 0"
definition EpollEvent_Writable :: "epoll_event \<Rightarrow> bool" where "EpollEvent_Writable e \<longleftrightarrow> ev_events e AND EPOLLOUT \<noteq> 0"
definition EpollEvent_HangUp :: "epoll_event \<Rightarrow> bool" where "EpollEvent_HangUp e \<longleftrightarrow> ev_events e AND EPOLLHUP \<noteq> 0"
definition EpollEvent_Error :: "epoll_event \<Rightarrow> bool" where "EpollEvent_Error e \<longleftrightarrow> ev_events e AND EPOLLERR \<noteq> 0"

record SocketEpoll =
  se_epfd :: int
  se_events :: "epoll_event list"
  se_pollEvents :: "epoll_event list"
  se_errno :: int

definition epoll_upd :: "u32 \<Rightarrow> int \<Rightarrow> bool \<Rightarrow> SocketEpoll \<Rightarrow> SocketEpoll" where
  "epoll_upd m fd active s =
     s\<lparr>se_events := upd_first (\<lambda>v. ev_fd v = fd) (\<lambda>v. v\<lparr>ev_events := set_bits m active (ev_events v)\<rparr>)
         \<lparr>ev_fd = fd, ev_events = (if active then m else 0)\<rparr> (se_events s)\<rparr>"

definition SocketEpoll_ReadEvent :: "int \<Rightarrow> bool \<Rightarrow> SocketEpoll \<Rightarrow> SocketEpoll" where
  "SocketEpoll_ReadEvent = epoll_upd EPOLLIN"

definition SocketEpoll_WriteEvent :: "int \<Rightarrow> bool \<Rightarrow> SocketEpoll \<Rightarrow> SocketEpoll" where
  "SocketEpoll_WriteEvent = epoll_upd EPOLLOUT"

definition SocketEpoll_ErrorEvent :: "int \<Rightarrow> bool \<Rightarrow> SocketEpoll \<Rightarrow> SocketEpoll" where
  "SocketEpoll_ErrorEvent = epoll_upd EPOLLERR"

definition SocketEpoll_new :: "'w posix \<Rightarrow> SocketBreaker \<Rightarrow> int \<Rightarrow> 'w \<Rightarrow> SocketEpoll \<times> 'w" where
  "SocketEpoll_new P b junk w =
     (let (epfd, w1) = sys_epoll_create P w
      in (SocketEpoll_ReadEvent (Breaker_Fd b) True \<lparr>se_epfd = epfd, se_events = [], se_pollEvents = [], se_errno = junk\<rparr>, w1))"

definition SocketEpoll_delete :: "'w posix \<Rightarrow> SocketEpoll \<Rightarrow> 'w \<Rightarrow> 'w" where
  "SocketEpoll_delete P s w = sys_close P (se_epfd s) w"

definition SocketEpoll_ClearEvent :: "SocketEpoll \<Rightarrow> SocketEpoll" where
  "SocketEpoll_ClearEvent s = s\<lparr>se_events := take 1 (se_events s)\<rparr>"

text \<open>The results of \<^verbatim>\<open>epoll_ctl\<close> are ignored.\<close>

definition SocketEpoll_Poll :: "'w posix \<Rightarrow> int \<Rightarrow> SocketEpoll \<Rightarrow> SocketBreaker \<Rightarrow> 'w \<Rightarrow> (int \<times> SocketEpoll \<times> SocketBreaker) \<times> 'w" where
  "SocketEpoll_Poll P timeout s b w =
     (let w1 = fold (\<lambda>e w. snd (sys_epoll_add P (se_epfd s) e w)) (se_events s) w;
          ((r, retEvents), w2) = sys_epoll_wait P (se_epfd s) (length (se_events s)) (poll_ms timeout) w1;
          s1 = s\<lparr>se_errno := (if r < 0 then sys_errno P w2 else 0),
                 se_pollEvents := (if r > 0 then take (nat r) retEvents else [])\<rparr>;
          (_, b1, w3) = Breaker_Clear P b w2
      in ((r, s1, b1), w3))"

definition SocketEpoll_ReadFdIsSet :: "SocketEpoll \<Rightarrow> int \<Rightarrow> bool" where
  "SocketEpoll_ReadFdIsSet s fd =
     (case find (\<lambda>e. ev_fd e = fd) (se_pollEvents s) of None \<Rightarrow> False | Some e \<Rightarrow> EpollEvent_Readable e \<or> EpollEvent_HangUp e)"

definition SocketEpoll_WriteFdIsSet :: "SocketEpoll \<Rightarrow> int \<Rightarrow> bool" where
  "SocketEpoll_WriteFdIsSet s fd =
     (case find (\<lambda>e. ev_fd e = fd) (se_pollEvents s) of None \<Rightarrow> False | Some e \<Rightarrow> EpollEvent_Writable e)"

definition SocketEpoll_ExceptionFdIsSet :: "SocketEpoll \<Rightarrow> int \<Rightarrow> bool" where
  "SocketEpoll_ExceptionFdIsSet s fd =
     (case find (\<lambda>e. ev_fd e = fd) (se_pollEvents s) of None \<Rightarrow> False | Some e \<Rightarrow> EpollEvent_Error e)"

definition SocketEpoll_BreakerIsError :: "SocketEpoll \<Rightarrow> SocketBreaker \<Rightarrow> bool" where
  "SocketEpoll_BreakerIsError s b = SocketEpoll_ExceptionFdIsSet s (Breaker_Fd b)"

definition SocketEpoll_BreakerIsBreak :: "SocketEpoll \<Rightarrow> SocketBreaker \<Rightarrow> bool" where
  "SocketEpoll_BreakerIsBreak s b = SocketEpoll_ReadFdIsSet s (Breaker_Fd b)"

section \<open>SocketKqueue\<close>

definition KqueueEvent_Readable :: "kevent \<Rightarrow> bool" where "KqueueEvent_Readable e \<longleftrightarrow> ke_filter e = EVFILT_READ"
definition KqueueEvent_Writable :: "kevent \<Rightarrow> bool" where "KqueueEvent_Writable e \<longleftrightarrow> ke_filter e = EVFILT_WRITE"
definition KqueueEvent_Error :: "kevent \<Rightarrow> bool" where "KqueueEvent_Error e \<longleftrightarrow> ke_flags e AND EV_ERROR \<noteq> 0"
definition KqueueEvent_Invalid :: "kevent \<Rightarrow> bool" where "KqueueEvent_Invalid e \<longleftrightarrow> ke_flags e AND EV_EOF \<noteq> 0"

record SocketKqueue =
  sk_kq :: int
  sk_events :: "kevent list"
  sk_pollEvents :: "kevent list"
  sk_errno :: int

definition kqueue_upd :: "kfilter \<Rightarrow> int \<Rightarrow> bool \<Rightarrow> SocketKqueue \<Rightarrow> SocketKqueue" where
  "kqueue_upd flt fd active s =
     (let on = \<lparr>ke_filter = flt, ke_flags = EV_ADD OR EV_ENABLE, ke_udata = fd\<rparr>;
          off = \<lparr>ke_filter = flt, ke_flags = EV_DELETE, ke_udata = fd\<rparr>;
          this = (\<lambda>v. (ke_udata v, ke_filter v) = (fd, flt))
      in if find this (sk_events s) = None
         then (if active then s\<lparr>sk_events := upd_first this (\<lambda>v. v) on (sk_events s)\<rparr> else s)
         else s\<lparr>sk_events := upd_first this (\<lambda>v. if active then on else off) on (sk_events s)\<rparr>)"

definition SocketKqueue_ReadEvent :: "int \<Rightarrow> bool \<Rightarrow> SocketKqueue \<Rightarrow> SocketKqueue" where
  "SocketKqueue_ReadEvent = kqueue_upd EVFILT_READ"

definition SocketKqueue_WriteEvent :: "int \<Rightarrow> bool \<Rightarrow> SocketKqueue \<Rightarrow> SocketKqueue" where
  "SocketKqueue_WriteEvent = kqueue_upd EVFILT_WRITE"

definition SocketKqueue_ErrorEvent :: "int \<Rightarrow> bool \<Rightarrow> SocketKqueue \<Rightarrow> SocketKqueue" where
  "SocketKqueue_ErrorEvent fd active s = s"

definition SocketKqueue_new :: "'w posix \<Rightarrow> SocketBreaker \<Rightarrow> int \<Rightarrow> 'w \<Rightarrow> SocketKqueue \<times> 'w" where
  "SocketKqueue_new P b junk w =
     (let (kq, w1) = sys_kqueue P w
      in (SocketKqueue_ReadEvent (Breaker_Fd b) True \<lparr>sk_kq = kq, sk_events = [], sk_pollEvents = [], sk_errno = junk\<rparr>, w1))"

definition SocketKqueue_delete :: "'w posix \<Rightarrow> SocketKqueue \<Rightarrow> 'w \<Rightarrow> 'w" where
  "SocketKqueue_delete P s w = sys_close P (sk_kq s) w"

definition SocketKqueue_ClearEvent :: "SocketKqueue \<Rightarrow> SocketKqueue" where
  "SocketKqueue_ClearEvent s = s\<lparr>sk_events := take 1 (sk_events s)\<rparr>"

definition SocketKqueue_Poll :: "'w posix \<Rightarrow> int \<Rightarrow> SocketKqueue \<Rightarrow> SocketBreaker \<Rightarrow> 'w \<Rightarrow> (int \<times> SocketKqueue \<times> SocketBreaker) \<times> 'w" where
  "SocketKqueue_Poll P timeout s b w =
     (let t = poll_ms timeout;
          timeSpec = (if t = - 1 then None else Some (t div 1000, (t mod 1000) * 1000 * 1000));
          ((r, retEvents), w1) = sys_kevent P (sk_kq s) (sk_events s) (length (sk_events s)) timeSpec w;
          s1 = s\<lparr>sk_errno := (if r < 0 then sys_errno P w1 else 0),
                 sk_pollEvents := (if r > 0 then take (nat r) retEvents else [])\<rparr>;
          (_, b1, w2) = Breaker_Clear P b w1
      in ((r, s1, b1), w2))"

definition SocketKqueue_ReadFdIsSet :: "SocketKqueue \<Rightarrow> int \<Rightarrow> bool" where
  "SocketKqueue_ReadFdIsSet s fd =
     list_ex (\<lambda>e. ke_udata e = fd \<and> \<not> KqueueEvent_Error e \<and> \<not> KqueueEvent_Invalid e \<and> KqueueEvent_Readable e) (sk_pollEvents s)"

definition SocketKqueue_WriteFdIsSet :: "SocketKqueue \<Rightarrow> int \<Rightarrow> bool" where
  "SocketKqueue_WriteFdIsSet s fd =
     list_ex (\<lambda>e. ke_udata e = fd \<and> \<not> KqueueEvent_Error e \<and> \<not> KqueueEvent_Invalid e \<and> KqueueEvent_Writable e) (sk_pollEvents s)"

definition SocketKqueue_ExceptionFdIsSet :: "SocketKqueue \<Rightarrow> int \<Rightarrow> bool" where
  "SocketKqueue_ExceptionFdIsSet s fd =
     (case find (\<lambda>e. ke_udata e = fd) (sk_pollEvents s) of None \<Rightarrow> False | Some e \<Rightarrow> KqueueEvent_Error e \<or> KqueueEvent_Invalid e)"

definition SocketKqueue_BreakerIsError :: "SocketKqueue \<Rightarrow> SocketBreaker \<Rightarrow> bool" where
  "SocketKqueue_BreakerIsError s b = SocketKqueue_ExceptionFdIsSet s (Breaker_Fd b)"

definition SocketKqueue_BreakerIsBreak :: "SocketKqueue \<Rightarrow> SocketBreaker \<Rightarrow> bool" where
  "SocketKqueue_BreakerIsBreak s b = SocketKqueue_ReadFdIsSet s (Breaker_Fd b)"

section \<open>SocketSelect\<close>

text \<open>
  The constructor picks kqueue on Apple platforms and epoll on the others; the virtual calls
  dispatch on the class.
\<close>

datatype SocketSelect = SelEpoll SocketEpoll | SelKqueue SocketKqueue

definition SocketSelect_new :: "bool \<Rightarrow> 'w posix \<Rightarrow> SocketBreaker \<Rightarrow> int \<Rightarrow> 'w \<Rightarrow> SocketSelect \<times> 'w" where
  "SocketSelect_new apple P b junk w =
     (if apple then (case SocketKqueue_new P b junk w of (s, w1) \<Rightarrow> (SelKqueue s, w1))
      else (case SocketEpoll_new P b junk w of (s, w1) \<Rightarrow> (SelEpoll s, w1)))"

fun SocketSelect_delete :: "'w posix \<Rightarrow> SocketSelect \<Rightarrow> 'w \<Rightarrow> 'w" where
  "SocketSelect_delete P (SelEpoll s) w = SocketEpoll_delete P s w"
| "SocketSelect_delete P (SelKqueue s) w = SocketKqueue_delete P s w"

fun SocketSelect_PreSelect :: "SocketSelect \<Rightarrow> SocketSelect" where
  "SocketSelect_PreSelect (SelEpoll s) = SelEpoll (SocketEpoll_ClearEvent s)"
| "SocketSelect_PreSelect (SelKqueue s) = SelKqueue (SocketKqueue_ClearEvent s)"

fun SocketSelect_SelectFor ::
  "'w posix \<Rightarrow> int \<Rightarrow> SocketSelect \<Rightarrow> SocketBreaker \<Rightarrow> 'w \<Rightarrow> (int \<times> SocketSelect \<times> SocketBreaker) \<times> 'w" where
  "SocketSelect_SelectFor P timeout (SelEpoll s) b w =
     (case SocketEpoll_Poll P timeout s b w of ((r, s', b'), w') \<Rightarrow> ((r, SelEpoll s', b'), w'))"
| "SocketSelect_SelectFor P timeout (SelKqueue s) b w =
     (case SocketKqueue_Poll P timeout s b w of ((r, s', b'), w') \<Rightarrow> ((r, SelKqueue s', b'), w'))"

definition SocketSelect_Select ::
  "'w posix \<Rightarrow> SocketSelect \<Rightarrow> SocketBreaker \<Rightarrow> 'w \<Rightarrow> (int \<times> SocketSelect \<times> SocketBreaker) \<times> 'w" where
  "SocketSelect_Select P = SocketSelect_SelectFor P (- 1)"

fun SocketSelect_ReadFdSet :: "int \<Rightarrow> SocketSelect \<Rightarrow> SocketSelect" where
  "SocketSelect_ReadFdSet fd (SelEpoll s) = SelEpoll (SocketEpoll_ReadEvent fd True s)"
| "SocketSelect_ReadFdSet fd (SelKqueue s) = SelKqueue (SocketKqueue_ReadEvent fd True s)"

fun SocketSelect_WriteFdSet :: "int \<Rightarrow> SocketSelect \<Rightarrow> SocketSelect" where
  "SocketSelect_WriteFdSet fd (SelEpoll s) = SelEpoll (SocketEpoll_WriteEvent fd True s)"
| "SocketSelect_WriteFdSet fd (SelKqueue s) = SelKqueue (SocketKqueue_WriteEvent fd True s)"

fun SocketSelect_ExceptionFdSet :: "int \<Rightarrow> SocketSelect \<Rightarrow> SocketSelect" where
  "SocketSelect_ExceptionFdSet fd (SelEpoll s) = SelEpoll (SocketEpoll_ErrorEvent fd True s)"
| "SocketSelect_ExceptionFdSet fd (SelKqueue s) = SelKqueue (SocketKqueue_ErrorEvent fd True s)"

fun SocketSelect_ReadFdIsSet :: "SocketSelect \<Rightarrow> int \<Rightarrow> bool" where
  "SocketSelect_ReadFdIsSet (SelEpoll s) fd = SocketEpoll_ReadFdIsSet s fd"
| "SocketSelect_ReadFdIsSet (SelKqueue s) fd = SocketKqueue_ReadFdIsSet s fd"

fun SocketSelect_WriteFdIsSet :: "SocketSelect \<Rightarrow> int \<Rightarrow> bool" where
  "SocketSelect_WriteFdIsSet (SelEpoll s) fd = SocketEpoll_WriteFdIsSet s fd"
| "SocketSelect_WriteFdIsSet (SelKqueue s) fd = SocketKqueue_WriteFdIsSet s fd"

fun SocketSelect_ExceptionFdIsSet :: "SocketSelect \<Rightarrow> int \<Rightarrow> bool" where
  "SocketSelect_ExceptionFdIsSet (SelEpoll s) fd = SocketEpoll_ExceptionFdIsSet s fd"
| "SocketSelect_ExceptionFdIsSet (SelKqueue s) fd = SocketKqueue_ExceptionFdIsSet s fd"

fun SocketSelect_IsBreak :: "SocketSelect \<Rightarrow> SocketBreaker \<Rightarrow> bool" where
  "SocketSelect_IsBreak (SelEpoll s) b = SocketEpoll_BreakerIsBreak s b"
| "SocketSelect_IsBreak (SelKqueue s) b = SocketKqueue_BreakerIsBreak s b"

fun SocketSelect_IsException :: "SocketSelect \<Rightarrow> SocketBreaker \<Rightarrow> bool" where
  "SocketSelect_IsException (SelEpoll s) b = SocketEpoll_BreakerIsError s b"
| "SocketSelect_IsException (SelKqueue s) b = SocketKqueue_BreakerIsError s b"

fun SocketSelect_GetErrno :: "SocketSelect \<Rightarrow> int" where
  "SocketSelect_GetErrno (SelEpoll s) = se_errno s"
| "SocketSelect_GetErrno (SelKqueue s) = sk_errno s"

section \<open>The contract of a poller\<close>

text \<open>
  \<open>reads p fd\<close>, \<open>writes p fd\<close>: the next poll waits for \<open>fd\<close> to become readable, writable. The first
  entry, for the descriptor \<open>bfd\<close> of the breaker, is the one \<^verbatim>\<open>ClearEvent\<close> keeps.
\<close>

locale poller =
  fixes rd :: "int \<Rightarrow> 'p \<Rightarrow> 'p"
    and wr :: "int \<Rightarrow> 'p \<Rightarrow> 'p"
    and err :: "int \<Rightarrow> 'p \<Rightarrow> 'p"
    and clr :: "'p \<Rightarrow> 'p"
    and reads :: "'p \<Rightarrow> int \<Rightarrow> bool"
    and writes :: "'p \<Rightarrow> int \<Rightarrow> bool"
    and guards :: "'p \<Rightarrow> bool"
    and bfd :: int
  assumes reads_rd: "reads (rd fd p) fd' \<longleftrightarrow> fd' = fd \<or> reads p fd'"
    and reads_wr: "reads (wr fd p) fd' \<longleftrightarrow> reads p fd'"
    and reads_err: "reads (err fd p) fd' \<longleftrightarrow> reads p fd'"
    and writes_rd: "writes (rd fd p) fd' \<longleftrightarrow> writes p fd'"
    and writes_wr: "writes (wr fd p) fd' \<longleftrightarrow> fd' = fd \<or> writes p fd'"
    and writes_err: "writes (err fd p) fd' \<longleftrightarrow> writes p fd'"
    and guards_rd: "guards p \<Longrightarrow> guards (rd fd p)"
    and guards_wr: "guards p \<Longrightarrow> guards (wr fd p)"
    and guards_err: "guards p \<Longrightarrow> guards (err fd p)"
    and guards_clr: "guards p \<Longrightarrow> guards (clr p)"
    and guards_reads: "guards p \<Longrightarrow> reads p bfd"
    and clr_reads: "guards p \<Longrightarrow> reads (clr p) fd \<longleftrightarrow> fd = bfd"
    and clr_writes: "guards p \<Longrightarrow> writes (clr p) fd \<Longrightarrow> fd = bfd"
begin

text \<open>The interest set of the read-write loop: the socket, and the breaker.\<close>

lemma loop_interest:
  assumes "guards p"
  shows "guards (err fd (rd fd (clr p)))"
    and "reads (err fd (rd fd (clr p))) x \<longleftrightarrow> x = fd \<or> x = bfd"
    and "writes (wr fd (err fd (rd fd (clr p)))) x \<Longrightarrow> x = fd \<or> x = bfd"
    and "writes (wr fd (err fd (rd fd (clr p)))) fd"
    and "x \<noteq> bfd \<Longrightarrow> \<not> writes (err fd (rd fd (clr p))) x"
  using assms by (auto simp: reads_rd reads_err writes_rd writes_wr writes_err clr_reads guards_rd guards_err guards_clr dest: clr_writes)

end

section \<open>The three classes meet it\<close>

definition wants :: "('e \<Rightarrow> 'k) \<Rightarrow> ('e \<Rightarrow> bool) \<Rightarrow> 'e list \<Rightarrow> 'k \<Rightarrow> bool" where
  "wants k test es x \<longleftrightarrow> (case find (\<lambda>e. k e = x) es of None \<Rightarrow> False | Some e \<Rightarrow> test e)"

lemma wants_upd_same:
  assumes "\<And>x. k x = a \<Longrightarrow> k (f x) = a" "k new = a" "\<And>x. test (f x)" "test new"
  shows "wants k test (upd_first (\<lambda>x. k x = a) f new es) b \<longleftrightarrow> b = a \<or> wants k test es b"
  using find_upd_first [of k a f new b es, OF assms(1,2)] assms(3,4) by (auto simp: wants_def split: option.splits)

lemma wants_upd_other:
  assumes "\<And>x. k x = a \<Longrightarrow> k (f x) = a" "k new = a" "\<And>x. test (f x) = test x" "\<not> test new"
  shows "wants k test (upd_first (\<lambda>x. k x = a) f new es) b \<longleftrightarrow> wants k test es b"
  using find_upd_first [of k a f new b es, OF assms(1,2)] assms(3,4) by (auto simp: wants_def split: option.splits)

lemma wants_take_1: "es \<noteq> [] \<Longrightarrow> wants k test (take (Suc 0) es) x \<longleftrightarrow> k (hd es) = x \<and> test (hd es)"
  by (cases es) (auto simp: wants_def)

lemma wants_hd: "es \<noteq> [] \<Longrightarrow> test (hd es) \<Longrightarrow> wants k test es (k (hd es))"
  by (cases es) (auto simp: wants_def)

lemma or_and_self: "(x OR m) AND m = (m :: 'a::len word)"
  by (rule bit_word_eqI) (auto simp: bit_simps)

lemma event_bit_laws:
  "(x OR EPOLLIN) AND EPOLLIN \<noteq> 0" "(x OR EPOLLOUT) AND EPOLLOUT \<noteq> 0"
  "(x OR EPOLLOUT) AND EPOLLIN = x AND EPOLLIN" "(x OR EPOLLERR) AND EPOLLIN = x AND EPOLLIN"
  "(x OR EPOLLIN) AND EPOLLOUT = x AND EPOLLOUT" "(x OR EPOLLERR) AND EPOLLOUT = x AND EPOLLOUT"
  "(y OR POLLIN) AND POLLIN \<noteq> 0" "(y OR POLLOUT) AND POLLOUT \<noteq> 0"
  "(y OR POLLOUT) AND POLLIN = y AND POLLIN" "((y OR POLLERR) OR POLLNVAL) AND POLLIN = y AND POLLIN"
  "(y OR POLLIN) AND POLLOUT = y AND POLLOUT" "((y OR POLLERR) OR POLLNVAL) AND POLLOUT = y AND POLLOUT"
  by (simp_all add: or_and_self, simp_all add: event_bits bit.conj_disj_distrib2)

lemma event_bit_values:
  "EPOLLIN \<noteq> 0" "EPOLLOUT \<noteq> 0" "EPOLLOUT AND EPOLLIN = 0" "EPOLLERR AND EPOLLIN = 0" "EPOLLIN AND EPOLLOUT = 0"
  "EPOLLERR AND EPOLLOUT = 0" "POLLIN \<noteq> 0" "POLLOUT \<noteq> 0" "POLLOUT AND POLLIN = 0" "POLLIN AND POLLOUT = 0"
  "(POLLERR OR POLLNVAL) AND POLLIN = 0" "(POLLERR OR POLLNVAL) AND POLLOUT = 0"
  "(EV_ADD OR EV_ENABLE) AND EV_DELETE = 0"
  by (simp_all add: event_bits)

interpretation epoll: poller
  "\<lambda>fd. SocketEpoll_ReadEvent fd True" "\<lambda>fd. SocketEpoll_WriteEvent fd True" "\<lambda>fd. SocketEpoll_ErrorEvent fd True"
  SocketEpoll_ClearEvent
  "\<lambda>p. wants ev_fd EpollEvent_Readable (se_events p)" "\<lambda>p. wants ev_fd EpollEvent_Writable (se_events p)"
  "\<lambda>p. se_events p \<noteq> [] \<and> ev_fd (hd (se_events p)) = bfd \<and> EpollEvent_Readable (hd (se_events p))" bfd
  for bfd
  by unfold_locales
    (auto simp: SocketEpoll_ReadEvent_def SocketEpoll_WriteEvent_def SocketEpoll_ErrorEvent_def SocketEpoll_ClearEvent_def
      epoll_upd_def set_bits_def wants_upd_same wants_upd_other hd_upd_first wants_take_1 wants_hd
      EpollEvent_Readable_def EpollEvent_Writable_def event_bit_laws event_bit_values)

lemma SocketPoll_events:
  "sp_events (SocketPoll_ReadEvent fd True s) = upd_first (\<lambda>v. pf_fd v = fd) (\<lambda>v. v\<lparr>pf_events := pf_events v OR POLLIN\<rparr>)
     \<lparr>pf_fd = fd, pf_events = POLLIN, pf_revents = 0\<rparr> (sp_events s)"
  "sp_events (SocketPoll_WriteEvent fd True s) = upd_first (\<lambda>v. pf_fd v = fd) (\<lambda>v. v\<lparr>pf_events := pf_events v OR POLLOUT\<rparr>)
     \<lparr>pf_fd = fd, pf_events = POLLOUT, pf_revents = 0\<rparr> (sp_events s)"
  "sp_events (SocketPoll_ErrorEvent fd True s) = upd_first (\<lambda>v. pf_fd v = fd) (\<lambda>v. v\<lparr>pf_events := (pf_events v OR POLLERR) OR POLLNVAL\<rparr>)
     \<lparr>pf_fd = fd, pf_events = POLLERR OR POLLNVAL, pf_revents = 0\<rparr> (sp_events s)"
  by (cases "find (\<lambda>v. pf_fd v = fd) (sp_events s) = None";
      simp add: SocketPoll_ReadEvent_def SocketPoll_WriteEvent_def SocketPoll_ErrorEvent_def SocketPoll_AddEvent_def
        set_bits_def upd_first_None upd_first_Some)+

interpretation poll: poller
  "\<lambda>fd. SocketPoll_ReadEvent fd True" "\<lambda>fd. SocketPoll_WriteEvent fd True" "\<lambda>fd. SocketPoll_ErrorEvent fd True"
  SocketPoll_ClearEvent
  "\<lambda>p. wants pf_fd (\<lambda>e. pf_events e AND POLLIN \<noteq> 0) (sp_events p)"
  "\<lambda>p. wants pf_fd (\<lambda>e. pf_events e AND POLLOUT \<noteq> 0) (sp_events p)"
  "\<lambda>p. sp_events p \<noteq> [] \<and> pf_fd (hd (sp_events p)) = bfd \<and> pf_events (hd (sp_events p)) AND POLLIN \<noteq> 0" bfd
  for bfd
  by unfold_locales
    (auto simp: SocketPoll_events SocketPoll_ClearEvent_def wants_upd_same wants_upd_other hd_upd_first wants_take_1 wants_hd
      event_bit_laws event_bit_values)

abbreviation kq_key :: "kevent \<Rightarrow> int \<times> kfilter" where
  "kq_key e \<equiv> (ke_udata e, ke_filter e)"

lemma kqueue_events:
  "sk_events (kqueue_upd flt fd True s) = upd_first (\<lambda>v. kq_key v = (fd, flt))
     (\<lambda>v. \<lparr>ke_filter = flt, ke_flags = EV_ADD OR EV_ENABLE, ke_udata = fd\<rparr>)
     \<lparr>ke_filter = flt, ke_flags = EV_ADD OR EV_ENABLE, ke_udata = fd\<rparr> (sk_events s)"
  by (cases "find (\<lambda>v. kq_key v = (fd, flt)) (sk_events s) = None") (simp_all add: kqueue_upd_def Let_def upd_first_None)

lemma kqueue_wants:
  "wants kq_key (\<lambda>e. ke_flags e AND EV_DELETE = 0) (sk_events (kqueue_upd flt fd True s)) (fd', flt') \<longleftrightarrow>
     (fd', flt') = (fd, flt) \<or> wants kq_key (\<lambda>e. ke_flags e AND EV_DELETE = 0) (sk_events s) (fd', flt')"
  unfolding kqueue_events by (subst wants_upd_same [of kq_key]) (simp_all add: event_bit_values)

lemma kqueue_hd:
  "sk_events s \<noteq> [] \<Longrightarrow> kq_key (hd (sk_events s)) = (bfd, EVFILT_READ) \<Longrightarrow> ke_flags (hd (sk_events s)) AND EV_DELETE = 0 \<Longrightarrow>
     sk_events (kqueue_upd flt fd True s) \<noteq> [] \<and> kq_key (hd (sk_events (kqueue_upd flt fd True s))) = (bfd, EVFILT_READ) \<and>
     ke_flags (hd (sk_events (kqueue_upd flt fd True s))) AND EV_DELETE = 0"
  unfolding kqueue_events by (auto simp: hd_upd_first event_bit_values)

interpretation kqueue: poller
  "\<lambda>fd. SocketKqueue_ReadEvent fd True" "\<lambda>fd. SocketKqueue_WriteEvent fd True" "\<lambda>fd. SocketKqueue_ErrorEvent fd True"
  SocketKqueue_ClearEvent
  "\<lambda>p fd. wants kq_key (\<lambda>e. ke_flags e AND EV_DELETE = 0) (sk_events p) (fd, EVFILT_READ)"
  "\<lambda>p fd. wants kq_key (\<lambda>e. ke_flags e AND EV_DELETE = 0) (sk_events p) (fd, EVFILT_WRITE)"
  "\<lambda>p. sk_events p \<noteq> [] \<and> kq_key (hd (sk_events p)) = (bfd, EVFILT_READ) \<and> ke_flags (hd (sk_events p)) AND EV_DELETE = 0" bfd
  for bfd
proof (unfold_locales, goal_cases)
  case (11 p)
  then show ?case using wants_hd [of "sk_events p" "\<lambda>e. ke_flags e AND EV_DELETE = 0" kq_key] by simp
qed (simp_all add: SocketKqueue_ReadEvent_def SocketKqueue_WriteEvent_def SocketKqueue_ErrorEvent_def SocketKqueue_ClearEvent_def
      kqueue_wants kqueue_hd wants_take_1, auto simp: wants_take_1)

section \<open>Properties\<close>

datatype sel_op = PreSelect | ReadFdSet int | WriteFdSet int | ExceptionFdSet int

fun sel_apply :: "sel_op \<Rightarrow> SocketSelect \<Rightarrow> SocketSelect" where
  "sel_apply PreSelect s = SocketSelect_PreSelect s"
| "sel_apply (ReadFdSet fd) s = SocketSelect_ReadFdSet fd s"
| "sel_apply (WriteFdSet fd) s = SocketSelect_WriteFdSet fd s"
| "sel_apply (ExceptionFdSet fd) s = SocketSelect_ExceptionFdSet fd s"

text \<open>What the next \<^verbatim>\<open>Select\<close> waits for.\<close>

fun sel_reads :: "SocketSelect \<Rightarrow> int \<Rightarrow> bool" where
  "sel_reads (SelEpoll p) fd = wants ev_fd EpollEvent_Readable (se_events p) fd"
| "sel_reads (SelKqueue p) fd = wants kq_key (\<lambda>e. ke_flags e AND EV_DELETE = 0) (sk_events p) (fd, EVFILT_READ)"

fun sel_writes :: "SocketSelect \<Rightarrow> int \<Rightarrow> bool" where
  "sel_writes (SelEpoll p) fd = wants ev_fd EpollEvent_Writable (se_events p) fd"
| "sel_writes (SelKqueue p) fd = wants kq_key (\<lambda>e. ke_flags e AND EV_DELETE = 0) (sk_events p) (fd, EVFILT_WRITE)"

fun sel_guards :: "int \<Rightarrow> SocketSelect \<Rightarrow> bool" where
  "sel_guards bfd (SelEpoll p) \<longleftrightarrow> se_events p \<noteq> [] \<and> ev_fd (hd (se_events p)) = bfd \<and> EpollEvent_Readable (hd (se_events p))"
| "sel_guards bfd (SelKqueue p) \<longleftrightarrow>
     sk_events p \<noteq> [] \<and> kq_key (hd (sk_events p)) = (bfd, EVFILT_READ) \<and> ke_flags (hd (sk_events p)) AND EV_DELETE = 0"

interpretation sel: poller SocketSelect_ReadFdSet SocketSelect_WriteFdSet SocketSelect_ExceptionFdSet SocketSelect_PreSelect
  sel_reads sel_writes "sel_guards bfd" bfd
  for bfd
proof (unfold_locales, goal_cases)
  case (1 fd p fd') then show ?case by (cases p) (simp_all add: epoll.reads_rd kqueue.reads_rd)
next
  case (2 fd p fd') then show ?case by (cases p) (simp_all add: epoll.reads_wr kqueue.reads_wr)
next
  case (3 fd p fd') then show ?case by (cases p) (simp_all add: epoll.reads_err kqueue.reads_err)
next
  case (4 fd p fd') then show ?case by (cases p) (simp_all add: epoll.writes_rd kqueue.writes_rd)
next
  case (5 fd p fd') then show ?case by (cases p) (simp_all add: epoll.writes_wr kqueue.writes_wr)
next
  case (6 fd p fd') then show ?case by (cases p) (simp_all add: epoll.writes_err kqueue.writes_err)
next
  case (7 p fd) then show ?case
    using epoll.guards_rd [of _ bfd fd] kqueue.guards_rd [of _ bfd fd] by (cases p) auto
next
  case (8 p fd) then show ?case
    using epoll.guards_wr [of _ bfd fd] kqueue.guards_wr [of _ bfd fd] by (cases p) auto
next
  case (9 p fd) then show ?case
    using epoll.guards_err [of _ bfd fd] kqueue.guards_err [of _ bfd fd] by (cases p) auto
next
  case (10 p) then show ?case
    using epoll.guards_clr [of _ bfd] kqueue.guards_clr [of _ bfd] by (cases p) auto
next
  case (11 p) then show ?case
    using epoll.guards_reads [of _ bfd] kqueue.guards_reads [of _ bfd] by (cases p) auto
next
  case (12 p fd) then show ?case
    using epoll.clr_reads [of _ bfd fd] kqueue.clr_reads [of _ bfd fd] by (cases p) auto
next
  case (13 p fd) then show ?case
    using epoll.clr_writes [of _ bfd fd] kqueue.clr_writes [of _ bfd fd] by (cases p) auto
qed

lemma SocketSelect_new_guards:
  "SocketSelect_new apple P b junk w = (s, w') \<Longrightarrow> sel_guards (Breaker_Fd b) s"
  by (auto simp: SocketSelect_new_def SocketKqueue_new_def SocketEpoll_new_def SocketKqueue_ReadEvent_def SocketEpoll_ReadEvent_def
      kqueue_events epoll_upd_def EpollEvent_Readable_def event_bit_values split: if_splits prod.splits)

lemma sel_apply_guards: "sel_guards bfd s \<Longrightarrow> sel_guards bfd (fold sel_apply ops s)"
proof (induction ops arbitrary: s)
  case (Cons op ops)
  have "sel_guards bfd (sel_apply op s)"
    using Cons.prems by (cases op) (simp_all add: sel.guards_rd sel.guards_wr sel.guards_err sel.guards_clr)
  from Cons.IH [OF this] show ?case by simp
qed simp

text \<open>
  On either platform, whatever has been registered before, a loop iteration that clears the
  selector and registers a socket for reading and errors waits for exactly the socket and the
  breaker to become readable, and for the socket to become writable exactly if it asks for it.
\<close>

theorem select_interest:
  assumes "SocketSelect_new apple P b junk w = (s0, w')" "fd \<noteq> Breaker_Fd b"
    and "s = SocketSelect_ExceptionFdSet fd (SocketSelect_ReadFdSet fd (SocketSelect_PreSelect (fold sel_apply ops s0)))"
  shows "(sel_reads s x \<longleftrightarrow> x = fd \<or> x = Breaker_Fd b) \<and> \<not> sel_writes s fd \<and> sel_writes (SocketSelect_WriteFdSet fd s) fd \<and>
     (sel_reads (SocketSelect_WriteFdSet fd s) x \<longleftrightarrow> x = fd \<or> x = Breaker_Fd b)"
proof -
  have g: "sel_guards (Breaker_Fd b) (fold sel_apply ops s0)"
    using sel_apply_guards [OF SocketSelect_new_guards [OF assms(1)]] .
  show ?thesis
    unfolding assms(3) using sel.loop_interest [OF g, of fd] assms(2) by (simp add: sel.reads_wr)
qed

theorem select_interest_witness:
  "let s0 = fst (SocketSelect_new False quiet_posix \<lparr>br_pipe0 = 3, br_pipe1 = 4, br_broken = False\<rparr> 0 ());
       s = SocketSelect_ExceptionFdSet 7 (SocketSelect_ReadFdSet 7 (SocketSelect_PreSelect (fold sel_apply [WriteFdSet 9] s0)))
   in sel_reads s 7 \<and> sel_reads s 3 \<and> \<not> sel_reads s 9 \<and> \<not> sel_writes s 7"
proof -
  let ?b = "\<lparr>br_pipe0 = 3, br_pipe1 = 4, br_broken = False\<rparr>"
  obtain s0 w' where n: "SocketSelect_new False quiet_posix ?b 0 () = (s0, w')" by (metis surj_pair)
  have bfd: "Breaker_Fd ?b = 3" by (simp add: Breaker_Fd_def)
  note i = select_interest [OF n, unfolded bfd, OF _ refl, of 7 "[WriteFdSet 9]"]
  show ?thesis using i [of 7] i [of 3] i [of 9] n by (simp only: Let_def fst_conv) simp
qed

text \<open>The polling calls leave the breaker's pipe alone.\<close>

definition polls_apart :: "'w posix \<Rightarrow> ('w \<Rightarrow> nat) \<Rightarrow> ('w \<Rightarrow> bool) \<Rightarrow> bool" where
  "polls_apart P queued ok \<longleftrightarrow>
     (\<forall>w ep e. ok w \<longrightarrow> ok (snd (sys_epoll_add P ep e w)) \<and> queued (snd (sys_epoll_add P ep e w)) = queued w) \<and>
     (\<forall>w ep n t. ok w \<longrightarrow> ok (snd (sys_epoll_wait P ep n t w)) \<and> queued (snd (sys_epoll_wait P ep n t w)) = queued w) \<and>
     (\<forall>w kq es n t. ok w \<longrightarrow> ok (snd (sys_kevent P kq es n t w)) \<and> queued (snd (sys_kevent P kq es n t w)) = queued w)"

lemma fold_epoll_add:
  "polls_apart P queued ok \<Longrightarrow> ok w \<Longrightarrow>
     ok (fold (\<lambda>e w. snd (sys_epoll_add P ep e w)) es w) \<and> queued (fold (\<lambda>e w. snd (sys_epoll_add P ep e w)) es w) = queued w"
  by (induction es arbitrary: w) (auto simp: polls_apart_def)

text \<open>
  However a select ends (events, timeout or error), the breaker's signal is consumed by it and
  the pipe is empty afterwards; after a timeout or an error no descriptor is reported ready,
  and the saved errno is 0 unless the call failed.
\<close>

theorem select_consumes_signal:
  assumes "polls_apart P queued ok" "breaker_ok P queued ok (b, w)"
    and "SocketSelect_SelectFor P timeout s b w = ((r, s', b'), w')"
  shows "breaker_ok P queued ok (b', w') \<and> \<not> Breaker_IsBreak b' \<and> queued w' = 0 \<and>
     (r \<le> 0 \<longrightarrow> \<not> SocketSelect_ReadFdIsSet s' fd \<and> \<not> SocketSelect_WriteFdIsSet s' fd \<and> \<not> SocketSelect_ExceptionFdIsSet s' fd \<and>
       \<not> SocketSelect_IsBreak s' b') \<and>
     (r \<ge> 0 \<longrightarrow> SocketSelect_GetErrno s' = 0)"
proof -
  have clear: "breaker_ok P queued ok (b1, w2) \<and> \<not> Breaker_IsBreak b1 \<and> queued w2 = 0"
    if "Breaker_Clear P b u = (x, b1, w2)" "ok u" "queued u = queued w" for u x b1 w2
  proof -
    have "breaker_ok P queued ok (b, u)" using assms(2) that(2,3) by (simp add: breaker_ok_def)
    from breaker.clear_ok [OF this] breaker.clear_resets [OF this] that(1)
    show ?thesis by (auto simp: breaker_ok_def Breaker_IsBreak_def)
  qed
  have ok: "ok w" using assms(2) by (simp add: breaker_ok_def)
  show ?thesis
  proof (cases s)
    case (SelEpoll p)
    let ?w1 = "fold (\<lambda>e w. snd (sys_epoll_add P (se_epfd p) e w)) (se_events p) w"
    obtain q es w2 where e: "sys_epoll_wait P (se_epfd p) (length (se_events p)) (poll_ms timeout) ?w1 = ((q, es), w2)"
      by (metis prod.collapse)
    have "ok w2 \<and> queued w2 = queued w"
      using fold_epoll_add [OF assms(1) ok] assms(1) e unfolding polls_apart_def by (metis snd_conv)
    with SelEpoll assms(3) e clear [of w2] show ?thesis
      by (auto simp: SocketEpoll_Poll_def Let_def SocketEpoll_ReadFdIsSet_def SocketEpoll_WriteFdIsSet_def
          SocketEpoll_ExceptionFdIsSet_def SocketEpoll_BreakerIsBreak_def split: prod.splits)
  next
    case (SelKqueue p)
    define ts where "ts = (if poll_ms timeout = - 1 then None else Some (poll_ms timeout div 1000, (poll_ms timeout mod 1000) * 1000 * 1000))"
    obtain q es w2 where e: "sys_kevent P (sk_kq p) (sk_events p) (length (sk_events p)) ts w = ((q, es), w2)"
      by (metis prod.collapse)
    have "ok w2 \<and> queued w2 = queued w"
      using assms(1) ok e unfolding polls_apart_def by (metis snd_conv)
    with SelKqueue assms(3) e clear [of w2] show ?thesis
      by (auto simp: SocketKqueue_Poll_def Let_def ts_def SocketKqueue_ReadFdIsSet_def SocketKqueue_WriteFdIsSet_def
          SocketKqueue_ExceptionFdIsSet_def SocketKqueue_BreakerIsBreak_def split: prod.splits)
  qed
qed

theorem select_consumes_signal_witness:
  "let b = \<lparr>br_pipe0 = 3, br_pipe1 = 4, br_broken = True\<rparr>;
       ((r, s', b'), w') = SocketSelect_SelectFor pipe_posix 2 (fst (SocketSelect_new False pipe_posix b 0 1)) b 1
   in \<not> Breaker_IsBreak b' \<and> w' = 0"
proof -
  let ?b = "\<lparr>br_pipe0 = 3, br_pipe1 = 4, br_broken = True\<rparr>"
  let ?s = "fst (SocketSelect_new False pipe_posix ?b 0 1)"
  obtain r s' b' w' where e: "SocketSelect_SelectFor pipe_posix 2 ?s ?b 1 = ((r, s', b'), w')" by (metis prod.collapse)
  have a: "polls_apart pipe_posix (\<lambda>w. w) (\<lambda>w. True)" by (simp add: polls_apart_def pipe_posix_def quiet_posix_def)
  have k: "breaker_ok pipe_posix (\<lambda>w. w) (\<lambda>w. True) (?b, 1)" by (simp add: breaker_ok_def pipe_posix_laws)
  from select_consumes_signal [OF a k e] e show ?thesis by simp
qed

end
