(* ===== verification/Connectors.thy ===== *)
theory Connectors
  imports Polling Sockets
begin

text \<open>
  \<^verbatim>\<open>connect/tcp_connector\<close>, \<^verbatim>\<open>connect/ssl_connector\<close> and \<^verbatim>\<open>connect/complex_connect\<close>: non-blocking
  connection attempts as state machines driven by a selector, and the loop that races several
  of them. The static \<^verbatim>\<open>_ctx\<close> of the TLS sockets is the value \<open>ctx\<close>. A null pointer that is
  dereferenced is the fault \<open>Undefined\<close>.
\<close>

section \<open>Connectors\<close>

record AddrInfo =
  ai_ip :: string
  ai_port :: u16
  ai_isTls :: bool

datatype ConnectorStatus =
    ConnStatusStart
  | ConnStatusConnecting
  | ConnStatusError
  | ConnStatusStartSSL
  | ConnStatusSSLConnecting
  | ConnStatusConnected
  | ConnStatusEnd

text \<open>\<open>tc_ssl\<close>: the object is of class \<^verbatim>\<open>SSLConnector\<close>.\<close>

record TcpConnector =
  tc_ssl :: bool
  tc_addr :: AddrInfo
  tc_socket :: "socket_obj option"
  tc_status :: ConnectorStatus
  tc_index :: nat
  tc_connTimeout :: u32
  tc_startConnTime :: u64
  tc_endConnTime :: u64

text \<open>\<^verbatim>\<open>_endConnTime\<close> is not initialised.\<close>

definition Connector_new :: "bool \<Rightarrow> AddrInfo \<Rightarrow> nat \<Rightarrow> u32 \<Rightarrow> u64 \<Rightarrow> TcpConnector" where
  "Connector_new ssl addr i connTimeout junk =
     \<lparr>tc_ssl = ssl, tc_addr = addr, tc_socket = None, tc_status = ConnStatusStart, tc_index = i,
      tc_connTimeout = connTimeout, tc_startConnTime = 0, tc_endConnTime = junk\<rparr>"

definition INT_MAX :: int where
  "INT_MAX = 2147483647"

text \<open>\<^verbatim>\<open>(int)x\<close> of a 64-bit value: the low 32 bits, signed.\<close>

definition to_int :: "u64 \<Rightarrow> int" where
  "to_int x = sint (ucast x :: u32)"

definition Connector_Timeout :: "'w posix \<Rightarrow> TcpConnector \<Rightarrow> 'w \<Rightarrow> int \<times> 'w" where
  "Connector_Timeout P c w =
     (if tc_status c = ConnStatusConnecting \<or> tc_status c = ConnStatusSSLConnecting
      then (case sys_tick P w of (now, w') \<Rightarrow> (to_int (tc_startConnTime c + ucast (tc_connTimeout c) - now), w'))
      else if tc_status c = ConnStatusError \<or> tc_status c = ConnStatusConnected then (0, w)
      else (INT_MAX, w))"

definition Connector_Close :: "'w posix \<Rightarrow> TcpConnector \<Rightarrow> 'w \<Rightarrow> TcpConnector \<times> 'w" where
  "Connector_Close P c w =
     (case tc_socket c of
        None \<Rightarrow> (c, w)
      | Some so \<Rightarrow> (case Socket_Close P so w of (_, w') \<Rightarrow> (c\<lparr>tc_socket := None, tc_status := ConnStatusEnd\<rparr>, w')))"

text \<open>The virtual \<^verbatim>\<open>__NewSocket\<close>.\<close>

definition Connector_NewSocket :: "TcpConnector \<Rightarrow> int \<Rightarrow> socket_obj" where
  "Connector_NewSocket c fd = (if tc_ssl c then SecureSocket (SSLSocket_new fd) else PlainSocket (TcpSocket_new fd))"

definition PreConnectSelect :: "'w posix \<Rightarrow> TcpConnector \<Rightarrow> SocketSelect \<Rightarrow> 'w \<Rightarrow> (TcpConnector \<times> SocketSelect) \<times> 'w" where
  "PreConnectSelect P c sel w =
     (let (fd, w1) = sys_socket P w
      in if fd = INVALID_SOCKET then ((c\<lparr>tc_status := ConnStatusError\<rparr>, sel), w1)
         else if ai_ip (tc_addr c) = '''' then ((c\<lparr>tc_status := ConnStatusError\<rparr>, sel), w1)
         else let (r, w2) = socket_set_noblo P fd w1
              in if r \<noteq> 0 then ((c\<lparr>tc_status := ConnStatusError\<rparr>, sel), w2)
                 else let (now, w3) = sys_tick P w2;
                          c1 = c\<lparr>tc_startConnTime := now\<rparr>;
                          (r', w4) = sys_connect P fd (ai_ip (tc_addr c)) (ai_port (tc_addr c)) w3
                      in if r' \<noteq> 0 \<and> sys_errno P w4 \<noteq> c_EINPROGRESS P
                         then ((c1\<lparr>tc_status := ConnStatusError\<rparr>, sel), w4)
                         else ((c1\<lparr>tc_socket := Some (Connector_NewSocket c1 fd), tc_status := ConnStatusConnecting\<rparr>,
                                SocketSelect_ExceptionFdSet fd (SocketSelect_WriteFdSet fd sel)), w4))"

definition AfterConnectSelect :: "'w posix \<Rightarrow> TcpConnector \<Rightarrow> SocketSelect \<Rightarrow> 'w \<Rightarrow> TcpConnector \<times> 'w" where
  "AfterConnectSelect P c sel w =
     (case tc_socket c of
        None \<Rightarrow> (c\<lparr>tc_status := ConnStatusError\<rparr>, w)
      | Some so \<Rightarrow>
          let (timeout, w1) = Connector_Timeout P c w;
              fd = Socket_GetSocket so
          in if SocketSelect_ExceptionFdIsSet sel fd
             then (c\<lparr>tc_status := ConnStatusError\<rparr>, snd (sys_so_error P fd w1))
             else if SocketSelect_WriteFdIsSet sel fd
             then let (now, w2) = sys_tick P w1;
                      c1 = c\<lparr>tc_endConnTime := now\<rparr>
                  in if ai_isTls (tc_addr c) then (c1\<lparr>tc_status := ConnStatusStartSSL\<rparr>, w2)
                     else let (r, w3) = socket_set_blo P fd w2
                          in if r \<noteq> 0 then (c1\<lparr>tc_status := ConnStatusError\<rparr>, w3)
                             else (c1\<lparr>tc_status := ConnStatusConnected\<rparr>, w3)
             else if timeout \<le> 0 then (c\<lparr>tc_status := ConnStatusError\<rparr>, w1)
             else (c, w1))"

definition TcpConnector_PreSelect :: "'w posix \<Rightarrow> TcpConnector \<Rightarrow> SocketSelect \<Rightarrow> ('w, TcpConnector \<times> SocketSelect) io" where
  "TcpConnector_PreSelect P c sel =
     (case tc_status c of
        ConnStatusStart \<Rightarrow> lift (PreConnectSelect P c sel)
      | ConnStatusConnecting \<Rightarrow>
          (case tc_socket c of
             None \<Rightarrow> fail Undefined
           | Some so \<Rightarrow>
               ret (c, SocketSelect_ExceptionFdSet (Socket_GetSocket so) (SocketSelect_WriteFdSet (Socket_GetSocket so) sel)))
      | _ \<Rightarrow> ret (c, sel))"

definition TcpConnector_AfterSelect :: "'w posix \<Rightarrow> TcpConnector \<Rightarrow> SocketSelect \<Rightarrow> ('w, TcpConnector) io" where
  "TcpConnector_AfterSelect P c sel =
     (case tc_status c of ConnStatusConnecting \<Rightarrow> lift (AfterConnectSelect P c sel) | _ \<Rightarrow> ret c)"

subsection \<open>SSLConnector\<close>

fun Socket_Connect :: "'w posix \<Rightarrow> nat option \<Rightarrow> socket_obj \<Rightarrow> 'w \<Rightarrow> (int \<times> socket_obj \<times> nat option) \<times> 'w" where
  "Socket_Connect P ctx (PlainSocket s) w = ((TcpSocket_Connect s, PlainSocket s, ctx), w)"
| "Socket_Connect P ctx (SecureSocket s) w =
     (case SSLSocket_Connect P ctx s w of ((e, s', ctx'), w') \<Rightarrow> ((e, SecureSocket s', ctx'), w'))"

definition PreSSLSelect ::
  "'w posix \<Rightarrow> nat option \<Rightarrow> TcpConnector \<Rightarrow> SocketSelect \<Rightarrow> ('w, TcpConnector \<times> SocketSelect \<times> nat option) io" where
  "PreSSLSelect P ctx c sel =
     (case tc_socket c of
        None \<Rightarrow> fail Undefined
      | Some so \<Rightarrow>
          seq (lift (Socket_Connect P ctx so)) (\<lambda>(error, so', ctx').
          let c1 = c\<lparr>tc_socket := Some so'\<rparr>;
              fd = Socket_GetSocket so'
          in if error = SSL_ERROR_WANT_READ
             then ret (c1\<lparr>tc_status := ConnStatusSSLConnecting\<rparr>, SocketSelect_ExceptionFdSet fd (SocketSelect_ReadFdSet fd sel), ctx')
             else if error = SSL_ERROR_WANT_WRITE
             then ret (c1\<lparr>tc_status := ConnStatusSSLConnecting\<rparr>, SocketSelect_ExceptionFdSet fd (SocketSelect_WriteFdSet fd sel), ctx')
             else if error = SSL_ERROR_NONE then ret (c1, sel, ctx')
             else ret (c1\<lparr>tc_status := ConnStatusError\<rparr>, sel, ctx')))"

definition AfterSSLSelect :: "'w posix \<Rightarrow> TcpConnector \<Rightarrow> SocketSelect \<Rightarrow> ('w, TcpConnector) io" where
  "AfterSSLSelect P c sel =
     seq (lift (Connector_Timeout P c)) (\<lambda>timeout.
     case tc_socket c of
       None \<Rightarrow> fail Undefined
     | Some so \<Rightarrow>
         let fd = Socket_GetSocket so
         in if SocketSelect_ExceptionFdIsSet sel fd
            then seq (lift (sys_so_error P fd)) (\<lambda>_. ret (c\<lparr>tc_status := ConnStatusError\<rparr>))
            else if SocketSelect_WriteFdIsSet sel fd \<or> SocketSelect_ReadFdIsSet sel fd
            then seq (lift (sys_tick P)) (\<lambda>_.
                 seq (lift (socket_set_blo P fd)) (\<lambda>r.
                   if r \<noteq> 0 then ret (c\<lparr>tc_status := ConnStatusError\<rparr>)
                   else ret (c\<lparr>tc_status := ConnStatusConnected\<rparr>)))
            else if timeout \<le> 0 then ret (c\<lparr>tc_status := ConnStatusError\<rparr>)
            else ret c)"

definition SSLConnector_PreSelect ::
  "'w posix \<Rightarrow> nat option \<Rightarrow> TcpConnector \<Rightarrow> SocketSelect \<Rightarrow> ('w, TcpConnector \<times> SocketSelect \<times> nat option) io" where
  "SSLConnector_PreSelect P ctx c sel =
     seq (TcpConnector_PreSelect P c sel) (\<lambda>(c1, sel1).
     case tc_status c1 of
       ConnStatusStartSSL \<Rightarrow> PreSSLSelect P ctx c1 sel1
     | ConnStatusSSLConnecting \<Rightarrow>
         (case tc_socket c1 of
            None \<Rightarrow> fail Undefined
          | Some so \<Rightarrow>
              let fd = Socket_GetSocket so;
                  connError = Socket_GetConnectError so;
                  sel2 = SocketSelect_ExceptionFdSet fd sel1
              in ret (c1, if connError = SSL_ERROR_WANT_READ then SocketSelect_ReadFdSet fd sel2
                          else if connError = SSL_ERROR_WANT_WRITE then SocketSelect_WriteFdSet fd sel2
                          else sel2, ctx))
     | _ \<Rightarrow> ret (c1, sel1, ctx))"

definition SSLConnector_AfterSelect :: "'w posix \<Rightarrow> TcpConnector \<Rightarrow> SocketSelect \<Rightarrow> ('w, TcpConnector) io" where
  "SSLConnector_AfterSelect P c sel =
     seq (TcpConnector_AfterSelect P c sel) (\<lambda>c1.
     case tc_status c1 of ConnStatusSSLConnecting \<Rightarrow> AfterSSLSelect P c1 sel | _ \<Rightarrow> ret c1)"

subsection \<open>Virtual dispatch\<close>

definition Connector_PreSelect ::
  "'w posix \<Rightarrow> nat option \<Rightarrow> TcpConnector \<Rightarrow> SocketSelect \<Rightarrow> ('w, TcpConnector \<times> SocketSelect \<times> nat option) io" where
  "Connector_PreSelect P ctx c sel =
     (if tc_ssl c then SSLConnector_PreSelect P ctx c sel
      else seq (TcpConnector_PreSelect P c sel) (\<lambda>(c1, sel1). ret (c1, sel1, ctx)))"

definition Connector_AfterSelect :: "'w posix \<Rightarrow> TcpConnector \<Rightarrow> SocketSelect \<Rightarrow> ('w, TcpConnector) io" where
  "Connector_AfterSelect P c sel =
     (if tc_ssl c then SSLConnector_AfterSelect P c sel else TcpConnector_AfterSelect P c sel)"

section \<open>ComplexConnect\<close>

record ComplexConnect =
  cc_timeout :: u32
  cc_interval :: u32
  cc_errorInterval :: u32
  cc_maxConnect :: u32

text \<open>The local variables of \<^verbatim>\<open>ConnectImpatient\<close> that live across iterations.\<close>

record impatient =
  im_connectors :: "TcpConnector option list"
  im_lastStartConnTime :: u64
  im_lastError :: int
  im_index :: nat
  im_retSocket :: "socket_obj option"
  im_ctx :: "nat option"
  im_breaker :: SocketBreaker

definition IsConnecting :: "TcpConnector option \<Rightarrow> bool" where
  "IsConnecting c = (case c of None \<Rightarrow> False | Some c' \<Rightarrow> tc_socket c' \<noteq> None)"

definition runningCount :: "TcpConnector option list \<Rightarrow> nat" where
  "runningCount cs = length (filter IsConnecting cs)"

text \<open>The first inner loop: \<^verbatim>\<open>PreSelect\<close> on the connectors given, with the smallest timeout.\<close>

fun pre_all ::
  "'w posix \<Rightarrow> nat option \<Rightarrow> SocketSelect \<Rightarrow> int \<Rightarrow> TcpConnector option list \<Rightarrow>
   ('w, TcpConnector option list \<times> nat option \<times> SocketSelect \<times> int) io" where
  "pre_all P ctx sel timeout [] = ret ([], ctx, sel, timeout)"
| "pre_all P ctx sel timeout (None # cs) =
     seq (pre_all P ctx sel timeout cs) (\<lambda>(cs', ctx', sel', timeout'). ret (None # cs', ctx', sel', timeout'))"
| "pre_all P ctx sel timeout (Some c # cs) =
     seq (Connector_PreSelect P ctx c sel) (\<lambda>(c1, sel1, ctx1).
     seq (lift (Connector_Timeout P c1)) (\<lambda>t.
     seq (pre_all P ctx1 sel1 (min timeout t) cs) (\<lambda>(cs', ctx', sel', timeout').
     ret (Some c1 # cs', ctx', sel', timeout'))))"

text \<open>
  The second inner loop: \<^verbatim>\<open>AfterSelect\<close>; a failed connector is closed and removed, the first
  connected one hands over its socket and ends the loop.
\<close>

fun after_all ::
  "'w posix \<Rightarrow> SocketSelect \<Rightarrow> int \<Rightarrow> TcpConnector option list \<Rightarrow>
   ('w, TcpConnector option list \<times> int \<times> socket_obj option) io" where
  "after_all P sel lastError [] = ret ([], lastError, None)"
| "after_all P sel lastError (None # cs) =
     seq (after_all P sel lastError cs) (\<lambda>(cs', e, so). ret (None # cs', e, so))"
| "after_all P sel lastError (Some c # cs) =
     seq (Connector_AfterSelect P c sel) (\<lambda>c1.
     if tc_status c1 = ConnStatusError
     then seq (lift (Connector_Close P c1)) (\<lambda>_.
          seq (after_all P sel (- 1) cs) (\<lambda>(cs', e, so). ret (None # cs', e, so)))
     else if tc_status c1 = ConnStatusConnected
     then ret (None # cs, lastError, tc_socket c1)
     else seq (after_all P sel lastError cs) (\<lambda>(cs', e, so). ret (Some c1 # cs', e, so)))"

text \<open>One iteration of the outer loop; the boolean says that it breaks.\<close>

definition impatient_round ::
  "bool \<Rightarrow> int \<Rightarrow> 'w posix \<Rightarrow> ComplexConnect \<Rightarrow> impatient \<Rightarrow> ('w, bool \<times> impatient) io" where
  "impatient_round apple junk P cc st =
     seq (lift (sys_tick P)) (\<lambda>curTime.
     seq (lift (SocketSelect_new apple P (im_breaker st) junk)) (\<lambda>sel0.
     let sel1 = SocketSelect_PreSelect sel0;
         interval = sint (if im_lastError st = 0 then cc_interval cc else cc_errorInterval cc);
         nextConnTimeout = interval - to_int (curTime - im_lastStartConnTime st);
         timeout0 = sint (cc_timeout cc)
     in seq (if im_index st < length (im_connectors st) \<and> runningCount (im_connectors st) < unat (cc_maxConnect cc)
             then if nextConnTimeout > 0 then ret (min timeout0 nextConnTimeout, st)
                  else seq (lift (sys_tick P)) (\<lambda>now.
                       ret (timeout0, st\<lparr>im_lastStartConnTime := now, im_lastError := 0, im_index := im_index st + 1\<rparr>))
             else ret (timeout0, st)) (\<lambda>(timeout1, st1).
        seq (pre_all P (im_ctx st1) sel1 timeout1 (take (im_index st1) (im_connectors st1))) (\<lambda>(cs, ctx, sel2, timeout2).
        let st2 = st1\<lparr>im_connectors := cs @ drop (im_index st1) (im_connectors st1), im_ctx := ctx\<rparr>
        in seq (lift (SocketSelect_SelectFor P (max 0 timeout2 div 1000) sel2 (im_breaker st2))) (\<lambda>(r, sel3, b).
           let st3 = st2\<lparr>im_breaker := b\<rparr>
           in if r < 0 \<or> SocketSelect_IsException sel3 b \<or> SocketSelect_IsBreak sel3 b
              then seq (lift (\<lambda>w. ((), SocketSelect_delete P sel3 w))) (\<lambda>_. ret (True, st3))
              else seq (after_all P sel3 (im_lastError st3) (take (im_index st3) (im_connectors st3))) (\<lambda>(cs', e, so).
                   let st4 = st3\<lparr>im_connectors := cs' @ drop (im_index st3) (im_connectors st3), im_lastError := e,
                                 im_retSocket := so\<rparr>
                   in seq (lift (\<lambda>w. ((), SocketSelect_delete P sel3 w))) (\<lambda>_.
                      ret (list_all (\<lambda>c. c = None) (im_connectors st4) \<or> so \<noteq> None, st4))))))))"

partial_function (option) impatient_loop ::
  "bool \<Rightarrow> int \<Rightarrow> 'w posix \<Rightarrow> ComplexConnect \<Rightarrow> impatient \<Rightarrow> 'w \<Rightarrow> ((fault + impatient) \<times> 'w) option" where
  "impatient_loop apple junk P cc st w =
     (case impatient_round apple junk P cc st w of
        (Inl f, w') \<Rightarrow> Some (Inl f, w')
      | (Inr (stop, st'), w') \<Rightarrow>
          if stop then Some (Inr st', w') else impatient_loop apple junk P cc st' w')"

fun close_all :: "'w posix \<Rightarrow> TcpConnector option list \<Rightarrow> 'w \<Rightarrow> 'w" where
  "close_all P [] w = w"
| "close_all P (None # cs) w = close_all P cs w"
| "close_all P (Some c # cs) w = close_all P cs (snd (Connector_Close P c w))"

text \<open>The connectors made from the addresses.\<close>

definition make_connectors :: "ComplexConnect \<Rightarrow> u64 \<Rightarrow> AddrInfo list \<Rightarrow> TcpConnector option list" where
  "make_connectors cc junk addrs =
     map (\<lambda>(i, a). Some (Connector_new (ai_isTls a) a i (cc_timeout cc) junk)) (enumerate 0 addrs)"

definition impatient_start ::
  "ComplexConnect \<Rightarrow> u64 \<Rightarrow> u64 \<Rightarrow> AddrInfo list \<Rightarrow> SocketBreaker \<Rightarrow> nat option \<Rightarrow> impatient" where
  "impatient_start cc junk curTime addrs b ctx =
     \<lparr>im_connectors = make_connectors cc junk addrs, im_lastStartConnTime = curTime - ucast (cc_interval cc),
      im_lastError = 0, im_index = 0, im_retSocket = None, im_ctx = ctx, im_breaker = b\<rparr>"

text \<open>\<open>None\<close>: the call does not return.\<close>

definition ConnectImpatient ::
  "bool \<Rightarrow> int \<Rightarrow> u64 \<Rightarrow> 'w posix \<Rightarrow> ComplexConnect \<Rightarrow> AddrInfo list \<Rightarrow> SocketBreaker \<Rightarrow> nat option \<Rightarrow> 'w \<Rightarrow>
   ((fault + socket_obj option \<times> SocketBreaker \<times> nat option) \<times> 'w) option" where
  "ConnectImpatient apple junk junk64 P cc addrs b ctx w =
     (if addrs = [] then Some (Inr (None, b, ctx), w)
      else let (curTime, w1) = sys_tick P w
           in case impatient_loop apple junk P cc (impatient_start cc junk64 curTime addrs b ctx) w1 of
                None \<Rightarrow> None
              | Some (Inl f, w2) \<Rightarrow> Some (Inl f, w2)
              | Some (Inr st', w2) \<Rightarrow>
                  Some (Inr (im_retSocket st', im_breaker st', im_ctx st'), close_all P (im_connectors st') w2))"

section \<open>The connector's invariant\<close>

definition conn_ok :: "TcpConnector \<Rightarrow> bool" where
  "conn_ok c \<longleftrightarrow> (tc_status c = ConnStatusStart \<longrightarrow> tc_socket c = None) \<and>
     (tc_status c \<in> {ConnStatusConnecting, ConnStatusStartSSL, ConnStatusSSLConnecting, ConnStatusConnected} \<longrightarrow> tc_socket c \<noteq> None)"

text \<open>What \<^verbatim>\<open>PreSelect\<close> may do to a connector, and what \<^verbatim>\<open>AfterSelect\<close> may do.\<close>

definition pre_rel :: "TcpConnector \<Rightarrow> TcpConnector \<Rightarrow> bool" where
  "pre_rel c c' \<longleftrightarrow> conn_ok c' \<and> tc_status c' \<noteq> ConnStatusStart \<and> tc_addr c' = tc_addr c \<and> tc_ssl c' = tc_ssl c \<and>
     (tc_socket c' \<noteq> None \<longrightarrow> tc_socket c \<noteq> None \<or> tc_status c = ConnStatusStart)"

definition after_rel :: "TcpConnector \<Rightarrow> TcpConnector \<Rightarrow> bool" where
  "after_rel c c' \<longleftrightarrow> conn_ok c' \<and> tc_status c' \<noteq> ConnStatusStart \<and> tc_addr c' = tc_addr c \<and> tc_ssl c' = tc_ssl c \<and>
     tc_socket c' = tc_socket c"

lemma PreConnectSelect_ok:
  "conn_ok c \<Longrightarrow> tc_status c = ConnStatusStart \<Longrightarrow> pre_rel c (fst (fst (PreConnectSelect P c sel w)))"
  by (auto simp: PreConnectSelect_def conn_ok_def pre_rel_def Let_def split: prod.splits)

lemma TcpConnector_PreSelect_ok: "conn_ok c \<Longrightarrow> always (TcpConnector_PreSelect P c sel) (\<lambda>(c', sel'). pre_rel c c')"
proof (cases "tc_status c")
  case ConnStatusStart
  assume "conn_ok c"
  from PreConnectSelect_ok [OF this ConnStatusStart, of P sel] show ?thesis
    by (auto simp: TcpConnector_PreSelect_def ConnStatusStart case_prod_unfold intro: always_lift)
qed (auto simp: TcpConnector_PreSelect_def pre_rel_def conn_ok_def split: option.splits)

lemma PreSSLSelect_ok:
  "conn_ok c \<Longrightarrow> tc_status c = ConnStatusStartSSL \<Longrightarrow> always (PreSSLSelect P ctx c sel) (\<lambda>(c', sel', ctx'). pre_rel c c')"
  by (auto simp: PreSSLSelect_def conn_ok_def pre_rel_def Let_def intro!: always_seq [OF always_lift_any] split: option.splits)

lemma pre_rel_trans: "pre_rel c c1 \<Longrightarrow> pre_rel c1 c2 \<Longrightarrow> pre_rel c c2"
  by (auto simp: pre_rel_def)

lemma Connector_PreSelect_ok:
  assumes "conn_ok c"
  shows "always (Connector_PreSelect P ctx c sel) (\<lambda>(c', sel', ctx'). pre_rel c c')"
proof -
  have ssl: "always (SSLConnector_PreSelect P ctx c sel) (\<lambda>(c', sel', ctx'). pre_rel c c')"
    unfolding SSLConnector_PreSelect_def
  proof (rule always_seq [OF TcpConnector_PreSelect_ok [OF assms]], clarify)
    fix c1 :: TcpConnector and sel1
    assume 1: "pre_rel c c1"
    then have ok: "conn_ok c1" by (simp add: pre_rel_def)
    show "always (case tc_status c1 of ConnStatusStartSSL \<Rightarrow> PreSSLSelect P ctx c1 sel1
     | ConnStatusSSLConnecting \<Rightarrow>
         (case tc_socket c1 of
            None \<Rightarrow> fail Undefined
          | Some so \<Rightarrow>
              let fd = Socket_GetSocket so;
                  connError = Socket_GetConnectError so;
                  sel2 = SocketSelect_ExceptionFdSet fd sel1
              in ret (c1, if connError = SSL_ERROR_WANT_READ then SocketSelect_ReadFdSet fd sel2
                          else if connError = SSL_ERROR_WANT_WRITE then SocketSelect_WriteFdSet fd sel2
                          else sel2, ctx))
     | _ \<Rightarrow> ret (c1, sel1, ctx)) (\<lambda>(c', sel', ctx'). pre_rel c c')"
    proof (cases "tc_status c1")
      case ConnStatusStartSSL
      have "always (PreSSLSelect P ctx c1 sel1) (\<lambda>(c', sel', ctx'). pre_rel c c')"
        by (rule always_mono [OF PreSSLSelect_ok [OF ok ConnStatusStartSSL]]) (auto intro: pre_rel_trans [OF 1])
      with ConnStatusStartSSL show ?thesis by simp
    next
      case ConnStatusSSLConnecting
      then obtain so where "tc_socket c1 = Some so" using ok by (auto simp: conn_ok_def)
      with 1 ConnStatusSSLConnecting show ?thesis by (simp add: Let_def)
    qed (use 1 in simp_all)
  qed
  have "always (seq (TcpConnector_PreSelect P c sel) (\<lambda>(c1, sel1). ret (c1, sel1, ctx))) (\<lambda>(c', sel', ctx'). pre_rel c c')"
    by (rule always_seq [OF TcpConnector_PreSelect_ok [OF assms]]) auto
  with ssl show ?thesis by (simp add: Connector_PreSelect_def)
qed

lemma AfterConnectSelect_ok:
  "conn_ok c \<Longrightarrow> tc_status c = ConnStatusConnecting \<Longrightarrow> after_rel c (fst (AfterConnectSelect P c sel w))"
  by (auto simp: AfterConnectSelect_def conn_ok_def after_rel_def Let_def split: prod.splits option.splits)

lemma AfterSSLSelect_ok:
  assumes "conn_ok c" "tc_status c = ConnStatusSSLConnecting"
  shows "always (AfterSSLSelect P c sel) (after_rel c)"
  using assms unfolding AfterSSLSelect_def
  by (auto simp: conn_ok_def after_rel_def Let_def intro!: always_seq [OF always_lift_any] split: option.splits)

lemma TcpConnector_AfterSelect_ok:
  assumes "conn_ok c" "tc_status c \<noteq> ConnStatusStart"
  shows "always (TcpConnector_AfterSelect P c sel) (after_rel c)"
  using assms AfterConnectSelect_ok [OF assms(1), of P sel]
  by (cases "tc_status c") (auto simp: TcpConnector_AfterSelect_def after_rel_def intro!: always_lift)

lemma Connector_AfterSelect_ok:
  assumes "conn_ok c" "tc_status c \<noteq> ConnStatusStart"
  shows "always (Connector_AfterSelect P c sel) (after_rel c)"
proof -
  have "always (SSLConnector_AfterSelect P c sel) (after_rel c)"
    unfolding SSLConnector_AfterSelect_def
  proof (rule always_seq [OF TcpConnector_AfterSelect_ok [OF assms]])
    fix c1 assume 1: "after_rel c c1"
    show "always (case tc_status c1 of ConnStatusSSLConnecting \<Rightarrow> AfterSSLSelect P c1 sel | _ \<Rightarrow> ret c1) (after_rel c)"
    proof (cases "tc_status c1 = ConnStatusSSLConnecting")
      case True
      have "always (AfterSSLSelect P c1 sel) (after_rel c)"
        using 1 by (intro always_mono [OF AfterSSLSelect_ok [OF _ True]]) (auto simp: after_rel_def)
      with True show ?thesis by simp
    next
      case False
      with 1 show ?thesis by (cases "tc_status c1") auto
    qed
  qed
  with TcpConnector_AfterSelect_ok [OF assms, of P sel] show ?thesis by (simp add: Connector_AfterSelect_def)
qed

section \<open>The race\<close>

definition live :: "(TcpConnector \<Rightarrow> bool) \<Rightarrow> TcpConnector option \<Rightarrow> bool" where
  "live Q c = (case c of None \<Rightarrow> True | Some c' \<Rightarrow> Q c')"

lemma live_simps [simp]: "live Q None" "live Q (Some c) = Q c"
  by (simp_all add: live_def)

definition isStart :: "TcpConnector option \<Rightarrow> bool" where
  "isStart c = (case c of None \<Rightarrow> False | Some c' \<Rightarrow> tc_status c' = ConnStatusStart)"

lemma connector_simps [simp]: "\<not> IsConnecting None" "\<not> isStart None"
  "IsConnecting (Some c) \<longleftrightarrow> tc_socket c \<noteq> None" "isStart (Some c) \<longleftrightarrow> tc_status c = ConnStatusStart"
  by (simp_all add: IsConnecting_def isStart_def)

abbreviation started :: "TcpConnector \<Rightarrow> bool" where
  "started c \<equiv> conn_ok c \<and> tc_status c \<noteq> ConnStatusStart"

lemma runningCount_simps [simp]:
  "runningCount [] = 0"
  "runningCount (c # cs) = (if IsConnecting c then 1 else 0) + runningCount cs"
  "runningCount (as @ bs) = runningCount as + runningCount bs"
  by (simp_all add: runningCount_def)

lemma pre_all_ok:
  "list_all (live conn_ok) cs \<Longrightarrow> always (pre_all P ctx sel t cs) (\<lambda>(cs', ctx', sel', t').
     length cs' = length cs \<and> list_all (live started) cs' \<and> runningCount cs' \<le> runningCount cs + length (filter isStart cs))"
proof (induction P ctx sel t cs rule: pre_all.induct)
  case (1 P ctx sel t)
  then show ?case by (simp del: ret_apply)
next
  case (2 P ctx sel t cs)
  then have "always (pre_all P ctx sel t cs) (\<lambda>(cs', ctx', sel', t').
     length cs' = length cs \<and> list_all (live started) cs' \<and> runningCount cs' \<le> runningCount cs + length (filter isStart cs))"
    by simp
  then show ?case by simp (erule always_seq, auto simp: IsConnecting_def isStart_def)
next
  case (3 P ctx sel t c cs)
  then have c: "conn_ok c" and cs: "list_all (live conn_ok) cs" by simp_all
  show ?case
    unfolding pre_all.simps
  proof (rule always_seq [OF Connector_PreSelect_ok [OF c]], clarify)
    fix c1 :: TcpConnector and sel1 ctx1
    assume 1: "pre_rel c c1"
    show "always (seq (lift (Connector_Timeout P c1)) (\<lambda>t'.
        seq (pre_all P ctx1 sel1 (min t t') cs) (\<lambda>(cs', ctx', sel', timeout'). ret (Some c1 # cs', ctx', sel', timeout'))))
      (\<lambda>(cs', ctx', sel', t'). length cs' = length (Some c # cs) \<and> list_all (live started) cs' \<and>
         runningCount cs' \<le> runningCount (Some c # cs) + length (filter isStart (Some c # cs)))"
      by (rule always_seq [OF always_lift_any], rule always_seq [OF "3.IH" [OF cs]])
        (use 1 in \<open>auto simp: pre_rel_def\<close>)
  qed
qed

lemma after_all_ok:
  "list_all (live started) cs \<Longrightarrow> always (after_all P sel e cs) (\<lambda>(cs', e', so).
     length cs' = length cs \<and> list_all (live started) cs' \<and> runningCount cs' \<le> runningCount cs)"
proof (induction P sel e cs rule: after_all.induct)
  case (1 P sel e)
  then show ?case by (simp del: ret_apply)
next
  case (2 P sel e cs)
  then show ?case by simp (rule always_seq, assumption, auto simp: IsConnecting_def)
next
  case (3 P sel e c cs)
  then have c: "conn_ok c" "tc_status c \<noteq> ConnStatusStart" and cs: "list_all (live started) cs" by simp_all
  show ?case
    unfolding after_all.simps
  proof (rule always_seq [OF Connector_AfterSelect_ok [OF c]])
    fix c1 assume 1: "after_rel c c1"
    show "always (if tc_status c1 = ConnStatusError
     then seq (lift (Connector_Close P c1)) (\<lambda>_.
          seq (after_all P sel (- 1) cs) (\<lambda>(cs', e, so). ret (None # cs', e, so)))
     else if tc_status c1 = ConnStatusConnected
     then ret (None # cs, e, tc_socket c1)
     else seq (after_all P sel e cs) (\<lambda>(cs', e, so). ret (Some c1 # cs', e, so)))
      (\<lambda>(cs', e', so). length cs' = length (Some c # cs) \<and> list_all (live started) cs' \<and>
         runningCount cs' \<le> runningCount (Some c # cs))"
    proof (cases "tc_status c1 = ConnStatusError")
      case True
      show ?thesis
        unfolding if_P [OF True]
        by (rule always_seq [OF always_lift_any], rule always_seq [OF "3.IH"(1) [OF True cs]]) (auto simp: IsConnecting_def)
    next
      case False
      show ?thesis
      proof (cases "tc_status c1 = ConnStatusConnected")
        case True
        with cs show ?thesis by (simp add: IsConnecting_def)
      next
        case F2: False
        show ?thesis
          unfolding if_not_P [OF False] if_not_P [OF F2]
          by (rule always_seq [OF "3.IH"(2) [OF False F2 cs]]) (use 1 in \<open>auto simp: IsConnecting_def after_rel_def\<close>)
      qed
    qed
  qed
qed

definition race_ok :: "ComplexConnect \<Rightarrow> impatient \<Rightarrow> bool" where
  "race_ok cc st \<longleftrightarrow> im_index st \<le> length (im_connectors st) \<and>
     list_all (live started) (take (im_index st) (im_connectors st)) \<and>
     list_all (live (\<lambda>c. conn_ok c \<and> tc_status c = ConnStatusStart)) (drop (im_index st) (im_connectors st)) \<and>
     runningCount (im_connectors st) \<le> unat (cc_maxConnect cc)"

lemma waiting_not_running:
  "list_all (live (\<lambda>c. conn_ok c \<and> tc_status c = ConnStatusStart)) cs \<Longrightarrow> runningCount cs = 0"
  by (induction cs) (auto simp: IsConnecting_def live_def conn_ok_def split: option.splits)

lemma runningCount_split: "runningCount cs = runningCount (take n cs) + runningCount (drop n cs)"
  using runningCount_simps(3) [of "take n cs" "drop n cs"] by simp

text \<open>Picking up the next server, when the code does.\<close>

lemma race_next:
  assumes "race_ok cc st" "k = im_index st \<or> k = Suc (im_index st) \<and> im_index st < length (im_connectors st) \<and>
     runningCount (im_connectors st) < unat (cc_maxConnect cc)"
  shows "k \<le> length (im_connectors st)" "list_all (live conn_ok) (take k (im_connectors st))"
    "list_all (live (\<lambda>c. conn_ok c \<and> tc_status c = ConnStatusStart)) (drop k (im_connectors st))"
    "runningCount (take k (im_connectors st)) + length (filter isStart (take k (im_connectors st))) \<le> unat (cc_maxConnect cc)"
proof -
  let ?cs = "im_connectors st" and ?i = "im_index st"
  have st: "?i \<le> length ?cs" "list_all (live started) (take ?i ?cs)"
    "list_all (live (\<lambda>c. conn_ok c \<and> tc_status c = ConnStatusStart)) (drop ?i ?cs)" "runningCount ?cs \<le> unat (cc_maxConnect cc)"
    using assms(1) by (auto simp: race_ok_def)
  have run: "runningCount (take ?i ?cs) = runningCount ?cs"
    using runningCount_split [of ?cs ?i] waiting_not_running [OF st(3)] by simp
  have none: "filter isStart (take ?i ?cs) = []"
    using st(2) by (auto simp: filter_empty_conv list_all_iff live_def isStart_def split: option.splits)
  have ok: "list_all (live conn_ok) (take ?i ?cs)"
    using st(2) by (auto simp: list_all_iff live_def split: option.splits)
  from assms(2) show "k \<le> length ?cs" "list_all (live conn_ok) (take k ?cs)"
    "list_all (live (\<lambda>c. conn_ok c \<and> tc_status c = ConnStatusStart)) (drop k ?cs)"
    "runningCount (take k ?cs) + length (filter isStart (take k ?cs)) \<le> unat (cc_maxConnect cc)"
  proof (atomize (full), elim disjE conjE, goal_cases)
    case 1
    then show ?case using st run none ok by simp
  next
    case 2
    have d: "drop ?i ?cs = ?cs ! ?i # drop k ?cs" using 2 by (simp add: Cons_nth_drop_Suc)
    have t: "take k ?cs = take ?i ?cs @ [?cs ! ?i]" using 2 by (simp add: take_Suc_conv_app_nth)
    have c: "live (\<lambda>c. conn_ok c \<and> tc_status c = ConnStatusStart) (?cs ! ?i)" using st(3) d by simp
    then have "\<not> IsConnecting (?cs ! ?i)" "live conn_ok (?cs ! ?i)"
      by (auto simp: IsConnecting_def live_def conn_ok_def split: option.splits)
    then show ?case using 2 st(3) d t ok run none by (auto simp: t)
  qed
qed

lemma race_after:
  assumes "k \<le> length (im_connectors st)" "length cs = k" "list_all (live started) cs"
    and "list_all (live (\<lambda>c. conn_ok c \<and> tc_status c = ConnStatusStart)) (drop k (im_connectors st))" "runningCount cs \<le> unat (cc_maxConnect cc)"
    and "im_index st' = k" "im_connectors st' = cs @ drop k (im_connectors st)"
  shows "race_ok cc st'"
  using assms waiting_not_running [OF assms(4)] by (simp add: race_ok_def)

lemma impatient_round_ok:
  assumes "race_ok cc st"
  shows "always (impatient_round apple junk P cc st) (\<lambda>(stop, st'). race_ok cc st')"
proof -
  let ?cs = "im_connectors st" and ?m = "unat (cc_maxConnect cc)"
  let ?pick = "\<lambda>(t, st1). im_connectors st1 = ?cs \<and> im_breaker st1 = im_breaker st \<and> (im_index st1 = im_index st \<or>
      im_index st1 = Suc (im_index st) \<and> im_index st < length ?cs \<and> runningCount ?cs < ?m)"
  show ?thesis
    unfolding impatient_round_def Let_def
  proof (intro always_seq [OF always_lift_any], rule always_seq [of _ ?pick], goal_cases)
    case (1 curTime sel0)
    show ?case
      by (auto intro!: always_seq [OF always_lift_any])
  next
    case (2 curTime sel0 tst)
    obtain t1 st1 where tst: "tst = (t1, st1)" by force
    let ?k = "im_index st1"
    have p: "im_connectors st1 = ?cs" "?k = im_index st \<or> ?k = Suc (im_index st) \<and> im_index st < length ?cs \<and> runningCount ?cs < ?m"
      using 2 tst by auto
    note k = race_next [OF assms p(2)]
    show ?case
      unfolding tst split p(1)
    proof (rule always_seq [OF pre_all_ok [OF k(2)]], clarify, rule always_seq [OF always_lift_any], clarify, goal_cases)
      case (1 cs ctx sel2 t2 r sel3 b)
      have len: "length cs = ?k" and run: "runningCount cs \<le> ?m" using 1 k(1,4) by auto
      have tk: "take ?k (cs @ drop ?k ?cs) = cs" "drop ?k (cs @ drop ?k ?cs) = drop ?k ?cs" using len by simp_all
      show ?case
      proof (cases "r < 0 \<or> SocketSelect_IsException sel3 b \<or> SocketSelect_IsBreak sel3 b")
        case True
        have "race_ok cc (st1\<lparr>im_connectors := cs @ drop ?k ?cs, im_ctx := ctx, im_breaker := b\<rparr>)"
          by (rule race_after [OF k(1) len _ k(3) run]) (use 1 in simp_all)
        with True show ?thesis by (simp only: if_True, intro always_seq [OF always_lift_any]) simp
      next
        case False
        have a: "list_all (live started) (take (im_index (st1\<lparr>im_connectors := cs @ drop ?k ?cs, im_ctx := ctx, im_breaker := b\<rparr>))
            (im_connectors (st1\<lparr>im_connectors := cs @ drop ?k ?cs, im_ctx := ctx, im_breaker := b\<rparr>)))"
          using 1 len by simp
        have r: "race_ok cc st5" if "length cs' = ?k" "list_all (live started) cs'" "runningCount cs' \<le> runningCount cs"
            "im_index st5 = ?k" "im_connectors st5 = cs' @ drop ?k ?cs" for cs' st5
          by (rule race_after [OF k(1) that(1,2) k(3) _ that(4,5)]) (use run that(3) in simp)
        show ?thesis
          unfolding if_not_P [OF False]
          by (rule always_seq [OF after_all_ok [OF a]], clarify, intro always_seq [OF always_lift_any])
            (use len in \<open>auto intro!: r\<close>)
      qed
    qed
  qed
qed


lemma impatient_loop_ok:
  assumes "impatient_loop apple junk P cc st w = Some rw" "race_ok cc st"
  shows "\<exists>st'. fst rw = Inr st' \<and> race_ok cc st'"
proof -
  let ?Q = "\<lambda>(((((apple, junk), P), cc), st), w) rw. race_ok cc st \<longrightarrow> (\<exists>st'. fst rw = Inr st' \<and> race_ok cc st')"
  have "?Q (((((apple, junk), P), cc), st), w) rw"
  proof (rule impatient_loop.raw_induct [where Pa = ?Q, OF _ assms(1)], clarify, goal_cases)
    case (1 loop apple junk P cc st w rw1 w2)
    have "\<exists>a w1. impatient_round apple junk P cc st w = (Inr a, w1) \<and> (case a of (stop, st1) \<Rightarrow> race_ok cc st1)"
      by (rule impatient_round_ok [OF 1(3), unfolded always_def, rule_format])
    then obtain stop st1 w1 where r: "impatient_round apple junk P cc st w = (Inr (stop, st1), w1)" "race_ok cc st1" by auto
    with 1 show ?case by (cases stop) fastforce+
  qed
  with assms(2) show ?thesis by simp
qed

text \<open>The states in which an iteration of the loop starts.\<close>

inductive race_reach :: "bool \<Rightarrow> 'w posix \<Rightarrow> ComplexConnect \<Rightarrow> impatient \<Rightarrow> impatient \<Rightarrow> bool"
  for apple P cc st0 where
  race_start: "race_reach apple P cc st0 st0"
| race_round: "race_reach apple P cc st0 st \<Longrightarrow> impatient_round apple junk P cc st w = (Inr (False, st'), w') \<Longrightarrow>
     race_reach apple P cc st0 st'"

lemma race_reach_ok: "race_reach apple P cc st0 st \<Longrightarrow> race_ok cc st0 \<Longrightarrow> race_ok cc st"
proof (induction rule: race_reach.induct)
  case (race_round st junk w st' w')
  from always_Inr [OF impatient_round_ok [OF race_round.IH [OF race_round.prems]] race_round.hyps(2)]
  show ?case by simp
qed

lemma make_connectors_ok: "list_all (live (\<lambda>c. conn_ok c \<and> tc_status c = ConnStatusStart)) (make_connectors cc junk addrs)"
  by (auto simp: make_connectors_def list_all_iff Connector_new_def conn_ok_def)

lemma impatient_start_ok: "race_ok cc (impatient_start cc junk curTime addrs b ctx)"
  using make_connectors_ok [of cc junk addrs] waiting_not_running [OF make_connectors_ok, of cc junk addrs]
  by (simp add: race_ok_def impatient_start_def)

section \<open>Properties\<close>


text \<open>The parameters the client uses, for the examples.\<close>

definition demo_race :: ComplexConnect where
  "demo_race = \<lparr>cc_timeout = 10000, cc_interval = 4000, cc_errorInterval = 0, cc_maxConnect = 3\<rparr>"

definition demo_start :: impatient where
  "demo_start = impatient_start demo_race 0 5000 [\<lparr>ai_ip = ''10.0.0.1'', ai_port = 80, ai_isTls = True\<rparr>]
     \<lparr>br_pipe0 = 3, br_pipe1 = 4, br_broken = False\<rparr> None"


text \<open>
  A plain connector reports \<^verbatim>\<open>ConnStatusConnected\<close> only for a socket the selector reported
  writable and without an exception, that needs no TLS, and that \<^verbatim>\<open>socket_set_blo\<close> has put back
  into blocking mode; every other outcome leaves it connecting, in TLS setup or failed.
\<close>

theorem connected_is_blocking:
  assumes "tc_status c = ConnStatusConnecting" "tc_socket c = Some so" "AfterConnectSelect P c sel w = (c', w')"
  shows "(tc_status c' = ConnStatusConnected \<longleftrightarrow>
      SocketSelect_WriteFdIsSet sel (Socket_GetSocket so) \<and> \<not> SocketSelect_ExceptionFdIsSet sel (Socket_GetSocket so) \<and>
      \<not> ai_isTls (tc_addr c) \<and>
      fst (socket_set_blo P (Socket_GetSocket so) (snd (sys_tick P (snd (Connector_Timeout P c w))))) = 0) \<and>
    tc_socket c' = Some so"
  using assms by (auto simp: AfterConnectSelect_def Let_def split: prod.splits if_splits)

theorem connected_is_blocking_witness:
  "let P = (quiet_posix :: nat posix)\<lparr>sys_getfl := (\<lambda>fd w. (2050, w)), sys_setfl := (\<lambda>fd f w. (0, w + 1))\<rparr>;
       so = PlainSocket (TcpSocket_new 5);
       c = (Connector_new False \<lparr>ai_ip = ''10.0.0.1'', ai_port = 80, ai_isTls = False\<rparr> 0 10000 0)
             \<lparr>tc_status := ConnStatusConnecting, tc_socket := Some so\<rparr>;
       sel = SelEpoll \<lparr>se_epfd = 7, se_events = [], se_pollEvents = [\<lparr>ev_fd = 5, ev_events = EPOLLOUT\<rparr>], se_errno = 0\<rparr>;
       (c', w') = AfterConnectSelect P c sel 0
   in tc_status c' = ConnStatusConnected \<and> tc_socket c' = Some so"
proof -
  let ?P = "(quiet_posix :: nat posix)\<lparr>sys_getfl := (\<lambda>fd w. (2050, w)), sys_setfl := (\<lambda>fd f w. (0, w + 1))\<rparr>"
  let ?so = "PlainSocket (TcpSocket_new 5)"
  let ?c = "(Connector_new False \<lparr>ai_ip = ''10.0.0.1'', ai_port = 80, ai_isTls = False\<rparr> 0 10000 0)
             \<lparr>tc_status := ConnStatusConnecting, tc_socket := Some ?so\<rparr>"
  let ?sel = "SelEpoll \<lparr>se_epfd = 7, se_events = [], se_pollEvents = [\<lparr>ev_fd = 5, ev_events = EPOLLOUT\<rparr>], se_errno = 0\<rparr>"
  obtain c' w' where e: "AfterConnectSelect ?P ?c ?sel 0 = (c', w')" by force
  have s: "tc_status ?c = ConnStatusConnecting" "tc_socket ?c = Some ?so" by (simp_all add: Connector_new_def)
  have x: "SocketSelect_WriteFdIsSet ?sel 5" "\<not> SocketSelect_ExceptionFdIsSet ?sel 5"
    by (simp_all add: SocketEpoll_WriteFdIsSet_def SocketEpoll_ExceptionFdIsSet_def EpollEvent_Writable_def
        EpollEvent_Error_def EPOLLOUT_def EPOLLERR_def)
  have "tc_status c' = ConnStatusConnected \<and> tc_socket c' = Some ?so"
    using connected_is_blocking [OF s e] x
    by (simp add: Connector_new_def TcpSocket_new_def socket_set_blo_def quiet_posix_def)
  then show ?thesis using e by (simp only: Let_def split)
qed


text \<open>On this system the world is the list of open descriptors.\<close>

definition fd_posix :: "int list posix" where
  "fd_posix = quiet_posix\<lparr>sys_socket := (\<lambda>w. (5, 5 # w)), sys_close := (\<lambda>fd w. removeAll fd w)\<rparr>"


end
