(* ===== verification/Dns.thy ===== *)
theory Dns
  imports Polling
begin

text \<open>
  \<^verbatim>\<open>connect/dns_query\<close>: name resolution. \<^verbatim>\<open>__GetIps\<close> runs on a thread of its own; the argument
  \<open>answered\<close> of \<open>GetHostByName\<close> says whether it has finished when \<^verbatim>\<open>Select\<close> looks at its breaker. A
  query that answers later is a call of \<open>GetIps\<close> after \<open>GetHostByName\<close>. The singleton is passed
  as a value.
\<close>

section \<open>The class\<close>

record DnsQuery =
  dq_hostName :: string
  dq_cacheIps :: "string list"
  dq_retBreaker :: SocketBreaker
  dq_getHttpDns :: "(string \<Rightarrow> string list) option"

definition DnsQuery_new :: "'w posix \<Rightarrow> 'w \<Rightarrow> DnsQuery \<times> 'w" where
  "DnsQuery_new P w =
     (let (b, w1) = Breaker_new P w
      in (\<lparr>dq_hostName = '''', dq_cacheIps = [], dq_retBreaker = b, dq_getHttpDns = None\<rparr>, w1))"

definition Dns_SetHttpDns :: "(string \<Rightarrow> string list) option \<Rightarrow> DnsQuery \<Rightarrow> DnsQuery" where
  "Dns_SetHttpDns f d = d\<lparr>dq_getHttpDns := f\<rparr>"

definition GetIps :: "'w posix \<Rightarrow> DnsQuery \<Rightarrow> 'w \<Rightarrow> DnsQuery \<times> 'w" where
  "GetIps P d w =
     (let (result, w1) = sys_getaddrinfo P (dq_hostName d) w;
          d1 = (case result of None \<Rightarrow> d | Some ips \<Rightarrow> d\<lparr>dq_cacheIps := ips\<rparr>);
          (_, b, w2) = Breaker_Break P (dq_retBreaker d1) w1
      in (d1\<lparr>dq_retBreaker := b\<rparr>, w2))"

text \<open>The preparation of the query's own breaker.\<close>

definition clear_retBreaker :: "'w posix \<Rightarrow> DnsQuery \<Rightarrow> 'w \<Rightarrow> DnsQuery \<times> 'w" where
  "clear_retBreaker P d w =
     (let (cleared, b, w1) = Breaker_Clear P (dq_retBreaker d) w
      in if cleared then (d\<lparr>dq_retBreaker := b\<rparr>, w1)
         else case Breaker_ReCreate P b (Breaker_Close P b w1) of (_, b', w2) \<Rightarrow> (d\<lparr>dq_retBreaker := b'\<rparr>, w2))"

text \<open>The result is the return value, \<^verbatim>\<open>ips\<close>, the caller's breaker and the object.\<close>

definition GetHostByName ::
  "bool \<Rightarrow> int \<Rightarrow> bool \<Rightarrow> 'w posix \<Rightarrow> string \<Rightarrow> string \<Rightarrow> string list \<Rightarrow> SocketBreaker \<Rightarrow> u32 \<Rightarrow> DnsQuery \<Rightarrow> 'w \<Rightarrow>
   (bool \<times> string list \<times> SocketBreaker \<times> DnsQuery) \<times> 'w" where
  "GetHostByName apple junk answered P hostName backupIp ips breaker timeout d w =
     (let (currentTick, w1) = sys_tick P w;
          httpDns = (case dq_getHttpDns d of None \<Rightarrow> [] | Some f \<Rightarrow> f hostName);
          (tick, w2) = sys_tick P w1
      in if httpDns = []
         then let (d1, w3) = clear_retBreaker P d w2;
                  d2 = d1\<lparr>dq_hostName := hostName\<rparr>;
                  (d3, w4) = (if answered then GetIps P d2 w3 else (d2, w3));
                  (sel, w5) = SocketSelect_new apple P breaker junk w4;
                  fd = Breaker_Fd (dq_retBreaker d2);
                  sel1 = SocketSelect_ReadFdSet fd (SocketSelect_ExceptionFdSet fd (SocketSelect_PreSelect sel));
                  ((selRet, sel2, b), w6) = SocketSelect_SelectFor P (sint timeout) sel1 breaker w5;
                  w7 = SocketSelect_delete P sel2 w6
              in if SocketSelect_IsBreak sel2 b then ((False, ips, b, d3), w7)
                 else let ips1 = ips @ dq_cacheIps d3;
                          (tick', w8) = sys_tick P w7
                      in ((True, if ips1 = [] then [backupIp] else ips1, b, d3), w8)
         else let ips1 = ips @ httpDns;
                  (tick', w3) = sys_tick P w2
              in ((True, if ips1 = [] then [backupIp] else ips1, breaker, d), w3))"

section \<open>Lemmas\<close>

lemma clear_retBreaker_fields:
  "clear_retBreaker P d w = (d', w') \<Longrightarrow> dq_cacheIps d' = dq_cacheIps d \<and> dq_getHttpDns d' = dq_getHttpDns d"
  by (auto simp: clear_retBreaker_def Let_def split: prod.splits if_splits)

lemma GetIps_cache:
  "GetIps P d w = (d', w') \<Longrightarrow>
     dq_cacheIps d' = (case fst (sys_getaddrinfo P (dq_hostName d) w) of None \<Rightarrow> dq_cacheIps d | Some ips \<Rightarrow> ips)"
  by (auto simp: GetIps_def Let_def split: prod.splits option.splits)

section \<open>Properties\<close>

text \<open>
  What a resolution returns. Addresses of the HTTP resolver win and no query is made.
  Otherwise \<^verbatim>\<open>GetHostByName\<close> fails exactly on a disconnect signal, and then adds no address; when it
  succeeds there is at least one address: the cached ones, which are the answer for this host if
  the query answered in time, or else the backup address.
\<close>

theorem GetHostByName_result:
  assumes "GetHostByName apple junk answered P host backupIp [] b timeout d w = ((ok, ips, b', d'), w')"
    and "httpDns = (case dq_getHttpDns d of None \<Rightarrow> [] | Some f \<Rightarrow> f host)"
  shows "(httpDns \<noteq> [] \<longrightarrow> ok \<and> ips = httpDns \<and> d' = d \<and> b' = b) \<and>
    (httpDns = [] \<longrightarrow> (\<exists>w1. dq_cacheIps d' = (if answered
         then case fst (sys_getaddrinfo P host w1) of None \<Rightarrow> dq_cacheIps d | Some l \<Rightarrow> l else dq_cacheIps d)) \<and>
       ips = (if \<not> ok then [] else if dq_cacheIps d' = [] then [backupIp] else dq_cacheIps d')) \<and>
    (ok \<longleftrightarrow> ips \<noteq> [])"
proof (cases "httpDns = []")
  case False
  with assms show ?thesis by (auto simp: GetHostByName_def Let_def split: prod.splits option.splits)
next
  case True
  obtain t1 w1 where 1: "sys_tick P w = (t1, w1)" by force
  obtain t2 w2 where 2: "sys_tick P w1 = (t2, w2)" by force
  obtain d1 w3 where 3: "clear_retBreaker P d w2 = (d1, w3)" by force
  define d2 where "d2 = d1\<lparr>dq_hostName := host\<rparr>"
  obtain d3 w4 where 4: "(if answered then GetIps P d2 w3 else (d2, w3)) = (d3, w4)" by force
  have d': "d' = d3" and ips: "ips = (if \<not> ok then [] else if dq_cacheIps d3 = [] then [backupIp] else dq_cacheIps d3)"
    using assms True 1 2 3 4 by (auto simp: GetHostByName_def Let_def d2_def split: prod.splits if_splits)
  have c: "dq_cacheIps d2 = dq_cacheIps d" "dq_hostName d2 = host"
    using clear_retBreaker_fields [OF 3] by (simp_all add: d2_def)
  have "dq_cacheIps d3 = (if answered
         then case fst (sys_getaddrinfo P host w3) of None \<Rightarrow> dq_cacheIps d | Some l \<Rightarrow> l else dq_cacheIps d)"
    using 4 GetIps_cache [of P d2 w3 d3 w4, unfolded c] c(1) by (cases answered) simp_all
  then have "\<exists>w1. dq_cacheIps d3 = (if answered
         then case fst (sys_getaddrinfo P host w1) of None \<Rightarrow> dq_cacheIps d | Some l \<Rightarrow> l else dq_cacheIps d)" by blast
  then show ?thesis unfolding d' ips using True by simp
qed

text \<open>
  C37: the cache is not tied to a host. When the query does not answer in time the addresses returned
  do not depend on the name asked for: they are those of the last query that answered, whatever
  its host was.
\<close>

theorem dns_timeout_stale:
  assumes "dq_getHttpDns d = None"
    and "GetHostByName apple junk False P host backupIp [] b timeout d w = ((True, ips, b', d'), w')"
  shows "ips = (if dq_cacheIps d = [] then [backupIp] else dq_cacheIps d) \<and>
    fst (snd (fst (GetHostByName apple junk False P host2 backupIp [] b timeout d w))) = ips"
proof -
  obtain t1 w1 where 1: "sys_tick P w = (t1, w1)" by force
  obtain t2 w2 where 2: "sys_tick P w1 = (t2, w2)" by force
  obtain d1 w3 where 3: "clear_retBreaker P d w2 = (d1, w3)" by force
  obtain sel w5 where 4: "SocketSelect_new apple P b junk w3 = (sel, w5)" by force
  obtain r sel2 b2 w6 where 5: "SocketSelect_SelectFor P (sint timeout)
      (SocketSelect_ReadFdSet (Breaker_Fd (dq_retBreaker d1))
        (SocketSelect_ExceptionFdSet (Breaker_Fd (dq_retBreaker d1)) (SocketSelect_PreSelect sel))) b w5 = ((r, sel2, b2), w6)"
    by (metis prod.collapse)
  have c: "dq_cacheIps d1 = dq_cacheIps d" using clear_retBreaker_fields [OF 3] by simp
  show ?thesis
    using assms by (simp add: GetHostByName_def Let_def 1 2 3 4 5 c split: prod.splits if_splits)
qed

definition demo_dns :: DnsQuery where
  "demo_dns = \<lparr>dq_hostName = ''a.example'', dq_cacheIps = [''10.0.0.1''],
     dq_retBreaker = \<lparr>br_pipe0 = 5, br_pipe1 = 6, br_broken = False\<rparr>, dq_getHttpDns = None\<rparr>"

theorem GetHostByName_result_witness:
  "let P = (quiet_posix :: nat posix)\<lparr>sys_getaddrinfo := (\<lambda>h w. (Some [''10.0.0.9''], w))\<rparr>;
       ((ok, ips, b', d'), w') =
         GetHostByName False 0 True P ''b.example'' ''1.2.3.4'' [] \<lparr>br_pipe0 = 3, br_pipe1 = 4, br_broken = False\<rparr> 2 demo_dns 0
   in ok \<longleftrightarrow> ips \<noteq> []"
proof -
  let ?P = "(quiet_posix :: nat posix)\<lparr>sys_getaddrinfo := (\<lambda>h w. (Some [''10.0.0.9''], w))\<rparr>"
  obtain ok ips b' d' w' where e: "GetHostByName False 0 True ?P ''b.example'' ''1.2.3.4'' []
     \<lparr>br_pipe0 = 3, br_pipe1 = 4, br_broken = False\<rparr> 2 demo_dns 0 = ((ok, ips, b', d'), w')" by (metis prod.collapse)
  from GetHostByName_result [OF e refl] e show ?thesis by simp
qed

theorem dns_timeout_stale_witness:
  "fst (snd (fst (GetHostByName False 0 False (quiet_posix :: nat posix) ''b.example'' ''1.2.3.4'' []
      \<lparr>br_pipe0 = 3, br_pipe1 = 4, br_broken = False\<rparr> 2 demo_dns 0))) = [''10.0.0.1'']"
proof -
  let ?g = "GetHostByName False 0 False (quiet_posix :: nat posix) ''a.example'' ''1.2.3.4'' []
      \<lparr>br_pipe0 = 3, br_pipe1 = 4, br_broken = False\<rparr> 2 demo_dns 0"
  have n: "dq_getHttpDns demo_dns = None" by (simp add: demo_dns_def)
  have f: "fst (fst ?g)"
    by (simp add: GetHostByName_def demo_dns_def quiet_posix_simps clear_retBreaker_def Breaker_Clear_def Breaker_ReCreate_def
        Breaker_Close_def SocketSelect_new_def SocketEpoll_new_def SocketEpoll_Poll_def SocketEpoll_BreakerIsBreak_def
        SocketEpoll_ReadFdIsSet_def SocketEpoll_ReadEvent_def SocketEpoll_ErrorEvent_def SocketEpoll_ClearEvent_def
        epoll_upd_def Let_def Breaker_Fd_def split: prod.splits)
  obtain ok ips b' d' w' where "?g = ((ok, ips, b', d'), w')" by (metis prod.collapse)
  with f have e: "?g = ((True, ips, b', d'), w')" by simp
  from dns_timeout_stale [OF n e, of "''b.example''"] show ?thesis by (simp add: demo_dns_def)
qed

end
