(* ===== verification/Client.thy ===== *)
theory Client
  imports Alarms Connectors Dns Messages
begin

text \<open>
  \<^verbatim>\<open>tcp_define.h\<close>, \<^verbatim>\<open>tcp_client.hpp\<close> and the operations of \<^verbatim>\<open>tcp_client.cpp\<close> that user threads, alarm
  callbacks and message handlers call. The record holds the members of \<^verbatim>\<open>TcpClient\<close> and the
  objects it shares with nobody else: the heap of the pooled alarms, the timer queue, the DNS
  singleton and the static TLS context. An application callback is a value of type \<open>'cb\<close>; a call of
  it is an entry of \<open>cl_calls\<close>, in the order in which the client starts the calls. Each function is
  what runs under the mutex of the source, or between two blocking calls.
\<close>

section \<open>Constants and enumerations\<close>

datatype DisconnectCode =
    kDisCodeNone
  | kDisCodeReset
  | kDisCodeNetChange
  | kDisCodeNetLost
  | kDisCodeKickout
  | kDisCodeLogout
  | kDisCodeConnectTimeout
  | kDisCodeSendReqTimeout
  | kDisCodePingTimeout

datatype NetType = kNetTypeUnknown | kNetTypeWifi | kNetTypeMobile | kNetTypeNoNet

datatype ConnectStatus = kConnectIdle | kConnecting | kConnected | kDisconnected | kConnectFailed | kConnectKickout

datatype ErrorCode = kErrorCodeNone | kErrorCodeNotConnect | kErrorCodeTimeout | kErrorCodeLoseConnect

text \<open>\<open>SvrDisUnnamed\<close>: any other byte cast to the enumeration.\<close>

datatype SvrDisCode = SvrDisNone | SvrDisKickout | SvrDisUnnamed u8

definition SvrDisCode_of :: "DisconnectType \<Rightarrow> SvrDisCode" where
  "SvrDisCode_of t = (case t of DiscTypeNone \<Rightarrow> SvrDisNone | DiscTypeKickout \<Rightarrow> SvrDisKickout | DiscTypeUnnamed v \<Rightarrow> SvrDisUnnamed v)"

definition kDnsTimeout :: u32 where "kDnsTimeout = 2"
definition kSocketTimeout :: int where "kSocketTimeout = 5"
definition kPingInterval :: int where "kPingInterval = 60"
definition kPingTimeout :: int where "kPingTimeout = 5"
definition kSendReqTimeout :: int where "kSendReqTimeout = 10"

definition complexConn :: ComplexConnect where
  "complexConn = \<lparr>cc_timeout = 10 * 1000, cc_interval = 4 * 1000, cc_errorInterval = 0, cc_maxConnect = 3\<rparr>"

definition UINT16_MAX :: u16 where "UINT16_MAX = 0xFFFF"

fun disCodeMap :: "DisconnectCode \<Rightarrow> string" where
  "disCodeMap kDisCodeNone = ''none''"
| "disCodeMap kDisCodeReset = ''reset''"
| "disCodeMap kDisCodeNetChange = ''net change''"
| "disCodeMap kDisCodeNetLost = ''net lost''"
| "disCodeMap kDisCodeKickout = ''kick out''"
| "disCodeMap kDisCodeLogout = ''logout''"
| "disCodeMap kDisCodeConnectTimeout = ''connect timeout''"
| "disCodeMap kDisCodeSendReqTimeout = ''send req timeout''"
| "disCodeMap kDisCodePingTimeout = ''ping timeout''"

section \<open>State\<close>

text \<open>The closures given to \<^verbatim>\<open>SetCallback\<close>, and the alarms the timer queue can call back.\<close>

datatype alarm_fn = ReconnectFn | PingFn | PingTimeoutFn | TimeoutFn nat

datatype alarm_ref = ReconnectAlarm | PingAlarm | PingTimeoutAlarm | PooledAlarm nat

datatype 'cb call =
    CallResp 'cb ErrorCode bytes
  | CallPush bytes bytes
  | CallStatus ConnectStatus
  | CallServerDisconnect SvrDisCode

record 'cb TcpClient =
  cl_host :: string
  cl_backupIp :: string
  cl_port :: u16
  cl_isTls :: bool
  cl_socket :: "socket_obj option"
  cl_reader :: TcpReader
  cl_writer :: TcpWriter
  cl_thread :: bool
  cl_disCode :: DisconnectCode
  cl_connectStatus :: ConnectStatus
  cl_onStatusChange :: bool
  cl_onSendReq :: bool
  cl_onServerDisconnect :: bool
  cl_getConnectInfo :: "(unit \<Rightarrow> bytes) option"
  cl_netType :: NetType
  cl_readWriteBreaker :: SocketBreaker
  cl_connectBreaker :: SocketBreaker
  cl_messageQueue :: "message list"
  cl_reconnectAlarm :: "alarm_fn Alarm"
  cl_pingAlarm :: "alarm_fn Alarm"
  cl_pingTimeoutAlarm :: "alarm_fn Alarm"
  cl_shouldReconnect :: bool
  cl_shouldNewBreaker :: bool
  cl_shouldNewConnBreaker :: bool
  cl_timeoutDisconnect :: bool
  cl_reconnectCount :: int
  cl_lastConnTick :: u64
  cl_currentMsgId :: u16
  cl_callbackMap :: "(u16, 'cb option) std_map"
  cl_timeoutAlarmMap :: "(u16, nat) std_map"
  cl_objectPool :: "nat ObjectPool"
  cl_alarms :: "alarm_fn Alarm list"
  cl_timers :: "alarm_ref MessageQueue"
  cl_dns :: DnsQuery
  cl_ctx :: "nat option"
  cl_calls :: "'cb call list"

text \<open>
  The constructor. \<open>rw\<close>, \<open>cb\<close>: the breakers it creates; \<open>dns\<close>: the singleton; the flags the source
  does not initialise come from the argument \<open>junk\<close>.
\<close>

definition TcpClient_new :: "int \<Rightarrow> bool \<Rightarrow> SocketBreaker \<Rightarrow> SocketBreaker \<Rightarrow> DnsQuery \<Rightarrow> 'cb TcpClient" where
  "TcpClient_new junk junkb rw cb dns =
     \<lparr>cl_host = '''', cl_backupIp = '''', cl_port = word_of_int junk, cl_isTls = junkb, cl_socket = None,
      cl_reader = \<lparr>tr_socket = None\<rparr>, cl_writer = \<lparr>tw_socket = None\<rparr>, cl_thread = False, cl_disCode = kDisCodeNone,
      cl_connectStatus = kConnectIdle, cl_onStatusChange = False, cl_onSendReq = False, cl_onServerDisconnect = False,
      cl_getConnectInfo = None, cl_netType = kNetTypeUnknown, cl_readWriteBreaker = rw, cl_connectBreaker = cb,
      cl_messageQueue = [], cl_reconnectAlarm = Alarm_new junk, cl_pingAlarm = Alarm_new junk,
      cl_pingTimeoutAlarm = Alarm_new junk, cl_shouldReconnect = junkb, cl_shouldNewBreaker = junkb,
      cl_shouldNewConnBreaker = junkb, cl_timeoutDisconnect = junkb, cl_reconnectCount = 0, cl_lastConnTick = 0,
      cl_currentMsgId = 1, cl_callbackMap = [], cl_timeoutAlarmMap = [], cl_objectPool = \<lparr>op_pool = []\<rparr>, cl_alarms = [],
      cl_timers = MessageQueue_new, cl_dns = dns, cl_ctx = None, cl_calls = []\<rparr>"

definition log_call :: "'cb call \<Rightarrow> 'cb TcpClient \<Rightarrow> 'cb TcpClient" where
  "log_call x c = c\<lparr>cl_calls := cl_calls c @ [x]\<rparr>"

subsection \<open>Alarms by reference\<close>

fun get_alarm :: "alarm_ref \<Rightarrow> 'cb TcpClient \<Rightarrow> alarm_fn Alarm" where
  "get_alarm ReconnectAlarm c = cl_reconnectAlarm c"
| "get_alarm PingAlarm c = cl_pingAlarm c"
| "get_alarm PingTimeoutAlarm c = cl_pingTimeoutAlarm c"
| "get_alarm (PooledAlarm i) c = cl_alarms c ! i"

fun put_alarm :: "alarm_ref \<Rightarrow> alarm_fn Alarm \<Rightarrow> 'cb TcpClient \<Rightarrow> 'cb TcpClient" where
  "put_alarm ReconnectAlarm a c = c\<lparr>cl_reconnectAlarm := a\<rparr>"
| "put_alarm PingAlarm a c = c\<lparr>cl_pingAlarm := a\<rparr>"
| "put_alarm PingTimeoutAlarm a c = c\<lparr>cl_pingTimeoutAlarm := a\<rparr>"
| "put_alarm (PooledAlarm i) a c = c\<lparr>cl_alarms := (cl_alarms c)[i := a]\<rparr>"

definition start_alarm :: "alarm_ref \<Rightarrow> int \<Rightarrow> int \<Rightarrow> 'cb TcpClient \<Rightarrow> 'cb TcpClient" where
  "start_alarm r now sec c =
     (case Alarm_Start (post_as r now) sec (get_alarm r c) (cl_timers c) of
        (_, a, q) \<Rightarrow> put_alarm r a (c\<lparr>cl_timers := q\<rparr>))"

definition cancel_alarm :: "alarm_ref \<Rightarrow> 'cb TcpClient \<Rightarrow> 'cb TcpClient" where
  "cancel_alarm r c =
     (case Alarm_Cancel CancelMessage (get_alarm r c) (cl_timers c) of
        (_, a, q) \<Rightarrow> put_alarm r a (c\<lparr>cl_timers := q\<rparr>))"

definition release_alarm :: "nat \<Rightarrow> 'cb TcpClient \<Rightarrow> 'cb TcpClient" where
  "release_alarm i c = c\<lparr>cl_objectPool := ObjectPool_Put i (cl_objectPool c)\<rparr>"

section \<open>Operations of the application\<close>

definition InitHostAndPort ::
  "bool \<Rightarrow> string \<Rightarrow> string \<Rightarrow> int \<Rightarrow> bool \<Rightarrow> (unit \<Rightarrow> bytes) option \<Rightarrow> 'cb TcpClient \<Rightarrow> 'cb TcpClient" where
  "InitHostAndPort withSsl host backupIp port isTls getConnectInfo c =
     c\<lparr>cl_host := host, cl_backupIp := backupIp, cl_port := word_of_int port,
       cl_isTls := (if withSsl then isTls else False), cl_getConnectInfo := getConnectInfo,
       cl_reconnectAlarm := Alarm_SetCallback ReconnectFn (cl_reconnectAlarm c),
       cl_pingAlarm := Alarm_SetCallback PingFn (cl_pingAlarm c),
       cl_pingTimeoutAlarm := Alarm_SetCallback PingTimeoutFn (cl_pingTimeoutAlarm c)\<rparr>"

definition SetHttpDns :: "(string \<Rightarrow> string list) option \<Rightarrow> 'cb TcpClient \<Rightarrow> 'cb TcpClient" where
  "SetHttpDns f c = c\<lparr>cl_dns := Dns_SetHttpDns f (cl_dns c)\<rparr>"

definition SetNetType :: "NetType \<Rightarrow> 'cb TcpClient \<Rightarrow> 'cb TcpClient" where
  "SetNetType t c = c\<lparr>cl_netType := t\<rparr>"

text \<open>The setters of the application's callbacks; the argument says that the callback is not null.\<close>

definition SetOnConnStatusChange :: "bool \<Rightarrow> 'cb TcpClient \<Rightarrow> 'cb TcpClient" where
  "SetOnConnStatusChange f c = c\<lparr>cl_onStatusChange := f\<rparr>"

definition SetOnServerDisconnect :: "bool \<Rightarrow> 'cb TcpClient \<Rightarrow> 'cb TcpClient" where
  "SetOnServerDisconnect f c = c\<lparr>cl_onServerDisconnect := f\<rparr>"

definition SetOnSendReq :: "bool \<Rightarrow> 'cb TcpClient \<Rightarrow> 'cb TcpClient" where
  "SetOnSendReq f c = c\<lparr>cl_onSendReq := f\<rparr>"

definition GetConnectStatus :: "'cb TcpClient \<Rightarrow> ConnectStatus" where
  "GetConnectStatus c = cl_connectStatus c"

definition MakeSureConnected :: "'w posix \<Rightarrow> 'cb TcpClient \<Rightarrow> 'w \<Rightarrow> 'cb TcpClient \<times> 'w" where
  "MakeSureConnected P c w =
     (if cl_connectStatus c = kConnected then (c, w)
      else if cl_thread c then (c, w)
      else let (_, b1, w1) = Breaker_Clear P (cl_readWriteBreaker c) w;
               (_, b2, w2) = Breaker_Clear P (cl_connectBreaker c) w1
           in (c\<lparr>cl_connectStatus := kConnectIdle, cl_disCode := kDisCodeNone, cl_shouldReconnect := True,
                 cl_shouldNewBreaker := False, cl_shouldNewConnBreaker := False, cl_timeoutDisconnect := False,
                 cl_readWriteBreaker := b1, cl_connectBreaker := b2, cl_messageQueue := [], cl_thread := True\<rparr>, w2))"

definition DisconnectAsync :: "'w posix \<Rightarrow> DisconnectCode \<Rightarrow> bool \<Rightarrow> 'cb TcpClient \<Rightarrow> 'w \<Rightarrow> 'cb TcpClient \<times> 'w" where
  "DisconnectAsync P code shouldReconnect c w =
     (if \<not> cl_thread c then (if shouldReconnect then MakeSureConnected P c w else (c, w))
      else let c1 = c\<lparr>cl_disCode := code, cl_shouldReconnect := shouldReconnect\<rparr>;
               (ok1, b1, w1) = Breaker_Break P (cl_readWriteBreaker c1) w;
               c2 = c1\<lparr>cl_readWriteBreaker := b1, cl_shouldNewBreaker := cl_shouldNewBreaker c1 \<or> \<not> ok1\<rparr>;
               w2 = (if ok1 then w1 else Breaker_Close P b1 w1);
               (ok2, b2, w3) = Breaker_Break P (cl_connectBreaker c2) w2;
               c3 = c2\<lparr>cl_connectBreaker := b2, cl_shouldNewConnBreaker := cl_shouldNewConnBreaker c2 \<or> \<not> ok2\<rparr>;
               w4 = (if ok2 then w3 else Breaker_Close P b2 w3)
           in (c3, w4))"

text \<open>A null callback is \<open>None\<close>, with or without an entry in the map.\<close>

definition GetCallback :: "u16 \<Rightarrow> 'cb TcpClient \<Rightarrow> 'cb option \<times> 'cb TcpClient" where
  "GetCallback messageId c =
     (case map_of (cl_callbackMap c) messageId of
        None \<Rightarrow> (None, c)
      | Some callback \<Rightarrow> (callback, c\<lparr>cl_callbackMap := map_erase messageId (cl_callbackMap c)\<rparr>))"

text \<open>The first loop of \<^verbatim>\<open>__WaitDisconnect\<close>: each alarm is cancelled and goes back to the pool.\<close>

fun cancel_timeouts :: "(u16, nat) std_map \<Rightarrow> 'cb TcpClient \<Rightarrow> 'cb TcpClient" where
  "cancel_timeouts [] c = c"
| "cancel_timeouts ((k, i) # m) c = cancel_timeouts m (release_alarm i (cancel_alarm (PooledAlarm i) c))"

text \<open>The second loop; \<open>True\<close> is the early return on a null callback.\<close>

fun lose_callbacks :: "u16 list \<Rightarrow> 'cb TcpClient \<Rightarrow> bool \<times> 'cb TcpClient" where
  "lose_callbacks [] c = (False, c)"
| "lose_callbacks (k # ks) c =
     (case GetCallback k c of
        (None, c1) \<Rightarrow> (True, c1)
      | (Some callback, c1) \<Rightarrow> lose_callbacks ks (log_call (CallResp callback kErrorCodeLoseConnect []) c1))"

text \<open>A breaker that failed to signal is rebuilt.\<close>

definition rebuild_breakers :: "'w posix \<Rightarrow> 'cb TcpClient \<Rightarrow> 'w \<Rightarrow> 'cb TcpClient \<times> 'w" where
  "rebuild_breakers P c w =
     (let (b1, w1) = (if cl_shouldNewBreaker c then snd (Breaker_ReCreate P (cl_readWriteBreaker c) w)
                      else (cl_readWriteBreaker c, w));
          (b2, w2) = (if cl_shouldNewConnBreaker c then snd (Breaker_ReCreate P (cl_connectBreaker c) w1)
                      else (cl_connectBreaker c, w1))
      in (c\<lparr>cl_readWriteBreaker := b1, cl_connectBreaker := b2\<rparr>, w2))"

text \<open>What \<^verbatim>\<open>__WaitDisconnect\<close> does once \<^verbatim>\<open>join\<close> has returned.\<close>

definition WaitDisconnect :: "'w posix \<Rightarrow> 'cb TcpClient \<Rightarrow> 'w \<Rightarrow> 'cb TcpClient \<times> 'w" where
  "WaitDisconnect P c w =
     (if \<not> cl_thread c then (c, w)
      else let timeoutMessageIds = map fst (cl_timeoutAlarmMap c);
               c1 = cancel_timeouts (cl_timeoutAlarmMap c) (c\<lparr>cl_thread := False\<rparr>);
               (early, c2) = lose_callbacks timeoutMessageIds (c1\<lparr>cl_timeoutAlarmMap := []\<rparr>)
           in if early then (c2, w) else rebuild_breakers P c2 w)"

definition next_msg_id :: "u16 \<Rightarrow> u16" where
  "next_msg_id i = (if i + 1 = UINT16_MAX then 1 else i + 1)"

text \<open>\<open>data\<close>: the \<^verbatim>\<open>dataLen\<close> bytes at \<^verbatim>\<open>data\<close>, \<open>None\<close> for a null pointer. \<open>func\<close>: \<open>None\<close> for null.\<close>

definition SendData ::
  "junk \<Rightarrow> 'w posix \<Rightarrow> bytes \<Rightarrow> bytes \<Rightarrow> bytes option \<Rightarrow> 'cb option \<Rightarrow> 'cb TcpClient \<Rightarrow> 'w \<Rightarrow> bool \<times> 'cb TcpClient \<times> 'w" where
  "SendData j P payloadType payload dat func c w =
     (if cl_connectStatus c \<noteq> kConnected
      then (False, case func of None \<Rightarrow> c | Some f \<Rightarrow> log_call (CallResp f kErrorCodeNotConnect []) c, w)
      else let c1 = c\<lparr>cl_callbackMap := map_put (cl_currentMsgId c) func (cl_callbackMap c)\<rparr>;
               req = (SendReq_new j)\<lparr>sq_type := payloadType, sq_payload := payload, sq_messageId := cl_currentMsgId c1\<rparr>;
               sendReq = (case dat of None \<Rightarrow> req | Some d \<Rightarrow> SendReq_SetData d req);
               c2 = c1\<lparr>cl_messageQueue := cl_messageQueue c1 @ [MSendReq sendReq],
                       cl_currentMsgId := next_msg_id (cl_currentMsgId c1)\<rparr>;
               (_, b, w1) = Breaker_Break P (cl_readWriteBreaker c2) w
           in (True, c2\<lparr>cl_readWriteBreaker := b\<rparr>, w1))"

definition Send :: "junk \<Rightarrow> 'w posix \<Rightarrow> bytes \<Rightarrow> bytes \<Rightarrow> 'cb option \<Rightarrow> 'cb TcpClient \<Rightarrow> 'w \<Rightarrow> bool \<times> 'cb TcpClient \<times> 'w" where
  "Send j P payloadType payload func c w = SendData j P payloadType payload None func c w"

definition SendNoReply :: "junk \<Rightarrow> 'w posix \<Rightarrow> bytes \<Rightarrow> bytes \<Rightarrow> 'cb TcpClient \<Rightarrow> 'w \<Rightarrow> bool \<times> 'cb TcpClient \<times> 'w" where
  "SendNoReply j P typ payload c w =
     (if cl_connectStatus c \<noteq> kConnected then (False, c, w)
      else let sendReq = (SendReq_new j)\<lparr>sq_type := typ, sq_payload := payload, sq_replyLevel := RLevelNoReply, sq_messageId := 0\<rparr>;
               (_, b, w1) = Breaker_Break P (cl_readWriteBreaker c) w
           in (True, c\<lparr>cl_messageQueue := cl_messageQueue c @ [MSendReq sendReq], cl_readWriteBreaker := b\<rparr>, w1))"

definition SendDisconnect :: "junk \<Rightarrow> 'w posix \<Rightarrow> 'cb TcpClient \<Rightarrow> 'w \<Rightarrow> 'cb TcpClient \<times> 'w" where
  "SendDisconnect j P c w =
     (if cl_connectStatus c \<noteq> kConnected then (c, w)
      else let (_, b, w1) = Breaker_Break P (cl_readWriteBreaker c) w
           in (c\<lparr>cl_messageQueue := cl_messageQueue c @ [MDisconnect (Disconnect_new j)], cl_readWriteBreaker := b\<rparr>, w1))"

text \<open>\<^verbatim>\<open>Disconnect\<close>: the thread has ended between the two calls.\<close>

definition Disconnect ::
  "('cb TcpClient \<times> 'w \<Rightarrow> 'cb TcpClient \<times> 'w) \<Rightarrow> 'w posix \<Rightarrow> DisconnectCode \<Rightarrow> bool \<Rightarrow> 'cb TcpClient \<Rightarrow> 'w \<Rightarrow> 'cb TcpClient \<times> 'w" where
  "Disconnect ended P code shouldReconnect c w =
     (case ended (DisconnectAsync P code shouldReconnect c w) of (c1, w1) \<Rightarrow> WaitDisconnect P c1 w1)"

definition TcpClient_delete ::
  "('cb TcpClient \<times> 'w \<Rightarrow> 'cb TcpClient \<times> 'w) \<Rightarrow> 'w posix \<Rightarrow> 'cb TcpClient \<Rightarrow> 'w \<Rightarrow> 'cb TcpClient \<times> 'w" where
  "TcpClient_delete ended P c w = Disconnect ended P kDisCodeReset False c w"

section \<open>Handlers\<close>

definition SetConnectStatus :: "ConnectStatus \<Rightarrow> 'cb TcpClient \<Rightarrow> 'cb TcpClient" where
  "SetConnectStatus status c =
     (if status = cl_connectStatus c then c
      else let c1 = c\<lparr>cl_connectStatus := status\<rparr>
           in if cl_onStatusChange c1 then log_call (CallStatus status) c1 else c1)"

definition handleSendReq :: "SendReq \<Rightarrow> 'cb TcpClient \<Rightarrow> 'cb TcpClient" where
  "handleSendReq sendReq c =
     (if cl_onSendReq c then log_call (CallPush (sq_type sendReq) (sq_payload sendReq)) c else c)"

definition handleSendResp :: "SendResp \<Rightarrow> 'cb TcpClient \<Rightarrow> 'cb TcpClient" where
  "handleSendResp sendResp c =
     (let messageId = sr_messageId sendResp;
          c1 = (case map_of (cl_timeoutAlarmMap c) messageId of
                  None \<Rightarrow> c
                | Some i \<Rightarrow>
                    let c' = cancel_alarm (PooledAlarm i) c
                    in release_alarm i (c'\<lparr>cl_timeoutAlarmMap := map_erase messageId (cl_timeoutAlarmMap c')\<rparr>))
      in case GetCallback messageId c1 of
           (None, c2) \<Rightarrow> c2
         | (Some callback, c2) \<Rightarrow> log_call (CallResp callback kErrorCodeNone (sr_payload sendResp)) c2)"

definition handleDisconnect :: "'w posix \<Rightarrow> DisconnectMsg \<Rightarrow> 'cb TcpClient \<Rightarrow> 'w \<Rightarrow> 'cb TcpClient \<times> 'w" where
  "handleDisconnect P m c w =
     (let disCode = SvrDisCode_of (dc_type m);
          (c1, w1) = (if disCode = SvrDisKickout then DisconnectAsync P kDisCodeKickout False c w else (c, w))
      in (if cl_onServerDisconnect c1 then log_call (CallServerDisconnect disCode) c1 else c1, w1))"

section \<open>Alarm callbacks\<close>

text \<open>The closure set on a request's alarm; \<open>i\<close> is the captured alarm.\<close>

definition request_timeout :: "'w posix \<Rightarrow> nat \<Rightarrow> 'cb TcpClient \<Rightarrow> 'w \<Rightarrow> 'cb TcpClient \<times> 'w" where
  "request_timeout P i c w =
     (let messageId = (word_of_int (al_userData (get_alarm (PooledAlarm i) c)) :: u16);
          c1 = (case map_of (cl_timeoutAlarmMap c) messageId of
                  None \<Rightarrow> c
                | Some k \<Rightarrow> release_alarm k (c\<lparr>cl_timeoutAlarmMap := map_erase messageId (cl_timeoutAlarmMap c)\<rparr>))
      in case GetCallback messageId c1 of
           (None, c2) \<Rightarrow> (c2, w)
         | (Some callback, c2) \<Rightarrow>
             let c3 = log_call (CallResp callback kErrorCodeTimeout []) c2
             in if cl_connectStatus c3 = kConnected \<and> \<not> cl_timeoutDisconnect c3
                then DisconnectAsync P kDisCodeSendReqTimeout True (c3\<lparr>cl_timeoutDisconnect := True\<rparr>) w
                else (c3, w))"

definition break_readWrite :: "'w posix \<Rightarrow> 'cb TcpClient \<Rightarrow> 'w \<Rightarrow> 'cb TcpClient \<times> 'w" where
  "break_readWrite P c w =
     (case Breaker_Break P (cl_readWriteBreaker c) w of (_, b, w1) \<Rightarrow> (c\<lparr>cl_readWriteBreaker := b\<rparr>, w1))"

definition reconnect :: "'w posix \<Rightarrow> 'cb TcpClient \<Rightarrow> 'w \<Rightarrow> 'cb TcpClient \<times> 'w" where
  "reconnect P c w =
     (let (c1, w1) = WaitDisconnect P c w
      in if cl_shouldReconnect c1
         then MakeSureConnected P (c1\<lparr>cl_reconnectCount := cl_reconnectCount c1 + 1\<rparr>) w1
         else (c1, w1))"

fun on_alarm :: "'w posix \<Rightarrow> alarm_fn \<Rightarrow> 'cb TcpClient \<Rightarrow> 'w \<Rightarrow> 'cb TcpClient \<times> 'w" where
  "on_alarm P ReconnectFn c w = reconnect P c w"
| "on_alarm P PingFn c w = break_readWrite P c w"
| "on_alarm P PingTimeoutFn c w = break_readWrite P c w"
| "on_alarm P (TimeoutFn i) c w = request_timeout P i c w"

text \<open>The timer queue calls the alarm back.\<close>

definition fire_alarm :: "'w posix \<Rightarrow> alarm_ref \<Rightarrow> 'cb TcpClient \<Rightarrow> 'w \<Rightarrow> 'cb TcpClient \<times> 'w" where
  "fire_alarm P r c w =
     (case Alarm_fire (get_alarm r c) of
        (None, a) \<Rightarrow> (put_alarm r a c, w)
      | (Some f, a) \<Rightarrow> on_alarm P f (put_alarm r a c) w)"

end
