(* ===== verification/ClientLoop.thy ===== *)
theory ClientLoop
  imports Client
begin

text \<open>
  The client's thread: \<^verbatim>\<open>__RunConnect\<close>, \<^verbatim>\<open>__RunReadWrite\<close> and \<^verbatim>\<open>__Run\<close> of \<^verbatim>\<open>tcp_client.cpp\<close>, as computations
  over the client and the world. What the other threads (the application, the timer queue) do
  in the meantime is the argument \<open>env\<close>, applied where the source blocks or releases its locks.
  The value the source reads through the dangling pointer of the decoded \<^verbatim>\<open>ConnAck\<close> is \<open>stale\<close> of the
  message. A call that does not return is the fault \<open>NoReturn\<close>.
\<close>

section \<open>Parameters of a run\<close>

record ('cb, 'w, 'z) run_env =
  re_apple :: bool
  re_junk :: int
  re_junk64 :: u64
  re_msgJunk :: junk
  re_answered :: bool
  re_posix :: "'w posix"
  re_zlib :: "'z zlib"
  re_stale :: "message \<Rightarrow> ReturnCode"
  re_env :: "'cb TcpClient \<times> 'w \<Rightarrow> 'cb TcpClient \<times> 'w"

type_synonym ('cb, 'w, 'a) client_io = "('cb TcpClient \<times> 'w, 'a) io"

definition others :: "('cb, 'w, 'z) run_env \<Rightarrow> ('cb, 'w, unit) client_io" where
  "others E s = (Inr (), re_env E s)"

definition world :: "('w \<Rightarrow> 'a \<times> 'w) \<Rightarrow> ('cb, 'w, 'a) client_io" where
  "world f = onWorld (lift f)"

definition handle :: "('cb TcpClient \<Rightarrow> 'w \<Rightarrow> 'cb TcpClient \<times> 'w) \<Rightarrow> ('cb, 'w, unit) client_io" where
  "handle f s = (Inr (), f (fst s) (snd s))"

definition send_message :: "('cb, 'w, 'z) run_env \<Rightarrow> message \<Rightarrow> ('cb, 'w, TcpException + message) client_io" where
  "send_message E m =
     seq (reads cl_writer) (\<lambda>writer.
     onWorld (catchExc (EncodeMessage (re_zlib E) (TcpWriter_Write (re_posix E) writer) m)))"

definition receive_message :: "('cb, 'w, 'z) run_env \<Rightarrow> ('cb, 'w, TcpException + message) client_io" where
  "receive_message E =
     seq (reads cl_reader) (\<lambda>reader.
     onWorld (catchExc (DecodeMessage (re_zlib E) (re_msgJunk E) (TcpReader_ReadFull (re_posix E) reader))))"

section \<open>Connecting\<close>

datatype conn_ret = kRetConnFailed | kRetConnSuccess | kRetConnTimeout | kRetConnKickout

text \<open>The loop that repeats the addresses until there are three; an index past the end is undefined.\<close>

function fill_addrs :: "string list \<Rightarrow> u16 \<Rightarrow> bool \<Rightarrow> nat \<Rightarrow> AddrInfo list \<Rightarrow> fault + AddrInfo list" where
  "fill_addrs ips port tls ipIndex addrs =
     (if length addrs < 3
      then if ipIndex < length ips
           then fill_addrs ips port tls (if ipIndex + 1 \<ge> length ips then 0 else ipIndex + 1)
                  (addrs @ [\<lparr>ai_ip = ips ! ipIndex, ai_port = port, ai_isTls = tls\<rparr>])
           else Inl Undefined
      else Inr addrs)"
  by pat_completeness auto
termination by (relation "measure (\<lambda>(ips, port, tls, i, addrs). 3 - length addrs)") auto

declare fill_addrs.simps [simp del]

text \<open>The delay before a reconnect.\<close>

definition connect_delay :: "'w posix \<Rightarrow> ('cb, 'w, unit) client_io" where
  "connect_delay P =
     seq (world (sys_tick P)) (\<lambda>currentTick.
     seq (reads cl_lastConnTick) (\<lambda>lastConnTick.
     if currentTick - lastConnTick < 300000 \<or> lastConnTick = 0
     then seq (reads cl_reconnectCount) (\<lambda>reconnectCount.
          if reconnectCount > 5 then world (\<lambda>w. ((), sys_sleep P 1 w)) else ret ())
     else update (\<lambda>c. c\<lparr>cl_reconnectCount := 0\<rparr>)))"

definition resolve :: "('cb, 'w, 'z) run_env \<Rightarrow> ('cb, 'w, string list option) client_io" where
  "resolve E s =
     (let (c, w) = s;
          ((ok, ips, b, d), w') = GetHostByName (re_apple E) (re_junk E) (re_answered E) (re_posix E) (cl_host c) (cl_backupIp c)
             [] (cl_connectBreaker c) kDnsTimeout (cl_dns c) w
      in (Inr (if ok then Some ips else None), c\<lparr>cl_connectBreaker := b, cl_dns := d\<rparr>, w'))"

definition race :: "('cb, 'w, 'z) run_env \<Rightarrow> AddrInfo list \<Rightarrow> ('cb, 'w, unit) client_io" where
  "race E addrs s =
     (let (c, w) = s
      in case ConnectImpatient (re_apple E) (re_junk E) (re_junk64 E) (re_posix E) complexConn addrs
                (cl_connectBreaker c) (cl_ctx c) w of
           None \<Rightarrow> (Inl NoReturn, s)
         | Some (Inl f, w') \<Rightarrow> (Inl f, (c, w'))
         | Some (Inr (so, b, ctx), w') \<Rightarrow>
             (Inr (), c\<lparr>cl_socket := so, cl_connectBreaker := b, cl_ctx := ctx\<rparr>, w'))"

definition set_option :: "'w posix \<Rightarrow> int \<Rightarrow> sockopt \<Rightarrow> ('cb, 'w, int) client_io" where
  "set_option P fd opt = world (sys_setsockopt P fd opt)"

text \<open>The exchange of the \<^verbatim>\<open>Connect\<close> and \<^verbatim>\<open>ConnAck\<close> messages.\<close>

definition login :: "('cb, 'w, 'z) run_env \<Rightarrow> bytes \<Rightarrow> ('cb, 'w, conn_ret) client_io" where
  "login E connectInfo =
     (let connect = (Connect_new (re_msgJunk E))\<lparr>cn_payload := connectInfo, cn_protocolName := kProtocolName,
                      cn_protocolVersion := kProtocolVersion, cn_keepAlive := word_of_int kPingInterval,
                      cn_enableGzip := kEnableGzip\<rparr>
      in seq (send_message E (MConnect connect)) (\<lambda>r.
         case r of
           Inl e \<Rightarrow> ret kRetConnFailed
         | Inr _ \<Rightarrow>
             seq (receive_message E) (\<lambda>r'.
             case r' of
               Inl e \<Rightarrow> ret (if errorNo e = c_EAGAIN (re_posix E) then kRetConnTimeout else kRetConnFailed)
             | Inr connAck \<Rightarrow>
                 let code = re_stale E connAck
                 in if code = RetCodeAccepted then seq (world (sys_tick (re_posix E))) (\<lambda>_. ret kRetConnSuccess)
                    else if code = RetCodeNotAuthorized
                    then seq (update (\<lambda>c. c\<lparr>cl_shouldReconnect := False\<rparr>)) (\<lambda>_.
                         seq (world (sys_tick (re_posix E))) (\<lambda>_. ret kRetConnKickout))
                    else seq (world (sys_tick (re_posix E))) (\<lambda>_. ret kRetConnFailed))))"

text \<open>From the race to the login.\<close>

definition setup_socket :: "('cb, 'w, 'z) run_env \<Rightarrow> ('cb, 'w, conn_ret) client_io" where
  "setup_socket E =
     (let P = re_posix E
      in seq (reads cl_socket) (\<lambda>socket.
         case socket of
           None \<Rightarrow> ret kRetConnFailed
         | Some so \<Rightarrow>
             if Socket_IsInvalid so then ret kRetConnFailed
             else let fd = Socket_GetSocket so
                  in seq (set_option P fd (SO_RCVTIMEO kSocketTimeout)) (\<lambda>r1.
                     if r1 \<noteq> 0 then ret kRetConnFailed
                     else seq (set_option P fd (SO_SNDTIMEO kSocketTimeout)) (\<lambda>r2.
                     if r2 \<noteq> 0 then ret kRetConnFailed
                     else seq (update (\<lambda>c. c\<lparr>cl_writer := \<lparr>tw_socket = Some so\<rparr>, cl_reader := \<lparr>tr_socket = Some so\<rparr>\<rparr>)) (\<lambda>_.
                          seq (reads cl_netType) (\<lambda>netType.
                          seq (if netType = kNetTypeWifi then world (socket_fix_tcp_mss P fd) else ret 0) (\<lambda>_.
                          seq (world (socket_disable_nagle P fd 1)) (\<lambda>_.
                          seq (reads cl_getConnectInfo) (\<lambda>info.
                          case info of
                            None \<Rightarrow> ret kRetConnFailed
                          | Some getConnectInfo \<Rightarrow>
                              seq (world (sys_tick P)) (\<lambda>lastTick. login E (getConnectInfo ())))))))))))"

definition connect_body :: "('cb, 'w, 'z) run_env \<Rightarrow> ('cb, 'w, conn_ret) client_io" where
  "connect_body E =
     seq (connect_delay (re_posix E)) (\<lambda>_.
     seq (others E) (\<lambda>_.
     seq (reads id) (\<lambda>c.
     if cl_netType c = kNetTypeNoNet
     then seq (update (\<lambda>c. c\<lparr>cl_shouldReconnect := False\<rparr>)) (\<lambda>_. ret kRetConnFailed)
     else if cl_host c = '''' then ret kRetConnFailed
     else if cl_backupIp c = '''' then ret kRetConnFailed
     else seq (resolve E) (\<lambda>ips.
          case ips of
            None \<Rightarrow> ret kRetConnFailed
          | Some ips \<Rightarrow>
              (case fill_addrs ips (cl_port c) (cl_isTls c) 0 [] of
                 Inl f \<Rightarrow> fail f
               | Inr addrs \<Rightarrow>
                   seq (race E addrs) (\<lambda>_.
                   seq (others E) (\<lambda>_. setup_socket E)))))))"

definition RunConnect :: "('cb, 'w, 'z) run_env \<Rightarrow> ('cb, 'w, conn_ret) client_io" where
  "RunConnect E = seq (update (SetConnectStatus kConnecting)) (\<lambda>_. connect_body E)"

section \<open>Reading and writing\<close>

text \<open>The part of an iteration before \<^verbatim>\<open>Select\<close>.\<close>

definition rw_prepare :: "('cb, 'w, 'z) run_env \<Rightarrow> u64 \<Rightarrow> ('cb, 'w, int \<times> SocketSelect) client_io" where
  "rw_prepare E loopStartTick =
     (let P = re_posix E
      in seq (world (sys_tick P)) (\<lambda>curTick.
         seq (update (\<lambda>c. if cl_reconnectCount c \<noteq> 0 \<and> curTick - loopStartTick > 5 * 1000 then c\<lparr>cl_reconnectCount := 0\<rparr> else c)) (\<lambda>_.
         seq (handle (\<lambda>c w. (if \<not> Alarm_IsWaiting (cl_pingAlarm c) then start_alarm PingAlarm (sys_clock P w) kPingInterval c else c, w))) (\<lambda>_.
         seq (reads cl_readWriteBreaker) (\<lambda>breaker.
         seq (world (SocketSelect_new (re_apple E) P breaker (re_junk E))) (\<lambda>sel.
         seq (reads cl_socket) (\<lambda>socket.
         case socket of
           None \<Rightarrow> fail Undefined
         | Some so \<Rightarrow>
             let fd = Socket_GetSocket so;
                 sel1 = SocketSelect_ExceptionFdSet fd (SocketSelect_ReadFdSet fd (SocketSelect_PreSelect sel))
             in seq (reads cl_messageQueue) (\<lambda>queue.
                ret (fd, if queue \<noteq> [] then SocketSelect_WriteFdSet fd sel1 else sel1)))))))))"

definition rw_select :: "('cb, 'w, 'z) run_env \<Rightarrow> SocketSelect \<Rightarrow> ('cb, 'w, int \<times> SocketSelect) client_io" where
  "rw_select E sel s =
     (let (c, w) = s;
          ((r, sel', b), w') = SocketSelect_Select (re_posix E) sel (cl_readWriteBreaker c) w
      in (Inr (r, sel'), c\<lparr>cl_readWriteBreaker := b\<rparr>, w'))"

text \<open>The alarm of a request that was written; \<open>junk\<close> is the uninitialised part of a new alarm.\<close>

definition take_alarm :: "int \<Rightarrow> 'cb TcpClient \<Rightarrow> nat \<times> 'cb TcpClient" where
  "take_alarm junk c =
     (let fresh = length (cl_alarms c);
          (i, pool) = ObjectPool_Get fresh (cl_objectPool c)
      in (i, c\<lparr>cl_objectPool := pool, 
              cl_alarms := (if op_pool (cl_objectPool c) = [] then cl_alarms c @ [Alarm_new junk] else cl_alarms c)\<rparr>))"

definition store_alarm :: "u16 \<Rightarrow> nat \<Rightarrow> 'cb TcpClient \<Rightarrow> 'cb TcpClient" where
  "store_alarm messageId i c =
     (let old = map_of (cl_timeoutAlarmMap c) messageId;
          c1 = c\<lparr>cl_timeoutAlarmMap := map_put messageId i (cl_timeoutAlarmMap c)\<rparr>
      in case old of None \<Rightarrow> c1 | Some k \<Rightarrow> release_alarm k c1)"

definition start_timeout :: "int \<Rightarrow> int \<Rightarrow> u16 \<Rightarrow> 'cb TcpClient \<Rightarrow> 'cb TcpClient" where
  "start_timeout junk now messageId c =
     (let (i, c1) = take_alarm junk c;
          a = get_alarm (PooledAlarm i) c1;
          c2 = put_alarm (PooledAlarm i) (Alarm_SetCallback (TimeoutFn i) (a\<lparr>al_userData := uint messageId\<rparr>)) c1;
          c3 = start_alarm (PooledAlarm i) now kSendReqTimeout c2
      in store_alarm messageId i c3)"

text \<open>Writing the front message; \<open>True\<close> is a return from the loop.\<close>

definition rw_write :: "('cb, 'w, 'z) run_env \<Rightarrow> message \<Rightarrow> ('cb, 'w, bool) client_io" where
  "rw_write E message =
     (let P = re_posix E
      in seq (send_message E message) (\<lambda>r.
         case r of
           Inl e \<Rightarrow> ret True
         | Inr _ \<Rightarrow>
             seq (handle (\<lambda>c w. (case message of
                      MSendReq sendReq \<Rightarrow> start_timeout (re_junk E) (sys_clock P w) (sq_messageId sendReq) c | _ \<Rightarrow> c, w))) (\<lambda>_.
             seq (update (\<lambda>c. c\<lparr>cl_messageQueue := tl (cl_messageQueue c)\<rparr>)) (\<lambda>_.
             seq (handle (\<lambda>c w. (start_alarm PingAlarm (sys_clock P w) kPingInterval (cancel_alarm PingAlarm c), w))) (\<lambda>_.
             ret False)))))"

text \<open>The switch on the message type; a cast to the wrong class is undefined.\<close>

definition rw_dispatch :: "'w posix \<Rightarrow> message \<Rightarrow> ('cb, 'w, unit) client_io" where
  "rw_dispatch P message =
     (case GetMsgType message of
        kMsgPingResp \<Rightarrow> update (cancel_alarm PingTimeoutAlarm)
      | kMsgSendReq \<Rightarrow> (case message of MSendReq m \<Rightarrow> update (handleSendReq m) | _ \<Rightarrow> fail Undefined)
      | kMsgSendResp \<Rightarrow> (case message of MSendResp m \<Rightarrow> update (handleSendResp m) | _ \<Rightarrow> fail Undefined)
      | kMsgDisconnect \<Rightarrow> (case message of MDisconnect m \<Rightarrow> handle (handleDisconnect P m) | _ \<Rightarrow> fail Undefined)
      | _ \<Rightarrow> ret ())"

definition rw_read :: "('cb, 'w, 'z) run_env \<Rightarrow> ('cb, 'w, bool) client_io" where
  "rw_read E =
     seq (receive_message E) (\<lambda>r.
     case r of Inl e \<Rightarrow> ret True | Inr message \<Rightarrow> seq (rw_dispatch (re_posix E) message) (\<lambda>_. ret False))"

definition rw_ping :: "('cb, 'w, 'z) run_env \<Rightarrow> ('cb, 'w, bool) client_io" where
  "rw_ping E =
     seq (reads cl_pingAlarm) (\<lambda>pingAlarm.
     if \<not> Alarm_IsAlarm pingAlarm then ret False
     else seq (send_message E (MPingReq (PingReq_new (re_msgJunk E)))) (\<lambda>r.
          case r of
            Inl e \<Rightarrow> ret True
          | Inr _ \<Rightarrow>
              seq (handle (\<lambda>c w. (start_alarm PingTimeoutAlarm (sys_clock (re_posix E) w) kPingTimeout
                                   (cancel_alarm PingTimeoutAlarm c), w))) (\<lambda>_. ret False)))"

text \<open>\<open>m unless stop\<close>: the rest of an iteration after a step that may have returned from the loop.\<close>

definition unless_stop :: "('cb, 'w, bool) client_io \<Rightarrow> ('cb, 'w, bool) client_io \<Rightarrow> ('cb, 'w, bool) client_io" where
  "unless_stop m k = seq m (\<lambda>stop. if stop then ret True else k)"

text \<open>The part of an iteration after \<^verbatim>\<open>Select\<close>.\<close>

definition rw_checks :: "('cb, 'w, 'z) run_env \<Rightarrow> int \<Rightarrow> int \<Rightarrow> SocketSelect \<Rightarrow> ('cb, 'w, bool) client_io" where
  "rw_checks E fd selRet sel =
     seq (reads id) (\<lambda>c.
     if cl_disCode c \<noteq> kDisCodeNone then ret True
     else if selRet < 0 then ret True
     else if SocketSelect_IsException sel (cl_readWriteBreaker c) then ret True
     else if SocketSelect_ExceptionFdIsSet sel fd
     then seq (world (sys_so_error (re_posix E) fd)) (\<lambda>_. ret True)
     else if Alarm_IsAlarm (cl_pingTimeoutAlarm c)
     then seq (update (\<lambda>c. c\<lparr>cl_disCode := kDisCodePingTimeout\<rparr>)) (\<lambda>_. ret True)
     else ret False)"

definition rw_after :: "('cb, 'w, 'z) run_env \<Rightarrow> int \<Rightarrow> int \<Rightarrow> SocketSelect \<Rightarrow> ('cb, 'w, bool) client_io" where
  "rw_after E fd selRet sel =
     unless_stop (rw_checks E fd selRet sel)
     (unless_stop (seq (reads cl_messageQueue) (\<lambda>queue.
        case queue of
          [] \<Rightarrow> ret False
        | message # _ \<Rightarrow> if SocketSelect_WriteFdIsSet sel fd then rw_write E message else ret False))
     (unless_stop (if SocketSelect_ReadFdIsSet sel fd then rw_read E else ret False)
     (rw_ping E)))"

text \<open>One iteration; the other threads act while it waits and before the next one.\<close>

definition rw_round :: "('cb, 'w, 'z) run_env \<Rightarrow> u64 \<Rightarrow> ('cb, 'w, bool) client_io" where
  "rw_round E loopStartTick =
     seq (rw_prepare E loopStartTick) (\<lambda>(fd, sel).
     seq (others E) (\<lambda>_.
     seq (rw_select E sel) (\<lambda>(selRet, sel').
     seq (others E) (\<lambda>_.
     seq (rw_after E fd selRet sel') (\<lambda>stop.
     seq (world (\<lambda>w. ((), SocketSelect_delete (re_posix E) sel' w))) (\<lambda>_.
     seq (others E) (\<lambda>_. ret stop)))))))"

partial_function (option) rw_loop ::
  "('cb, 'w, 'z) run_env \<Rightarrow> u64 \<Rightarrow> 'cb TcpClient \<times> 'w \<Rightarrow> ((fault + unit) \<times> ('cb TcpClient \<times> 'w)) option" where
  "rw_loop E loopStartTick s =
     (case rw_round E loopStartTick s of
        (Inl f, s') \<Rightarrow> Some (Inl f, s')
      | (Inr stop, s') \<Rightarrow> if stop then Some (Inr (), s') else rw_loop E loopStartTick s')"

text \<open>
  \<^verbatim>\<open>common/scope_guard\<close>: an object on the stack whose destructor runs the closure it was made with, when the
  scope is left by a return or by an exception.
\<close>

definition ScopeGuard :: "('s, unit) io \<Rightarrow> ('s, 'a) io \<Rightarrow> ('s, 'a) io" where
  "ScopeGuard onExit body s =
     (case body s of
        (Inr a, s1) \<Rightarrow> seq onExit (\<lambda>_. ret a) s1
      | (Inl (Throw e), s1) \<Rightarrow> seq onExit (\<lambda>_. fail (Throw e)) s1
      | (Inl f, s1) \<Rightarrow> (Inl f, s1))"

definition RunReadWrite :: "('cb, 'w, 'z) run_env \<Rightarrow> ('cb, 'w, unit) client_io" where
  "RunReadWrite E =
     ScopeGuard (update (\<lambda>c. cancel_alarm PingTimeoutAlarm (cancel_alarm PingAlarm c)))
       (seq (world (sys_tick (re_posix E))) (\<lambda>loopStartTick s.
          case rw_loop E loopStartTick s of None \<Rightarrow> (Inl NoReturn, s) | Some r \<Rightarrow> r))"

section \<open>The thread\<close>

definition close_socket :: "'w posix \<Rightarrow> 'cb TcpClient \<Rightarrow> 'w \<Rightarrow> 'cb TcpClient \<times> 'w" where
  "close_socket P c w =
     (case cl_socket c of
        None \<Rightarrow> (c, w)
      | Some so \<Rightarrow> (case Socket_Close P so w of (_, w') \<Rightarrow> (c\<lparr>cl_socket := None\<rparr>, w')))"

definition status_of :: "conn_ret \<Rightarrow> ConnectStatus" where
  "status_of r = (case r of kRetConnSuccess \<Rightarrow> kConnected | kRetConnKickout \<Rightarrow> kConnectKickout | _ \<Rightarrow> kConnectFailed)"

definition Run :: "('cb, 'w, 'z) run_env \<Rightarrow> ('cb, 'w, unit) client_io" where
  "Run E =
     seq (RunConnect E) (\<lambda>r.
     seq (update (SetConnectStatus (status_of r))) (\<lambda>_.
     seq (others E) (\<lambda>_.
     seq (case r of
            kRetConnSuccess \<Rightarrow> RunReadWrite E
          | kRetConnTimeout \<Rightarrow>
              seq (reads cl_socket) (\<lambda>socket.
              case socket of
                None \<Rightarrow> fail Undefined
              | Some so \<Rightarrow> seq (set_option (re_posix E) (Socket_GetSocket so) (SO_LINGER 1 0)) (\<lambda>_. ret ()))
          | _ \<Rightarrow> ret ()) (\<lambda>_.
     seq (handle (close_socket (re_posix E))) (\<lambda>_.
     seq (update (SetConnectStatus kDisconnected)) (\<lambda>_.
     handle (\<lambda>c w. (start_alarm ReconnectAlarm (sys_clock (re_posix E) w) 0 c, w))))))))"

end
