(* ===== verification/ClientSafety.thy ===== *)
theory ClientSafety
  imports ClientLoop
begin

text \<open>
  The invariant of the client, and that every operation of \<^verbatim>\<open>tcp_client.cpp\<close> keeps it.
\<close>

section \<open>The invariant\<close>

text \<open>
  \<open>owned c\<close>: the alarms the pool and the map of running timeouts own. \<open>cl_ok\<close>: both maps are ordered,
  message ids are in range, the timer queue is well formed, every owned alarm exists and has one
  owner, and the status of each alarm agrees with its message id.
\<close>

definition owned :: "'cb TcpClient \<Rightarrow> nat list" where
  "owned c = map snd (cl_timeoutAlarmMap c) @ op_pool (cl_objectPool c)"

definition msg_id_ok :: "u16 \<Rightarrow> bool" where
  "msg_id_ok i \<longleftrightarrow> i \<noteq> 0 \<and> i \<noteq> UINT16_MAX"

definition alarms_ok :: "'cb TcpClient \<Rightarrow> bool" where
  "alarms_ok c \<longleftrightarrow> queue_ok (cl_timers c) \<and> queue_timer.armed (cl_reconnectAlarm c) \<and> queue_timer.armed (cl_pingAlarm c) \<and>
     queue_timer.armed (cl_pingTimeoutAlarm c) \<and> list_all queue_timer.armed (cl_alarms c)"

definition owners_ok :: "'cb TcpClient \<Rightarrow> bool" where
  "owners_ok c \<longleftrightarrow> map_ok (cl_timeoutAlarmMap c) \<and> distinct (owned c) \<and> list_all (\<lambda>i. i < length (cl_alarms c)) (owned c)"

definition cl_ok :: "'cb TcpClient \<Rightarrow> bool" where
  "cl_ok c \<longleftrightarrow> map_ok (cl_callbackMap c) \<and> msg_id_ok (cl_currentMsgId c) \<and> alarms_ok c \<and> owners_ok c"

lemmas cl_ok_defs = cl_ok_def alarms_ok_def owners_ok_def owned_def

text \<open>Fields the invariant does not look at.\<close>

definition same_core :: "'cb TcpClient \<Rightarrow> 'cb TcpClient \<Rightarrow> bool" where
  "same_core c c' \<longleftrightarrow> cl_callbackMap c' = cl_callbackMap c \<and> cl_currentMsgId c' = cl_currentMsgId c \<and>
     cl_timers c' = cl_timers c \<and> cl_alarms c' = cl_alarms c \<and> cl_objectPool c' = cl_objectPool c \<and>
     cl_timeoutAlarmMap c' = cl_timeoutAlarmMap c \<and> cl_reconnectAlarm c' = cl_reconnectAlarm c \<and>
     cl_pingAlarm c' = cl_pingAlarm c \<and> cl_pingTimeoutAlarm c' = cl_pingTimeoutAlarm c"

lemma same_core_ok: "same_core c c' \<Longrightarrow> cl_ok c \<Longrightarrow> cl_ok c'"
  by (simp add: same_core_def cl_ok_defs)

lemma next_msg_id_ok: "msg_id_ok i \<Longrightarrow> msg_id_ok (next_msg_id i)"
proof -
  assume "msg_id_ok i"
  then have "i + 1 \<noteq> 0" by (auto simp: msg_id_ok_def UINT16_MAX_def eq_neg_iff_add_eq_0 [symmetric])
  then show ?thesis by (simp add: msg_id_ok_def next_msg_id_def UINT16_MAX_def)
qed

subsection \<open>Alarms\<close>

lemma alarms_ok_put:
  "alarms_ok c \<Longrightarrow> queue_ok q \<Longrightarrow> queue_timer.armed a \<Longrightarrow> alarms_ok (put_alarm r a (c\<lparr>cl_timers := q\<rparr>))"
  by (cases r) (auto simp: alarms_ok_def list_all_iff dest!: set_update_subset_insert [THEN subsetD])

text \<open>What an operation on an alarm leaves alone.\<close>

definition same_owners :: "'cb TcpClient \<Rightarrow> 'cb TcpClient \<Rightarrow> bool" where
  "same_owners c c' \<longleftrightarrow> cl_callbackMap c' = cl_callbackMap c \<and> cl_currentMsgId c' = cl_currentMsgId c \<and>
     length (cl_alarms c') = length (cl_alarms c) \<and> cl_objectPool c' = cl_objectPool c \<and>
     cl_timeoutAlarmMap c' = cl_timeoutAlarmMap c"

lemma same_owners_ok: "same_owners c c' \<Longrightarrow> alarms_ok c' \<Longrightarrow> cl_ok c \<Longrightarrow> cl_ok c'"
  by (simp add: same_owners_def cl_ok_def owners_ok_def owned_def)

lemma same_owners_put [simp]: "same_owners c (put_alarm r a (c\<lparr>cl_timers := q\<rparr>))" "same_owners c (put_alarm r a c)"
  by (cases r; simp add: same_owners_def)+

text \<open>A reference is valid when it names a member or an existing pooled alarm.\<close>

fun valid_ref :: "alarm_ref \<Rightarrow> 'cb TcpClient \<Rightarrow> bool" where
  "valid_ref (PooledAlarm i) c = (i < length (cl_alarms c))"
| "valid_ref r c = True"

lemma armed_get_valid: "alarms_ok c \<Longrightarrow> valid_ref r c \<Longrightarrow> queue_timer.armed (get_alarm r c)"
  by (cases r) (auto simp: alarms_ok_def list_all_length)

lemma start_alarm_ok:
  assumes "alarms_ok c" "valid_ref r c"
  shows "alarms_ok (start_alarm r now sec c)" "same_owners c (start_alarm r now sec c)"
proof -
  obtain b a q where s: "Alarm_Start (post_as r now) sec (get_alarm r c) (cl_timers c) = (b, a, q)" by (metis prod_cases3)
  have q: "queue_ok (cl_timers c)" using assms(1) by (simp add: alarms_ok_def)
  have "queue_ok q" "queue_timer.armed a"
    using queue_timer.Start_cases [OF q s] queue_timer.armed_Start [OF q armed_get_valid [OF assms] s] by simp_all
  then show "alarms_ok (start_alarm r now sec c)" "same_owners c (start_alarm r now sec c)"
    using alarms_ok_put [OF assms(1)] s by (simp_all add: start_alarm_def)
qed

lemma cancel_alarm_ok:
  assumes "alarms_ok c" "valid_ref r c"
  shows "alarms_ok (cancel_alarm r c)" "same_owners c (cancel_alarm r c)"
proof -
  obtain b a q where s: "Alarm_Cancel CancelMessage (get_alarm r c) (cl_timers c) = (b, a, q)" by (metis prod_cases3)
  have q: "queue_ok (cl_timers c)" using assms(1) by (simp add: alarms_ok_def)
  have "queue_ok q" "queue_timer.armed a"
    using queue_timer.Cancel_cases [OF q s] queue_timer.armed_Cancel [OF q armed_get_valid [OF assms] s] by simp_all
  then show "alarms_ok (cancel_alarm r c)" "same_owners c (cancel_alarm r c)"
    using alarms_ok_put [OF assms(1)] s by (simp_all add: cancel_alarm_def)
qed

lemma cl_ok_alarms [dest]: "cl_ok c \<Longrightarrow> alarms_ok c"
  by (simp add: cl_ok_def)

lemma start_alarm_cl_ok: "cl_ok c \<Longrightarrow> valid_ref r c \<Longrightarrow> cl_ok (start_alarm r now sec c)"
  using start_alarm_ok [of c r now sec] same_owners_ok by blast

lemma cancel_alarm_cl_ok: "cl_ok c \<Longrightarrow> valid_ref r c \<Longrightarrow> cl_ok (cancel_alarm r c)"
  using cancel_alarm_ok [of c r] same_owners_ok by blast

subsection \<open>Ownership\<close>

lemma map_snd_erase:
  assumes "map_ok m" "map_of m k = Some i"
  shows "mset (map snd (map_erase k m)) = mset (map snd m) - {#i#}"
  using assms
proof (induction m)
  case (Cons x m)
  obtain k' v where x: "x = (k', v)" by force
  have ok: "map_ok m" using Cons.prems by (simp add: map_ok_def)
  show ?case
  proof (cases "k' = k")
    case True
    have "map_erase k m = m"
      using Cons.prems(1) x True by (auto simp: map_erase_def filter_id_conv map_ok_def)
    with Cons.prems x True show ?thesis by (simp add: map_erase_def)
  next
    case False
    then have s: "map_of m k = Some i" using Cons.prems x by simp
    then have "i \<in># mset (map snd m)" by (force dest: map_of_SomeD)
    with False x Cons.IH [OF ok s] show ?thesis by (simp add: map_erase_def)
  qed
qed simp

lemma map_snd_put:
  assumes "map_ok m"
  shows "mset (map snd (map_put k i m)) =
     add_mset i (case map_of m k of None \<Rightarrow> mset (map snd m) | Some j \<Rightarrow> mset (map snd m) - {#j#})"
  using assms
proof (induction k i m rule: map_put.induct)
  case (2 k v k' v' m)
  have ok: "map_ok m" using 2 by (simp add: map_ok_def)
  consider "k < k'" | "k = k'" | "\<not> k < k'" "k \<noteq> k'" by blast
  then show ?case
  proof cases
    case 1
    have "map_of m k = None" using 2(2) 1 by (force simp: map_ok_def map_of_eq_None_iff)
    with 1 show ?thesis by simp
  next
    case 3
    have "v \<in># mset (map snd m)" if "map_of m k = Some v" for v
      using map_of_SomeD [OF that] by force
    with 3 2(1) [OF 3 ok] show ?thesis by (auto split: option.splits simp: multiset_eq_iff)
  qed simp
qed simp

text \<open>Ownership depends on the multiset of owned alarms only.\<close>

lemma owners_ok_perm:
  assumes "mset (owned c') = mset xs" "map_ok (cl_timeoutAlarmMap c')"
  shows "owners_ok c' \<longleftrightarrow> distinct xs \<and> (\<forall>i \<in> set xs. i < length (cl_alarms c'))"
  using assms mset_eq_imp_distinct_iff [OF assms(1)] mset_eq_setD [OF assms(1)] by (simp add: owners_ok_def list_all_iff)

lemma erase_release_ok:
  assumes "owners_ok c" "map_of (cl_timeoutAlarmMap c) k = Some i"
  shows "owners_ok (release_alarm i (c\<lparr>cl_timeoutAlarmMap := map_erase k (cl_timeoutAlarmMap c)\<rparr>))"
proof -
  let ?c = "release_alarm i (c\<lparr>cl_timeoutAlarmMap := map_erase k (cl_timeoutAlarmMap c)\<rparr>)"
  have m: "map_ok (cl_timeoutAlarmMap c)" using assms(1) by (simp add: owners_ok_def)
  have "i \<in># mset (map snd (cl_timeoutAlarmMap c))" using assms(2) by (force dest: map_of_SomeD)
  then have p: "mset (owned ?c) = mset (owned c)"
    using map_snd_erase [OF m assms(2)] by (simp add: owned_def release_alarm_def ObjectPool_Put_def)
  have "owners_ok ?c \<longleftrightarrow> distinct (owned c) \<and> (\<forall>i \<in> set (owned c). i < length (cl_alarms c))"
    using owners_ok_perm [OF p] m by (simp add: release_alarm_def)
  with assms(1) show ?thesis by (simp add: owners_ok_def list_all_iff)
qed

lemma cancel_timeouts_fields:
  assumes "alarms_ok c" "\<forall>i \<in> snd ` set m. i < length (cl_alarms c)"
  shows "alarms_ok (cancel_timeouts m c) \<and> length (cl_alarms (cancel_timeouts m c)) = length (cl_alarms c) \<and>
     op_pool (cl_objectPool (cancel_timeouts m c)) = op_pool (cl_objectPool c) @ map snd m \<and>
     cl_callbackMap (cancel_timeouts m c) = cl_callbackMap c \<and> cl_currentMsgId (cancel_timeouts m c) = cl_currentMsgId c"
  using assms
proof (induction m c rule: cancel_timeouts.induct)
  case (2 k i m c)
  let ?c = "release_alarm i (cancel_alarm (PooledAlarm i) c)"
  have v: "valid_ref (PooledAlarm i) c" using 2(3) by simp
  note a = cancel_alarm_ok [OF 2(2) v]
  have r: "alarms_ok ?c" "length (cl_alarms ?c) = length (cl_alarms c)"
    using a by (simp_all add: release_alarm_def alarms_ok_def same_owners_def)
  have "\<forall>i \<in> snd ` set m. i < length (cl_alarms ?c)" using 2(3) r(2) by simp
  from 2(1) [OF r(1) this] r(2) a(2) show ?case
    by (simp add: release_alarm_def ObjectPool_Put_def same_owners_def)
qed simp

lemma take_store_ok:
  assumes "owners_ok c" "take_alarm junk c = (i, c1)" "same_owners c1 c2"
  shows "owners_ok (store_alarm k i c2)" "valid_ref (PooledAlarm i) c1"
proof -
  let ?m = "cl_timeoutAlarmMap c" and ?p = "op_pool (cl_objectPool c)" and ?c = "store_alarm k i c2"
  have m: "map_ok ?m" using assms(1) by (simp add: owners_ok_def)
  have c2: "cl_timeoutAlarmMap c2 = ?m" "length (cl_alarms c2) = length (cl_alarms c1)"
    "op_pool (cl_objectPool c2) = butlast ?p"
    using assms(2,3) by (auto simp: take_alarm_def same_owners_def ObjectPool_Get_def split: if_splits)
  have i: "if ?p = [] then i = length (cl_alarms c) \<and> length (cl_alarms c1) = Suc i
           else i = last ?p \<and> length (cl_alarms c1) = length (cl_alarms c)"
    using assms(2) by (auto simp: take_alarm_def ObjectPool_Get_def split: if_splits)
  have pool: "mset ?p = (if ?p = [] then {#} else add_mset (last ?p) (mset (butlast ?p)))"
    by (metis append_butlast_last_id mset.simps(1) mset.simps(2) mset_append union_code union_commute union_mset_add_mset_right
        add_mset_add_single)
  have old: "j \<in># mset (map snd ?m)" if "map_of ?m k = Some j" for j using map_of_SomeD [OF that] by force
  have store: "cl_timeoutAlarmMap ?c = map_put k i ?m" "length (cl_alarms ?c) = length (cl_alarms c1)"
    "op_pool (cl_objectPool ?c) = butlast ?p @ (case map_of ?m k of None \<Rightarrow> [] | Some j \<Rightarrow> [j])"
    using c2 by (auto simp: store_alarm_def release_alarm_def ObjectPool_Put_def Let_def split: option.splits)
  have p: "mset (owned ?c) = mset (if ?p = [] then i # owned c else owned c)"
    using map_snd_put [OF m, of k i] old pool i store
    by (cases "map_of ?m k"; cases "?p = []") (auto simp: owned_def)
  have "owners_ok ?c \<longleftrightarrow> distinct (if ?p = [] then i # owned c else owned c) \<and>
     (\<forall>j \<in> set (if ?p = [] then i # owned c else owned c). j < length (cl_alarms ?c))"
    by (rule owners_ok_perm [OF p]) (simp add: store m)
  with assms(1) i store show "owners_ok ?c" by (cases "?p = []") (auto simp: owners_ok_def list_all_iff)
  show "valid_ref (PooledAlarm i) c1"
    using i assms(1) last_in_set [of ?p] by (cases "?p = []") (auto simp: owners_ok_def owned_def list_all_iff)
qed

section \<open>Operations keep the invariant\<close>

lemma log_call_core [simp]: "same_core c (log_call x c)"
  by (simp add: same_core_def log_call_def)

lemma log_call_ok [simp]: "cl_ok (log_call x c) \<longleftrightarrow> cl_ok c"
  by (simp add: cl_ok_defs log_call_def)

lemma MakeSureConnected_ok: "cl_ok c \<Longrightarrow> cl_ok (fst (MakeSureConnected P c w))"
  by (rule same_core_ok [of c]) (auto simp: MakeSureConnected_def same_core_def split: prod.splits)

lemma DisconnectAsync_thread:
  assumes "cl_thread c"
  obtains b1 b2 n1 n2 w' where "DisconnectAsync P code re c w =
    (c\<lparr>cl_disCode := code, cl_shouldReconnect := re, cl_readWriteBreaker := b1, cl_shouldNewBreaker := n1,
       cl_connectBreaker := b2, cl_shouldNewConnBreaker := n2\<rparr>, w')"
proof -
  obtain ok1 b1 w1 where 1: "Breaker_Break P (cl_readWriteBreaker c) w = (ok1, b1, w1)" by (metis prod_cases3)
  obtain ok2 b2 w3 where 2: "Breaker_Break P (cl_connectBreaker c) (if ok1 then w1 else Breaker_Close P b1 w1) = (ok2, b2, w3)"
    by (metis prod_cases3)
  have "DisconnectAsync P code re c w =
    (c\<lparr>cl_disCode := code, cl_shouldReconnect := re, cl_readWriteBreaker := b1,
       cl_shouldNewBreaker := cl_shouldNewBreaker c \<or> \<not> ok1, cl_connectBreaker := b2,
       cl_shouldNewConnBreaker := cl_shouldNewConnBreaker c \<or> \<not> ok2\<rparr>, if ok2 then w3 else Breaker_Close P b2 w3)"
    using assms by (simp add: DisconnectAsync_def Let_def 1 2)
  then show thesis by (rule that)
qed

lemma DisconnectAsync_ok:
  assumes "cl_ok c"
  shows "cl_ok (fst (DisconnectAsync P code re c w))"
proof (cases "cl_thread c")
  case True
  obtain b1 b2 n1 n2 w' where "DisconnectAsync P code re c w =
    (c\<lparr>cl_disCode := code, cl_shouldReconnect := re, cl_readWriteBreaker := b1, cl_shouldNewBreaker := n1,
       cl_connectBreaker := b2, cl_shouldNewConnBreaker := n2\<rparr>, w')"
    by (rule DisconnectAsync_thread [OF True])
  then show ?thesis by (intro same_core_ok [OF _ assms]) (simp add: same_core_def)
next
  case False
  with assms show ?thesis by (simp add: DisconnectAsync_def MakeSureConnected_ok)
qed

lemma GetCallback_ok: "cl_ok c \<Longrightarrow> cl_ok (snd (GetCallback k c))"
  by (auto simp: GetCallback_def cl_ok_defs split: option.splits)

lemma lose_callbacks_ok: "cl_ok c \<Longrightarrow> cl_ok (snd (lose_callbacks ks c))"
proof (induction ks c rule: lose_callbacks.induct)
  case (2 k ks c)
  then show ?case
    using GetCallback_ok [OF 2(2), of k] by (auto split: prod.splits option.splits)
qed simp

lemma drop_timeouts_ok:
  assumes "cl_ok c"
  shows "cl_ok ((cancel_timeouts (cl_timeoutAlarmMap c) (c\<lparr>cl_thread := t\<rparr>))\<lparr>cl_timeoutAlarmMap := []\<rparr>)"
proof -
  let ?c = "c\<lparr>cl_thread := t\<rparr>"
  have a: "alarms_ok ?c" using assms by (simp add: cl_ok_def alarms_ok_def)
  have b: "\<forall>i \<in> snd ` set (cl_timeoutAlarmMap c). i < length (cl_alarms ?c)"
    using assms by (auto simp: cl_ok_def owners_ok_def owned_def list_all_iff)
  show ?thesis
    using cancel_timeouts_fields [OF a b] assms by (auto simp: cl_ok_defs)
qed

lemma WaitDisconnect_ok: "cl_ok c \<Longrightarrow> cl_ok (fst (WaitDisconnect P c w))"
proof -
  assume c: "cl_ok c"
  obtain early c2 where l: "lose_callbacks (map fst (cl_timeoutAlarmMap c))
      ((cancel_timeouts (cl_timeoutAlarmMap c) (c\<lparr>cl_thread := False\<rparr>))\<lparr>cl_timeoutAlarmMap := []\<rparr>) = (early, c2)" by force
  have c2: "cl_ok c2"
    using lose_callbacks_ok [OF drop_timeouts_ok [OF c], of "map fst (cl_timeoutAlarmMap c)" False] l by simp
  have "cl_ok (fst (rebuild_breakers P c2 w))"
    by (rule same_core_ok [OF _ c2]) (simp add: same_core_def rebuild_breakers_def split: prod.splits)
  then show ?thesis using c c2 l by (simp add: WaitDisconnect_def)
qed

lemma SendData_ok: "cl_ok c \<Longrightarrow> cl_ok (fst (snd (SendData j P typ payload dat func c w)))"
  using next_msg_id_ok
  by (auto simp: SendData_def cl_ok_defs log_call_def Let_def split: prod.splits option.splits)

lemma SendNoReply_ok: "cl_ok c \<Longrightarrow> cl_ok (fst (snd (SendNoReply j P typ payload c w)))"
  by (auto simp: SendNoReply_def cl_ok_defs Let_def split: prod.splits)

lemma SendDisconnect_ok: "cl_ok c \<Longrightarrow> cl_ok (fst (SendDisconnect j P c w))"
  by (auto simp: SendDisconnect_def cl_ok_defs Let_def split: prod.splits)

lemma SetConnectStatus_ok: "cl_ok c \<Longrightarrow> cl_ok (SetConnectStatus st c)"
  by (rule same_core_ok [of c]) (auto simp: SetConnectStatus_def same_core_def log_call_def Let_def)

lemma handleSendReq_ok: "cl_ok c \<Longrightarrow> cl_ok (handleSendReq m c)"
  by (simp add: handleSendReq_def)

lemma drop_timeout_ok:
  assumes "cl_ok c" "map_of (cl_timeoutAlarmMap c) k = Some i"
  shows "cl_ok (release_alarm i (c\<lparr>cl_timeoutAlarmMap := map_erase k (cl_timeoutAlarmMap c)\<rparr>))"
  using assms erase_release_ok [OF _ assms(2)] by (auto simp: cl_ok_def alarms_ok_def release_alarm_def)

lemma owned_valid: "cl_ok c \<Longrightarrow> map_of (cl_timeoutAlarmMap c) k = Some i \<Longrightarrow> valid_ref (PooledAlarm i) c"
  by (force simp: cl_ok_def owners_ok_def owned_def list_all_iff dest: map_of_SomeD)

lemma handleSendResp_ok:
  assumes "cl_ok c"
  shows "cl_ok (handleSendResp m c)"
proof -
  let ?k = "sr_messageId m"
  define c1 where "c1 = (case map_of (cl_timeoutAlarmMap c) ?k of
      None \<Rightarrow> c
    | Some i \<Rightarrow> release_alarm i ((cancel_alarm (PooledAlarm i) c)\<lparr>cl_timeoutAlarmMap :=
        map_erase ?k (cl_timeoutAlarmMap (cancel_alarm (PooledAlarm i) c))\<rparr>))"
  have c1: "cl_ok c1"
  proof (cases "map_of (cl_timeoutAlarmMap c) ?k")
    case (Some i)
    have v: "valid_ref (PooledAlarm i) c" by (rule owned_valid [OF assms Some])
    have s: "map_of (cl_timeoutAlarmMap (cancel_alarm (PooledAlarm i) c)) ?k = Some i"
      using cancel_alarm_ok(2) [OF cl_ok_alarms [OF assms] v] Some by (simp add: same_owners_def)
    from drop_timeout_ok [OF cancel_alarm_cl_ok [OF assms v] s] Some show ?thesis by (simp add: c1_def)
  qed (use assms in \<open>simp add: c1_def\<close>)
  have "handleSendResp m c = (case GetCallback ?k c1 of
      (None, c2) \<Rightarrow> c2 | (Some callback, c2) \<Rightarrow> log_call (CallResp callback kErrorCodeNone (sr_payload m)) c2)"
    unfolding handleSendResp_def c1_def Let_def by (rule refl)
  with GetCallback_ok [OF c1, of ?k] show ?thesis by (auto split: prod.splits option.splits)
qed

lemma handleDisconnect_ok: "cl_ok c \<Longrightarrow> cl_ok (fst (handleDisconnect P m c w))"
  using DisconnectAsync_ok [of c P kDisCodeKickout False w]
  by (auto simp: handleDisconnect_def Let_def split: prod.splits)

lemma request_timeout_ok:
  assumes "cl_ok c"
  shows "cl_ok (fst (request_timeout P i c w))"
proof -
  let ?k = "word_of_int (al_userData (get_alarm (PooledAlarm i) c)) :: u16"
  define c1 where "c1 = (case map_of (cl_timeoutAlarmMap c) ?k of
      None \<Rightarrow> c | Some k \<Rightarrow> release_alarm k (c\<lparr>cl_timeoutAlarmMap := map_erase ?k (cl_timeoutAlarmMap c)\<rparr>))"
  have "cl_ok c1" using assms drop_timeout_ok [OF assms] by (auto simp: c1_def split: option.splits)
  then have c2: "cl_ok (snd (GetCallback ?k c1))" by (rule GetCallback_ok)
  obtain cb c2 where g: "GetCallback ?k c1 = (cb, c2)" by force
  have t: "cl_ok (c3\<lparr>cl_timeoutDisconnect := b\<rparr>)" if "cl_ok c3" for c3 :: "'a TcpClient" and b
    by (rule same_core_ok [OF _ that]) (simp add: same_core_def)
  have r: "request_timeout P i c w = (case GetCallback ?k c1 of
      (None, c2) \<Rightarrow> (c2, w)
    | (Some callback, c2) \<Rightarrow>
        let c3 = log_call (CallResp callback kErrorCodeTimeout []) c2
        in if cl_connectStatus c3 = kConnected \<and> \<not> cl_timeoutDisconnect c3
           then DisconnectAsync P kDisCodeSendReqTimeout True (c3\<lparr>cl_timeoutDisconnect := True\<rparr>) w
           else (c3, w))"
    unfolding request_timeout_def c1_def Let_def by (rule refl)
  show ?thesis
    unfolding r using c2 g by (cases cb) (auto simp: Let_def intro!: DisconnectAsync_ok t)
qed

lemma break_readWrite_ok: "cl_ok c \<Longrightarrow> cl_ok (fst (break_readWrite P c w))"
  by (rule same_core_ok [of c]) (auto simp: break_readWrite_def same_core_def split: prod.splits)

lemma reconnect_ok: "cl_ok c \<Longrightarrow> cl_ok (fst (reconnect P c w))"
proof -
  assume c: "cl_ok c"
  obtain c1 w1 where w: "WaitDisconnect P c w = (c1, w1)" by force
  have "cl_ok c1" using WaitDisconnect_ok [OF c, of P w] w by simp
  moreover from this have "cl_ok (c1\<lparr>cl_reconnectCount := n\<rparr>)" for n
    by (rule same_core_ok [rotated]) (simp add: same_core_def)
  ultimately show ?thesis using w by (simp add: reconnect_def MakeSureConnected_ok)
qed

lemma fire_alarm_ok:
  assumes "cl_ok c" "valid_ref r c"
  shows "cl_ok (fst (fire_alarm P r c w))"
proof -
  obtain f a where f: "Alarm_fire (get_alarm r c) = (f, a)" by force
  have q: "queue_ok (cl_timers c)" "alarms_ok c" using assms by (simp_all add: cl_ok_def alarms_ok_def)
  have a: "queue_timer.armed a"
    using queue_timer.armed_fire [OF armed_get_valid [OF q(2) assms(2)]] f by simp
  have "alarms_ok (put_alarm r a c)" using alarms_ok_put [OF q(2,1) a, of r] by simp
  then have c1: "cl_ok (put_alarm r a c)" using same_owners_ok [OF same_owners_put(2) _ assms(1)] by blast
  have "cl_ok (fst (on_alarm P fn (put_alarm r a c) w))" for fn
    by (cases fn) (simp_all add: reconnect_ok break_readWrite_ok request_timeout_ok c1)
  with f c1 show ?thesis by (cases f) (simp_all add: fire_alarm_def)
qed

lemma start_timeout_ok:
  assumes "cl_ok c"
  shows "cl_ok (start_timeout junk now k c)"
proof -
  obtain i c1 where t: "take_alarm junk c = (i, c1)" by force
  let ?a = "Alarm_SetCallback (TimeoutFn i) ((get_alarm (PooledAlarm i) c1)\<lparr>al_userData := uint k\<rparr>)"
  let ?c2 = "put_alarm (PooledAlarm i) ?a c1"
  let ?c3 = "start_alarm (PooledAlarm i) now kSendReqTimeout ?c2"
  have o: "owners_ok c" and a: "alarms_ok c" using assms by (simp_all add: cl_ok_def)
  have v1: "valid_ref (PooledAlarm i) c1" by (rule take_store_ok(2) [OF o t, of c1]) (simp add: same_owners_def)
  have a1: "alarms_ok c1" and f1: "cl_callbackMap c1 = cl_callbackMap c" "cl_currentMsgId c1 = cl_currentMsgId c"
    using a t queue_timer.armed_new [of junk] by (auto simp: take_alarm_def alarms_ok_def Let_def split: prod.splits if_splits)
  have "queue_timer.armed (get_alarm (PooledAlarm i) c1)" by (rule armed_get_valid [OF a1 v1])
  then have "queue_timer.armed ?a" by (simp add: queue_timer.armed_def Alarm_SetCallback_def)
  then have a2: "alarms_ok ?c2" using alarms_ok_put [OF a1, of "cl_timers c1" ?a "PooledAlarm i"] a1 by (simp add: alarms_ok_def)
  have v2: "valid_ref (PooledAlarm i) ?c2" using v1 by simp
  note s = start_alarm_ok [OF a2 v2, of now kSendReqTimeout]
  have c13: "same_owners c1 ?c3" using s(2) by (simp add: same_owners_def)
  have "owners_ok (store_alarm k i ?c3)" by (rule take_store_ok(1) [OF o t c13])
  moreover have "alarms_ok (store_alarm k i ?c3)"
    using s(1) by (auto simp: store_alarm_def release_alarm_def alarms_ok_def Let_def split: option.splits)
  ultimately show ?thesis
    using assms t f1 c13 by (auto simp: start_timeout_def cl_ok_def store_alarm_def release_alarm_def same_owners_def Let_def split: option.splits)
qed

end
