(* ===== verification/ClientThread.thy ===== *)
theory ClientThread
  imports ClientSafety
begin

text \<open>
  The client's thread under interference: a small logic for the computations of the thread, the
  locale of predicates a run keeps, the steps of the other threads (what a run relies on), and the
  steps of the whole client, with the invariant of every reachable state.
\<close>

section \<open>Invariants of the thread\<close>

subsection \<open>Rules for the monad\<close>

text \<open>\<open>keeps I m\<close>: \<open>m\<close> keeps \<open>I\<close> of the client, whether it returns or faults.\<close>

definition keeps :: "('c \<Rightarrow> bool) \<Rightarrow> ('c \<times> 'w, 'a) io \<Rightarrow> bool" where
  "keeps I m \<longleftrightarrow> (\<forall>s. I (fst s) \<longrightarrow> I (fst (snd (m s))))"

named_theorems keeps_rules "introduction rules for keeps"

lemma keeps_ret [keeps_rules]: "keeps I (ret a)"
  by (simp add: keeps_def)

lemma keeps_fail [keeps_rules]: "keeps I (fail f)"
  by (simp add: keeps_def)

lemma keeps_seq [keeps_rules]: "keeps I m \<Longrightarrow> (\<And>a. keeps I (k a)) \<Longrightarrow> keeps I (seq m k)"
  by (auto simp: keeps_def seq_def split: prod.splits sum.splits) (metis fst_conv snd_conv)+

lemma keeps_ScopeGuard [keeps_rules]:
  fixes body :: "('c \<times> 'w, 'a) io"
  assumes "keeps I onExit" "keeps I body"
  shows "keeps I (ScopeGuard onExit body)"
  unfolding keeps_def
proof (intro allI impI)
  fix s :: "'c \<times> 'w"
  assume "I (fst s)"
  moreover obtain r s1 where b: "body s = (r, s1)" by (rule prod.exhaust)
  ultimately have "I (fst s1)" using assms(2) unfolding keeps_def by (metis snd_conv)
  moreover have "keeps I (seq onExit (\<lambda>_. ret a))" "keeps I (seq onExit (\<lambda>_. fail f) :: ('c \<times> 'w, 'a) io)" for a :: 'a and f
    by (intro keeps_rules assms(1))+
  ultimately show "I (fst (snd (ScopeGuard onExit body s)))"
    using b by (cases s1) (auto simp: ScopeGuard_def keeps_def split: sum.split fault.split)
qed

lemma keeps_reads [keeps_rules]: "keeps I (reads f)"
  by (simp add: keeps_def reads_def)

lemma keeps_onWorld [keeps_rules]: "keeps I (onWorld m)"
  by (simp add: keeps_def onWorld_def split: prod.splits)

lemma keeps_world [keeps_rules]: "keeps I (world f)"
  unfolding world_def by (rule keeps_onWorld)

lemma keeps_set_option [keeps_rules]: "keeps I (set_option P fd opt)"
  unfolding set_option_def by (rule keeps_world)

lemma keeps_send [keeps_rules]: "keeps I (send_message E m)" "keeps I (receive_message E)"
  unfolding send_message_def receive_message_def by (intro keeps_rules)+

lemma keeps_update: "(\<And>c. I c \<Longrightarrow> I (f c)) \<Longrightarrow> keeps I (update f)"
  by (simp add: keeps_def update_def)

lemma keeps_handle: "(\<And>c w. I c \<Longrightarrow> I (fst (f c w))) \<Longrightarrow> keeps I (handle f)"
  by (simp add: keeps_def handle_def)

lemma keeps_if [keeps_rules]: "(b \<Longrightarrow> keeps I m) \<Longrightarrow> (\<not> b \<Longrightarrow> keeps I k) \<Longrightarrow> keeps I (if b then m else k)"
  by simp

lemma keeps_option [keeps_rules]:
  "(x = None \<Longrightarrow> keeps I m) \<Longrightarrow> (\<And>y. x = Some y \<Longrightarrow> keeps I (k y)) \<Longrightarrow> keeps I (case x of None \<Rightarrow> m | Some y \<Rightarrow> k y)"
  by (cases x) simp_all

lemma keeps_sum [keeps_rules]:
  "(\<And>y. x = Inl y \<Longrightarrow> keeps I (m y)) \<Longrightarrow> (\<And>y. x = Inr y \<Longrightarrow> keeps I (k y)) \<Longrightarrow> keeps I (case x of Inl y \<Rightarrow> m y | Inr y \<Rightarrow> k y)"
  by (cases x) simp_all

lemma keeps_list [keeps_rules]:
  "(x = [] \<Longrightarrow> keeps I m) \<Longrightarrow> (\<And>y ys. x = y # ys \<Longrightarrow> keeps I (k y ys)) \<Longrightarrow> keeps I (case x of [] \<Rightarrow> m | y # ys \<Rightarrow> k y ys)"
  by (cases x) simp_all

lemma keeps_prod [keeps_rules]: "(\<And>a b. x = (a, b) \<Longrightarrow> keeps I (k a b)) \<Longrightarrow> keeps I (case x of (a, b) \<Rightarrow> k a b)"
  by (cases x) simp

lemma keeps_unless [keeps_rules]: "keeps I m \<Longrightarrow> keeps I k \<Longrightarrow> keeps I (unless_stop m k)"
  unfolding unless_stop_def by (intro keeps_rules)

lemma keepsD: "keeps I m \<Longrightarrow> m (c, w) = (r, c', w') \<Longrightarrow> I c \<Longrightarrow> I c'"
  unfolding keeps_def by (metis fst_conv snd_conv)

subsection \<open>What the thread relies on\<close>

text \<open>
  \<open>same_shared\<close>: nothing changed but the fields that only the thread and \<^verbatim>\<open>MakeSureConnected\<close> write. The
  locale lists the operations through which the thread changes the client; a predicate they all
  keep is kept by a whole run, given that the other threads keep it.
\<close>

definition same_shared :: "'cb TcpClient \<Rightarrow> 'cb TcpClient \<Rightarrow> bool" where
  "same_shared c c' \<longleftrightarrow> same_core c c' \<and> cl_thread c' = cl_thread c \<and> cl_calls c' = cl_calls c \<and>
     cl_connectStatus c' = cl_connectStatus c \<and> cl_onStatusChange c' = cl_onStatusChange c"

locale thread_frame =
  fixes P :: "'w posix" and I :: "'cb TcpClient \<Rightarrow> bool"
  assumes frame: "I c \<Longrightarrow> same_shared c c' \<Longrightarrow> I c'"
    and start_member: "I c \<Longrightarrow> r \<in> {ReconnectAlarm, PingAlarm, PingTimeoutAlarm} \<Longrightarrow> I (start_alarm r now sec c)"
    and cancel_member: "I c \<Longrightarrow> r \<in> {PingAlarm, PingTimeoutAlarm} \<Longrightarrow> I (cancel_alarm r c)"
    and request: "I c \<Longrightarrow> I (start_timeout junk now k c)"
    and push: "I c \<Longrightarrow> I (handleSendReq m c)"
    and response: "I c \<Longrightarrow> I (handleSendResp r' c)"
    and kicked: "I c \<Longrightarrow> I (fst (handleDisconnect P d c w))"
begin

definition undisturbed :: "('cb, 'w, 'z) run_env \<Rightarrow> bool" where
  "undisturbed E \<longleftrightarrow> re_posix E = P \<and> (\<forall>s. I (fst s) \<longrightarrow> I (fst (re_env E s)))"

lemma keeps_others: "undisturbed E \<Longrightarrow> keeps I (others E)"
  by (simp add: undisturbed_def keeps_def others_def)

lemma keeps_frame: "(\<And>c. same_shared c (f c)) \<Longrightarrow> keeps I (update f)"
  by (rule keeps_update) (blast intro: frame)

lemma keeps_sameI: "(\<And>s. same_shared (fst s) (fst (snd (m s)))) \<Longrightarrow> keeps I m"
  unfolding keeps_def by (blast intro: frame)

lemma keeps_delay: "keeps I (connect_delay Q)"
  unfolding connect_delay_def by (intro keeps_rules keeps_frame) (simp add: same_shared_def same_core_def)

lemma keeps_resolve: "keeps I (resolve E)"
  by (rule keeps_sameI) (simp add: resolve_def same_shared_def same_core_def split: prod.splits)

lemma keeps_race: "keeps I (race E addrs)"
  by (rule keeps_sameI) (simp add: race_def same_shared_def same_core_def split: prod.splits option.splits sum.splits)

lemma keeps_login: "keeps I (login E info)"
  unfolding login_def Let_def by (intro keeps_rules keeps_frame) (simp add: same_shared_def same_core_def)

lemma keeps_setup: "keeps I (setup_socket E)"
  unfolding setup_socket_def Let_def
  by (intro keeps_rules keeps_frame keeps_login) (simp add: same_shared_def same_core_def)

lemma keeps_connect: "undisturbed E \<Longrightarrow> keeps I (connect_body E)"
  unfolding connect_body_def
  by (intro keeps_rules keeps_frame keeps_delay keeps_resolve keeps_race keeps_setup keeps_others)
    (simp_all add: same_shared_def same_core_def)

lemma keeps_prepare: "keeps I (rw_prepare E t)"
  unfolding rw_prepare_def Let_def
  by (intro keeps_rules keeps_frame keeps_handle) (auto simp: same_shared_def same_core_def intro: start_member)

lemma keeps_select: "keeps I (rw_select E sel)"
  by (rule keeps_sameI) (simp add: rw_select_def same_shared_def same_core_def split: prod.splits)

lemma keeps_write: "keeps I (rw_write E m)"
  unfolding rw_write_def Let_def
  by (intro keeps_rules keeps_frame keeps_handle)
    (auto simp: same_shared_def same_core_def split: message.splits intro: start_member cancel_member request)

lemma keeps_dispatch: "keeps I (rw_dispatch P m)"
  unfolding rw_dispatch_def
  by (cases "GetMsgType m"; cases m) (auto intro!: keeps_rules keeps_update keeps_handle push response kicked cancel_member)

lemma keeps_read: "re_posix E = P \<Longrightarrow> keeps I (rw_read E)"
  unfolding rw_read_def by (intro keeps_rules) (simp add: keeps_dispatch)

lemma keeps_ping: "keeps I (rw_ping E)"
  unfolding rw_ping_def by (intro keeps_rules keeps_handle) (auto intro: start_member cancel_member)

lemma keeps_checks: "keeps I (rw_checks E fd r sel)"
  unfolding rw_checks_def by (intro keeps_rules keeps_frame) (simp add: same_shared_def same_core_def)

lemma keeps_after: "re_posix E = P \<Longrightarrow> keeps I (rw_after E fd r sel)"
  unfolding rw_after_def by (intro keeps_rules keeps_checks keeps_write keeps_read keeps_ping)

lemma keeps_round: "undisturbed E \<Longrightarrow> keeps I (rw_round E t)"
  unfolding rw_round_def
  by (intro keeps_rules keeps_prepare keeps_others keeps_select keeps_after) (simp_all add: undisturbed_def)

lemma keeps_loop:
  assumes "rw_loop E t s = Some (r, s')" "undisturbed E" "I (fst s)"
  shows "I (fst s')"
proof -
  have "(\<lambda>((E, t), s) (r, s'). undisturbed E \<longrightarrow> I (fst s) \<longrightarrow> I (fst s')) ((E, t), s) (r, s')"
  proof (rule rw_loop.raw_induct [OF _ assms(1)], clarify, goal_cases)
    case (1 loop E t c w r c' w')
    obtain x c1 w1 where x: "rw_round E t (c, w) = (x, c1, w1)" by (metis surj_pair)
    have "I c1" using keepsD [OF keeps_round [OF 1(3)] x] 1(4) by simp
    with x 1 show ?case by (fastforce split: sum.splits if_splits)
  qed
  with assms(2,3) show ?thesis by simp
qed

lemma keeps_RunReadWrite:
  assumes "undisturbed E"
  shows "keeps I (RunReadWrite E)"
proof -
  have "keeps I (\<lambda>s. case rw_loop E t s of None \<Rightarrow> (Inl NoReturn, s) | Some r \<Rightarrow> r)" for t
    unfolding keeps_def
  proof (intro allI impI)
    fix s :: "'cb TcpClient \<times> 'w" assume s: "I (fst s)"
    show "I (fst (snd (case rw_loop E t s of None \<Rightarrow> (Inl NoReturn, s) | Some r \<Rightarrow> r)))"
      using keeps_loop [OF _ assms s, of t] s by (cases "rw_loop E t s") auto
  qed
  then show ?thesis
    unfolding RunReadWrite_def by (intro keeps_rules keeps_update cancel_member) simp_all
qed

lemma keeps_close: "keeps I (handle (close_socket Q))"
  by (rule keeps_sameI)
    (simp add: handle_def close_socket_def same_shared_def same_core_def split: option.splits prod.splits)

end

text \<open>A predicate that the changes of the connection status keep as well.\<close>

locale thread_invariant = thread_frame +
  assumes status: "I c \<Longrightarrow> I (SetConnectStatus st c)"
begin

lemma keeps_status: "keeps I (update (SetConnectStatus st))"
  by (rule keeps_update) (rule status)

lemma keeps_Run:
  assumes "undisturbed E"
  shows "keeps I (Run E)"
proof -
  have c: "keeps I (case r of kRetConnSuccess \<Rightarrow> RunReadWrite E | kRetConnTimeout \<Rightarrow> m | _ \<Rightarrow> ret ())" if "keeps I m" for r m
    using that by (cases r) (simp_all add: keeps_RunReadWrite [OF assms] keeps_ret)
  show ?thesis
    unfolding Run_def RunConnect_def
    by (intro c keeps_rules keeps_connect assms keeps_status keeps_others keeps_close keeps_handle) (simp add: start_member)
qed

end

interpretation well_formed: thread_invariant P cl_ok for P :: "'w posix"
proof
  fix c c' :: "'cb TcpClient"
  assume c: "cl_ok c"
  show "cl_ok c'" if "same_shared c c'" using that c same_core_ok by (auto simp: same_shared_def)
  show "cl_ok (start_alarm r now sec c)" if "r \<in> {ReconnectAlarm, PingAlarm, PingTimeoutAlarm}" for r now sec
    using that by (auto intro!: start_alarm_cl_ok [OF c])
  show "cl_ok (cancel_alarm r c)" if "r \<in> {PingAlarm, PingTimeoutAlarm}" for r
    using that by (auto intro!: cancel_alarm_cl_ok [OF c])
qed (simp_all add: start_timeout_ok handleSendReq_ok handleSendResp_ok handleDisconnect_ok SetConnectStatus_ok)

section \<open>The other threads\<close>

text \<open>
  What an application thread or the timer thread does while the client's thread runs; \<open>A\<close> restricts
  the response callbacks requests are sent with, \<open>scan\<close> is the timer queue taking out what is due,
  \<open>fire\<close> its call of an alarm (of any alarm, at any time), \<open>elapse\<close> anything that happens outside the client.
\<close>

inductive other_step :: "('cb option \<Rightarrow> bool) \<Rightarrow> 'w posix \<Rightarrow> 'cb TcpClient \<times> 'w \<Rightarrow> 'cb TcpClient \<times> 'w \<Rightarrow> bool" for A P where
  send: "A func \<Longrightarrow> SendData j P typ payload dat func c w = (b, c', w') \<Longrightarrow> other_step A P (c, w) (c', w')"
| noReply: "SendNoReply j P typ payload c w = (b, c', w') \<Longrightarrow> other_step A P (c, w) (c', w')"
| sendDisconnect: "SendDisconnect j P c w = (c', w') \<Longrightarrow> other_step A P (c, w) (c', w')"
| disconnect: "DisconnectAsync P code re c w = (c', w') \<Longrightarrow> other_step A P (c, w) (c', w')"
| connect: "MakeSureConnected P c w = (c', w') \<Longrightarrow> other_step A P (c, w) (c', w')"
| netType: "other_step A P (c, w) (SetNetType t c, w)"
| httpDns: "other_step A P (c, w) (SetHttpDns f c, w)"
| scan: "RunLoop_scan now (cl_timers c) = (q, due, d) \<Longrightarrow> other_step A P (c, w) (c\<lparr>cl_timers := q\<rparr>, w)"
| fire: "r \<noteq> ReconnectAlarm \<Longrightarrow> valid_ref r c \<Longrightarrow> fire_alarm P r c w = (c', w') \<Longrightarrow> other_step A P (c, w) (c', w')"
| elapse: "other_step A P (c, w) (c, w')"

definition env_ok :: "('cb option \<Rightarrow> bool) \<Rightarrow> ('cb, 'w, 'z) run_env \<Rightarrow> bool" where
  "env_ok A E \<longleftrightarrow> (\<forall>s. (other_step A (re_posix E))\<^sup>*\<^sup>* s (re_env E s))"

lemma env_ok_keeps:
  assumes "env_ok A E" "\<And>s s'. other_step A (re_posix E) s s' \<Longrightarrow> I (fst s) \<Longrightarrow> I (fst s')" "I (fst s)"
  shows "I (fst (re_env E s))"
proof -
  have "(other_step A (re_posix E))\<^sup>*\<^sup>* s (re_env E s)" using assms(1) unfolding env_ok_def by blast
  then show ?thesis using assms(3) by (induction rule: rtranclp_induct) (auto dest: assms(2))
qed

lemma scan_queue_ok:
  assumes "queue_ok q" "RunLoop_scan now q = (q', due, d)"
  shows "queue_ok q'"
proof -
  have t: "by_time (mq_firstMessage q')" using RunLoop_scan_quiet [OF _ assms(2)] assms(1) by (simp add: queue_ok_def)
  note f = RunLoop_scan_fields [OF assms(2)]
  then have "set (mq_firstMessage q') \<subseteq> set (mq_firstMessage q)" using collect_due_subset by blast
  then have "set (ids q') \<subseteq> set (ids q)" by (auto simp: ids_def)
  with t f assms(1) show ?thesis by (auto simp: queue_ok_def list_all_iff)
qed

lemma other_step_cl_ok: "other_step A P s s' \<Longrightarrow> cl_ok (fst s) \<Longrightarrow> cl_ok (fst s')"
proof (induction rule: other_step.induct)
  case (send func j ty payload dat c w b c' w')
  then show ?case using SendData_ok [of c j P ty payload dat func w] by simp
next
  case (noReply j ty payload c w b c' w')
  then show ?case using SendNoReply_ok [of c j P ty payload w] by simp
next
  case (sendDisconnect j c w c' w')
  then show ?case using SendDisconnect_ok [of c j P w] by simp
next
  case (disconnect code re c w c' w')
  then show ?case using DisconnectAsync_ok [of c P code re w] by simp
next
  case (connect c w c' w')
  then show ?case using MakeSureConnected_ok [of c P w] by simp
next
  case (netType c w t)
  then show ?case by (simp add: SetNetType_def cl_ok_defs)
next
  case (httpDns c w f)
  then show ?case by (simp add: SetHttpDns_def cl_ok_defs)
next
  case (scan now c q due d w)
  then show ?case using scan_queue_ok [OF _ scan(1)] by (simp add: cl_ok_defs)
next
  case (fire r c w c' w')
  then show ?case using fire_alarm_ok [of c r P w] by simp
qed simp

section \<open>The system\<close>

text \<open>
  A step of the whole client: the set-up calls, the other threads, a complete run of the thread
  (interleaved with them), and the callback of the reconnect alarm or a blocking disconnect once
  the thread has ended.
\<close>

inductive system_step :: "('cb option \<Rightarrow> bool) \<Rightarrow> 'w posix \<Rightarrow> 'z zlib \<Rightarrow> 'cb TcpClient \<times> 'w \<Rightarrow> 'cb TcpClient \<times> 'w \<Rightarrow> bool" for A P Z where
  init: "system_step A P Z (c, w) (InitHostAndPort ssl host ip port tls info c, w)"
| onStatus: "system_step A P Z (c, w) (SetOnConnStatusChange b c, w)"
| onServer: "system_step A P Z (c, w) (SetOnServerDisconnect b c, w)"
| onSendReq: "system_step A P Z (c, w) (SetOnSendReq b c, w)"
| other: "other_step A P s s' \<Longrightarrow> system_step A P Z s s'"
| run: "env_ok A E \<Longrightarrow> re_posix E = P \<Longrightarrow> re_zlib E = Z \<Longrightarrow> cl_thread c \<Longrightarrow> Run E (c, w) = (r, s') \<Longrightarrow> system_step A P Z (c, w) s'"
| reconnect: "fire_alarm P ReconnectAlarm c w = (c', w') \<Longrightarrow> system_step A P Z (c, w) (c', w')"
| wait: "WaitDisconnect P c w = (c', w') \<Longrightarrow> system_step A P Z (c, w) (c', w')"

lemma Run_cl_ok:
  fixes E :: "('cb, 'w, 'z) run_env"
  assumes "env_ok A E" "Run E (c, w) = (r, s')" "cl_ok c"
  shows "cl_ok (fst s')"
proof -
  have "well_formed.undisturbed (re_posix E) E"
    using env_ok_keeps [where I = cl_ok, OF assms(1) other_step_cl_ok] by (auto simp: well_formed.undisturbed_def)
  from well_formed.keeps_Run [OF this] assms(2,3) show ?thesis by (metis keepsD prod.collapse)
qed

lemma system_step_cl_ok: "system_step A P Z s s' \<Longrightarrow> cl_ok (fst s) \<Longrightarrow> cl_ok (fst s')"
proof (induction rule: system_step.induct)
  case (init c w ssl host ip port tls info)
  then show ?case by (simp add: InitHostAndPort_def cl_ok_defs queue_timer.armed_def Alarm_SetCallback_def)
next
  case (other s s')
  then show ?case by (rule other_step_cl_ok)
next
  case (run E c w r s')
  then show ?case using Run_cl_ok [of A E c w r s'] by simp
next
  case (reconnect c w c' w')
  then show ?case using fire_alarm_ok [of c ReconnectAlarm P w] by simp
next
  case (wait c w c' w')
  then show ?case using WaitDisconnect_ok [of c P w] by simp
qed (simp_all add: SetOnConnStatusChange_def SetOnServerDisconnect_def SetOnSendReq_def cl_ok_defs)

lemma TcpClient_new_ok: "cl_ok (TcpClient_new junk b rw cb dns)"
  by (simp add: TcpClient_new_def cl_ok_defs msg_id_ok_def UINT16_MAX_def queue_ok_new queue_timer.armed_new)

lemma reachable_cl_ok:
  assumes "(system_step A P Z)\<^sup>*\<^sup>* (TcpClient_new junk b rw cb dns, w0) s"
  shows "cl_ok (fst s)"
  using assms by (induction rule: rtranclp_induct) (simp_all add: TcpClient_new_ok system_step_cl_ok)

end
