(* ===== verification/Samples.thy ===== *)
theory Samples
  imports ClientThread Wire
begin

text \<open>
  A concrete client and run, on which the properties of the client are evaluated: connected
  through descriptor 7, on a system whose pipe is a counter (\<open>pipe_posix\<close>), with no interference.
\<close>

definition sample_breaker :: SocketBreaker where
  "sample_breaker = \<lparr>br_pipe0 = 3, br_pipe1 = 4, br_broken = False\<rparr>"

definition new_client :: "nat TcpClient" where
  "new_client = TcpClient_new 0 False sample_breaker sample_breaker demo_dns"

definition sample_client :: "nat TcpClient" where
  "sample_client = InitHostAndPort False ''host'' ''10.0.0.1'' 80 False None
     (new_client\<lparr>cl_connectStatus := kConnected, cl_thread := True, cl_onStatusChange := True, cl_timeoutDisconnect := False,
        cl_socket := Some (PlainSocket \<lparr>ts_socket = 7\<rparr>), cl_writer := \<lparr>tw_socket = Some (PlainSocket \<lparr>ts_socket = 7\<rparr>)\<rparr>,
        cl_reader := \<lparr>tr_socket = Some (PlainSocket \<lparr>ts_socket = 7\<rparr>)\<rparr>\<rparr>)"

definition sample_env :: "(nat, nat, bytes) run_env" where
  "sample_env = \<lparr>re_apple = False, re_junk = 0, re_junk64 = 0, re_msgJunk = sample_junk, re_answered = True,
     re_posix = pipe_posix, re_zlib = stored_zlib, re_stale = (\<lambda>m. RetCodeAccepted), re_env = (\<lambda>s. s)\<rparr>"

lemmas sample_defs = sample_client_def new_client_def sample_breaker_def TcpClient_new_def InitHostAndPort_def
  Alarm_SetCallback_def Alarm_new_def

lemma new_client_ok: "cl_ok new_client"
  unfolding new_client_def by (rule TcpClient_new_ok)

lemma sample_client_ok: "cl_ok sample_client"
proof -
  have "cl_ok (new_client\<lparr>cl_connectStatus := kConnected, cl_thread := True, cl_onStatusChange := True, cl_timeoutDisconnect := False,
        cl_socket := Some (PlainSocket \<lparr>ts_socket = 7\<rparr>), cl_writer := \<lparr>tw_socket = Some (PlainSocket \<lparr>ts_socket = 7\<rparr>)\<rparr>,
        cl_reader := \<lparr>tr_socket = Some (PlainSocket \<lparr>ts_socket = 7\<rparr>)\<rparr>\<rparr>)"
    by (rule same_core_ok [OF _ new_client_ok]) (simp add: same_core_def)
  from system_step_cl_ok [OF system_step.init [of "\<lambda>_. True" pipe_posix "stored_zlib" _ 0]] this show ?thesis
    unfolding sample_client_def by simp
qed

lemma sample_client_simps [simp]:
  "cl_connectStatus sample_client = kConnected" "cl_thread sample_client" "cl_onStatusChange sample_client"
  "cl_socket sample_client = Some (PlainSocket \<lparr>ts_socket = 7\<rparr>)" "cl_callbackMap sample_client = []"
  "cl_timeoutAlarmMap sample_client = []" "cl_messageQueue sample_client = []" "cl_currentMsgId sample_client = 1"
  "cl_calls sample_client = []" "cl_alarms sample_client = []" "op_pool (cl_objectPool sample_client) = []"
  "cl_disCode sample_client = kDisCodeNone" "cl_readWriteBreaker sample_client = sample_breaker"
  "cl_connectBreaker sample_client = sample_breaker" "cl_timers sample_client = MessageQueue_new"
  by (simp_all add: sample_defs)

lemma sample_env_simps [simp]:
  "re_posix sample_env = pipe_posix" "re_zlib sample_env = stored_zlib" "re_env sample_env s = s" "\<not> re_apple sample_env"
  by (simp_all add: sample_env_def)

lemma sample_env_ok: "env_ok A sample_env"
  by (simp add: env_ok_def)

end
