(* ===== verification/Requests.thy ===== *)
theory Requests
  imports Samples
begin

text \<open>
  What happens to a request and its callback: registration, the range and reuse of message ids, the
  response, the timeout, and the loss of the connection.
\<close>

section \<open>Message ids\<close>

lemma msg_id_range: "msg_id_ok i \<longleftrightarrow> 1 \<le> unat i \<and> unat i \<le> 65534"
proof -
  have "i = UINT16_MAX \<longleftrightarrow> unat i = 65535" by (simp add: UINT16_MAX_def word_unat_eq_iff)
  moreover have "unat i < 65536" using unsigned_less [of i] by simp
  moreover have "i = 0 \<longleftrightarrow> unat i = 0" by (simp add: word_unat_eq_iff)
  ultimately show ?thesis by (auto simp: msg_id_ok_def)
qed

lemma unat_next_msg_id:
  assumes "msg_id_ok i"
  shows "unat (next_msg_id i) = unat i mod 65534 + 1"
proof -
  have r: "1 \<le> unat i" "unat i \<le> 65534" using assms by (simp_all add: msg_id_range)
  have s: "unat (i + 1) = unat i + 1"
    using r by (simp add: unat_word_ariths)
  show ?thesis
  proof (cases "unat i = 65534")
    case True
    then have "i + 1 = UINT16_MAX" using s by (simp add: UINT16_MAX_def word_unat_eq_iff)
    with True show ?thesis by (simp add: next_msg_id_def)
  next
    case False
    then have "i + 1 \<noteq> UINT16_MAX" using s r by (auto simp: UINT16_MAX_def)
    with False s r show ?thesis by (simp add: next_msg_id_def)
  qed
qed

lemma unat_msg_id_iterate:
  "msg_id_ok i \<Longrightarrow> msg_id_ok ((next_msg_id ^^ n) i) \<and> unat ((next_msg_id ^^ n) i) = (unat i - 1 + n) mod 65534 + 1"
proof (induction n)
  case 0
  then show ?case by (auto simp: msg_id_range)
next
  case (Suc n)
  let ?j = "(next_msg_id ^^ n) i"
  have j: "msg_id_ok ?j" "unat ?j = (unat i - 1 + n) mod 65534 + 1" using Suc by auto
  have "unat (next_msg_id ?j) = ((unat i - 1 + n) mod 65534 + 1) mod 65534 + 1"
    using unat_next_msg_id [OF j(1)] j(2) by simp
  then show ?case using next_msg_id_ok [OF j(1)] by (simp add: mod_Suc_eq add.commute)
qed

text \<open>An id comes back after 65534 steps and not before.\<close>

lemma msg_id_period:
  assumes "msg_id_ok i"
  shows "(next_msg_id ^^ n) i = i \<longleftrightarrow> 65534 dvd n"
proof -
  have r: "1 \<le> unat i" "unat i \<le> 65534" using assms by (simp_all add: msg_id_range)
  have "(next_msg_id ^^ n) i = i \<longleftrightarrow> (unat i - 1 + n) mod 65534 + 1 = unat i"
    using unat_msg_id_iterate [OF assms, of n] by (simp add: word_unat_eq_iff)
  also have "\<dots> \<longleftrightarrow> (unat i - 1 + n) mod 65534 = (unat i - 1) mod 65534" using r by auto
  also have "\<dots> \<longleftrightarrow> 65534 dvd n" using mod_eq_dvd_iff_nat [of "unat i - 1" "unat i - 1 + n" 65534] by (metis add_diff_cancel_left' le_add1)
  finally show ?thesis .
qed

section \<open>Sending\<close>

lemma SendData_connected:
  assumes "cl_connectStatus c = kConnected" "SendData j P ty payload dat func c w = (ok, c', w')"
  obtains b m where "ok" "sq_messageId m = cl_currentMsgId c" "sq_type m = ty" "sq_payload m = payload"
    "c' = c\<lparr>cl_callbackMap := map_put (cl_currentMsgId c) func (cl_callbackMap c),
            cl_messageQueue := cl_messageQueue c @ [MSendReq m], cl_currentMsgId := next_msg_id (cl_currentMsgId c),
            cl_readWriteBreaker := b\<rparr>"
    "snd (Breaker_Break P (cl_readWriteBreaker c) w) = (b, w')"
proof -
  let ?req = "(SendReq_new j)\<lparr>sq_type := ty, sq_payload := payload, sq_messageId := cl_currentMsgId c\<rparr>"
  obtain x b w1 where b: "Breaker_Break P (cl_readWriteBreaker c) w = (x, b, w1)" by (metis prod_cases3)
  show thesis
    by (rule that [of "case dat of None \<Rightarrow> ?req | Some d \<Rightarrow> SendReq_SetData d ?req" b])
      (use assms b in \<open>simp_all add: SendData_def Let_def SendReq_SetData_def split: option.splits\<close>)
qed

lemma SendData_not_connected:
  "cl_connectStatus c \<noteq> kConnected \<Longrightarrow> SendData j P ty payload dat func c w =
     (False, c\<lparr>cl_calls := cl_calls c @ (case func of None \<Rightarrow> [] | Some f \<Rightarrow> [CallResp f kErrorCodeNotConnect []])\<rparr>, w)"
  by (cases func) (simp_all add: SendData_def log_call_def)

text \<open>A sequence of requests, each with its type, payload and callback.\<close>

fun send_all :: "junk \<Rightarrow> 'w posix \<Rightarrow> (bytes \<times> bytes \<times> 'cb option) list \<Rightarrow> 'cb TcpClient \<Rightarrow> 'w \<Rightarrow> 'cb TcpClient \<times> 'w" where
  "send_all j P [] c w = (c, w)"
| "send_all j P ((ty, payload, func) # rs) c w =
     (case Send j P ty payload func c w of (_, c', w') \<Rightarrow> send_all j P rs c' w')"

lemma send_all_keeps:
  assumes "cl_connectStatus c = kConnected" "map_ok (cl_callbackMap c)"
    and "\<forall>n < length rs. (next_msg_id ^^ n) (cl_currentMsgId c) \<noteq> k"
  shows "map_of (cl_callbackMap (fst (send_all j P rs c w))) k = map_of (cl_callbackMap c) k \<and>
     cl_currentMsgId (fst (send_all j P rs c w)) = (next_msg_id ^^ length rs) (cl_currentMsgId c)"
  using assms
proof (induction j P rs c w rule: send_all.induct)
  case (2 j P ty payload func rs c w)
  obtain ok c' w' where s: "SendData j P ty payload None func c w = (ok, c', w')" by (metis prod_cases3)
  from SendData_connected [OF 2(2) s] obtain b m where
    c': "c' = c\<lparr>cl_callbackMap := map_put (cl_currentMsgId c) func (cl_callbackMap c),
            cl_messageQueue := cl_messageQueue c @ [MSendReq m], cl_currentMsgId := next_msg_id (cl_currentMsgId c),
            cl_readWriteBreaker := b\<rparr>" by metis
  have k: "cl_currentMsgId c \<noteq> k" using 2(4) by force
  have rest: "\<forall>n < length rs. (next_msg_id ^^ n) (cl_currentMsgId c') \<noteq> k"
  proof (intro allI impI)
    fix n assume "n < length rs"
    then have "(next_msg_id ^^ Suc n) (cl_currentMsgId c) \<noteq> k" using 2(4) by (metis Suc_less_eq length_Cons)
    then show "(next_msg_id ^^ n) (cl_currentMsgId c') \<noteq> k" by (simp add: c' funpow_swap1)
  qed
  have "map_of (cl_callbackMap (fst (send_all j P rs c' w'))) k = map_of (cl_callbackMap c') k \<and>
     cl_currentMsgId (fst (send_all j P rs c' w')) = (next_msg_id ^^ length rs) (cl_currentMsgId c')"
    by (rule 2(1) [of ok "(c', w')"]) (use s rest c' 2(2,3) in \<open>simp_all add: Send_def\<close>)
  then show ?case using s k 2(3) by (simp add: Send_def c' map_of_put funpow_swap1)
qed simp

text \<open>
  A request on a connected client is queued under the current message id, its callback is
  registered under that id and nothing else in the table changes; on a client that is not
  connected nothing is queued or registered and a callback gets \<^verbatim>\<open>kErrorCodeNotConnect\<close>.
\<close>

theorem Send_registers:
  assumes "cl_ok c" "Send j P ty payload func c w = (ok, c', w')"
  shows "ok = (cl_connectStatus c = kConnected) \<and>
    (if ok then map_of (cl_callbackMap c') = (map_of (cl_callbackMap c))(cl_currentMsgId c \<mapsto> func) \<and>
        (\<exists>m. cl_messageQueue c' = cl_messageQueue c @ [MSendReq m] \<and> sq_messageId m = cl_currentMsgId c \<and>
             sq_type m = ty \<and> sq_payload m = payload) \<and>
        1 \<le> unat (cl_currentMsgId c) \<and> unat (cl_currentMsgId c) \<le> 65534 \<and> cl_calls c' = cl_calls c
     else w' = w \<and> c' = c\<lparr>cl_calls := cl_calls c @
        (case func of None \<Rightarrow> [] | Some f \<Rightarrow> [CallResp f kErrorCodeNotConnect []])\<rparr>)"
proof (cases "cl_connectStatus c = kConnected")
  case True
  have m: "map_ok (cl_callbackMap c)" "msg_id_ok (cl_currentMsgId c)" using assms(1) by (simp_all add: cl_ok_def)
  from SendData_connected [OF True assms(2) [unfolded Send_def]] show ?thesis
    by (rule, use True m in \<open>auto simp: map_of_put msg_id_range\<close>)
next
  case False
  then show ?thesis using assms(2) SendData_not_connected [OF False, of j P ty payload None func w] by (simp add: Send_def)
qed

theorem Send_registers_witness:
  "let (ok, c', w') = Send sample_junk pipe_posix [1] [2] (Some 5) sample_client 0
   in ok \<and> map_of (cl_callbackMap c') = [1 \<mapsto> Some 5] \<and> cl_calls c' = []"
proof -
  obtain ok c' w' where s: "Send sample_junk pipe_posix [1] [2] (Some 5) sample_client 0 = (ok, c', w')" by (metis prod_cases3)
  from Send_registers [OF sample_client_ok s] s show ?thesis by simp
qed

text \<open>
  C18: a registered callback is not overwritten by later requests before the message ids have gone
  all the way round: up to 65533 further requests leave it in place, and the one after that takes
  its id.
\<close>

theorem callback_survives:
  assumes "cl_ok c" "cl_connectStatus c = kConnected" "Send j P ty payload func c w = (ok, c1, w1)"
    and "length rs \<le> 65533" "send_all j P rs c1 w1 = (c2, w2)"
  shows "map_of (cl_callbackMap c2) (cl_currentMsgId c) = Some func \<and>
    (cl_currentMsgId c2 = cl_currentMsgId c \<longleftrightarrow> length rs = 65533)"
proof -
  let ?k = "cl_currentMsgId c"
  have m: "map_ok (cl_callbackMap c)" "msg_id_ok ?k" using assms(1) by (simp_all add: cl_ok_def)
  from SendData_connected [OF assms(2) assms(3) [unfolded Send_def]] obtain b m where
    c1: "c1 = c\<lparr>cl_callbackMap := map_put ?k func (cl_callbackMap c),
            cl_messageQueue := cl_messageQueue c @ [MSendReq m], cl_currentMsgId := next_msg_id ?k,
            cl_readWriteBreaker := b\<rparr>" by metis
  have n: "\<forall>n < length rs. (next_msg_id ^^ n) (cl_currentMsgId c1) \<noteq> ?k"
  proof (intro allI impI)
    fix n assume "n < length rs"
    then have "\<not> 65534 dvd Suc n" using assms(4) by (auto dest: dvd_imp_le)
    then show "(next_msg_id ^^ n) (cl_currentMsgId c1) \<noteq> ?k"
      using msg_id_period [OF m(2), of "Suc n"] by (simp add: c1 funpow_swap1)
  qed
  have "map_of (cl_callbackMap c2) ?k = map_of (cl_callbackMap c1) ?k"
    "cl_currentMsgId c2 = (next_msg_id ^^ Suc (length rs)) ?k"
    using send_all_keeps [OF _ _ n, of j P w1] assms(2,5) m(1) by (simp_all add: c1 funpow_swap1)
  moreover have "65534 dvd Suc (length rs) \<longleftrightarrow> length rs = 65533"
  proof
    assume "65534 dvd Suc (length rs)"
    then have "65534 \<le> Suc (length rs)" by (rule dvd_imp_le) simp
    with assms(4) show "length rs = 65533" by simp
  next
    assume "length rs = 65533"
    then have "Suc (length rs) = 65534" by simp
    then show "65534 dvd Suc (length rs)" by (simp only: dvd_refl)
  qed
  moreover have "map_of (cl_callbackMap c1) ?k = Some func" using m(1) by (simp add: c1 map_of_put)
  ultimately show ?thesis using msg_id_period [OF m(2), of "Suc (length rs)"] by metis
qed

theorem callback_survives_witness:
  "let (ok, c1, w1) = Send sample_junk pipe_posix [1] [2] (Some 5) sample_client 0;
       (c2, w2) = send_all sample_junk pipe_posix [([1], [3], Some 6), ([1], [4], None)] c1 w1
   in map_of (cl_callbackMap c2) 1 = Some (Some 5) \<and> cl_currentMsgId c2 \<noteq> 1"
proof -
  let ?rs = "[([1], [3], Some 6), ([1], [4], None)] :: (bytes \<times> bytes \<times> nat option) list"
  obtain ok c1 w1 where s: "Send sample_junk pipe_posix [1] [2] (Some 5) sample_client 0 = (ok, c1, w1)" by (metis prod_cases3)
  obtain c2 w2 where r: "send_all sample_junk pipe_posix ?rs c1 w1 = (c2, w2)" by force
  from callback_survives [OF sample_client_ok _ s _ r] s r show ?thesis by (simp del: send_all.simps)
qed

section \<open>The response\<close>

text \<open>Fields an operation on an alarm leaves alone.\<close>

lemma put_alarm_frame [simp]:
  "cl_callbackMap (put_alarm r a c) = cl_callbackMap c" "cl_calls (put_alarm r a c) = cl_calls c"
  "cl_thread (put_alarm r a c) = cl_thread c" "cl_connectStatus (put_alarm r a c) = cl_connectStatus c"
  "cl_timeoutAlarmMap (put_alarm r a c) = cl_timeoutAlarmMap c" "cl_onStatusChange (put_alarm r a c) = cl_onStatusChange c"
  "cl_shouldNewBreaker (put_alarm r a c) = cl_shouldNewBreaker c" "cl_disCode (put_alarm r a c) = cl_disCode c"
  "cl_shouldNewConnBreaker (put_alarm r a c) = cl_shouldNewConnBreaker c" "cl_socket (put_alarm r a c) = cl_socket c"
  by (cases r; simp)+

lemma cancel_alarm_frame [simp]:
  "cl_callbackMap (cancel_alarm r c) = cl_callbackMap c" "cl_calls (cancel_alarm r c) = cl_calls c"
  "cl_thread (cancel_alarm r c) = cl_thread c" "cl_connectStatus (cancel_alarm r c) = cl_connectStatus c"
  "cl_timeoutAlarmMap (cancel_alarm r c) = cl_timeoutAlarmMap c" "cl_onStatusChange (cancel_alarm r c) = cl_onStatusChange c"
  "cl_shouldNewBreaker (cancel_alarm r c) = cl_shouldNewBreaker c" "cl_disCode (cancel_alarm r c) = cl_disCode c"
  "cl_shouldNewConnBreaker (cancel_alarm r c) = cl_shouldNewConnBreaker c" "cl_socket (cancel_alarm r c) = cl_socket c"
  by (simp_all add: cancel_alarm_def split: prod.splits)

lemma start_alarm_frame [simp]:
  "cl_callbackMap (start_alarm r now sec c) = cl_callbackMap c" "cl_calls (start_alarm r now sec c) = cl_calls c"
  "cl_thread (start_alarm r now sec c) = cl_thread c" "cl_connectStatus (start_alarm r now sec c) = cl_connectStatus c"
  "cl_timeoutAlarmMap (start_alarm r now sec c) = cl_timeoutAlarmMap c"
  "cl_onStatusChange (start_alarm r now sec c) = cl_onStatusChange c" "cl_socket (start_alarm r now sec c) = cl_socket c"
  "cl_disCode (start_alarm r now sec c) = cl_disCode c"
  by (simp_all add: start_alarm_def split: prod.splits)

lemma release_alarm_frame [simp]:
  "cl_callbackMap (release_alarm i c) = cl_callbackMap c" "cl_calls (release_alarm i c) = cl_calls c"
  "cl_thread (release_alarm i c) = cl_thread c" "cl_connectStatus (release_alarm i c) = cl_connectStatus c"
  "cl_timeoutAlarmMap (release_alarm i c) = cl_timeoutAlarmMap c" "cl_onStatusChange (release_alarm i c) = cl_onStatusChange c"
  "cl_shouldNewBreaker (release_alarm i c) = cl_shouldNewBreaker c" "cl_alarms (release_alarm i c) = cl_alarms c"
  "cl_shouldNewConnBreaker (release_alarm i c) = cl_shouldNewConnBreaker c" "cl_disCode (release_alarm i c) = cl_disCode c"
  "cl_socket (release_alarm i c) = cl_socket c"
  by (simp_all add: release_alarm_def)

lemma start_timeout_frame [simp]:
  "cl_thread (start_timeout junk now k c) = cl_thread c" "cl_connectStatus (start_timeout junk now k c) = cl_connectStatus c"
  "cl_onStatusChange (start_timeout junk now k c) = cl_onStatusChange c" "cl_calls (start_timeout junk now k c) = cl_calls c"
  "cl_callbackMap (start_timeout junk now k c) = cl_callbackMap c"
  by (simp_all add: start_timeout_def take_alarm_def store_alarm_def Let_def split: prod.splits option.splits)

text \<open>Operations that touch neither the log nor the table.\<close>

definition same_talk :: "'cb TcpClient \<Rightarrow> 'cb TcpClient \<Rightarrow> bool" where
  "same_talk c c' \<longleftrightarrow> cl_calls c' = cl_calls c \<and> cl_callbackMap c' = cl_callbackMap c"

lemma MakeSureConnected_talk: "same_talk c (fst (MakeSureConnected P c w))"
  by (simp add: MakeSureConnected_def same_talk_def split: prod.splits)

lemma DisconnectAsync_talk: "same_talk c (fst (DisconnectAsync P code re c w))"
proof (cases "cl_thread c")
  case True
  then show ?thesis by (rule DisconnectAsync_thread [of c P code re w]) (simp add: same_talk_def)
next
  case False
  then show ?thesis using MakeSureConnected_talk [of c P w] by (simp add: DisconnectAsync_def) (simp add: same_talk_def)
qed

lemma DisconnectAsync_calls: "cl_calls (fst (DisconnectAsync P code re c w)) = cl_calls c"
  using DisconnectAsync_talk [of c P code re w] by (simp add: same_talk_def)

text \<open>The callback of an id: what \<^verbatim>\<open>__GetCallback\<close> returns.\<close>

definition callback_of :: "'cb TcpClient \<Rightarrow> u16 \<Rightarrow> 'cb option" where
  "callback_of c k = (case map_of (cl_callbackMap c) k of None \<Rightarrow> None | Some f \<Rightarrow> f)"

lemma GetCallback_result:
  "fst (GetCallback k c) = callback_of c k"
  "cl_calls (snd (GetCallback k c)) = cl_calls c"
  "callback_of (snd (GetCallback k c)) i = (if i = k then None else callback_of c i)"
  by (auto simp: GetCallback_def callback_of_def map_of_erase split: option.splits)

text \<open>The sample client with a request queued and in flight, and a response to it.\<close>

definition sample_sent :: "nat TcpClient" where
  "sample_sent = fst (snd (Send sample_junk pipe_posix [1] [2] (Some 5) sample_client 0))"

definition sample_in_flight :: "nat TcpClient" where
  "sample_in_flight = start_timeout 0 0 1 sample_sent"

definition sample_resp :: "bytes \<Rightarrow> SendResp" where
  "sample_resp p = (SendResp_new sample_junk)\<lparr>sr_messageId := 1, sr_payload := p\<rparr>"

lemma sample_sent_ok: "cl_ok sample_sent"
  unfolding sample_sent_def Send_def by (intro SendData_ok sample_client_ok)

lemma sample_in_flight_ok: "cl_ok sample_in_flight"
  unfolding sample_in_flight_def by (intro start_timeout_ok sample_sent_ok)

lemma start_timeout_fresh:
  assumes "op_pool (cl_objectPool c) = []" "map_of (cl_timeoutAlarmMap c) k = None"
  shows "cl_timeoutAlarmMap (start_timeout junk now k c) = map_put k (length (cl_alarms c)) (cl_timeoutAlarmMap c)"
    "op_pool (cl_objectPool (start_timeout junk now k c)) = []"
    "length (cl_alarms (start_timeout junk now k c)) = Suc (length (cl_alarms c))"
  using assms
  by (simp_all add: start_timeout_def take_alarm_def store_alarm_def ObjectPool_Get_def Let_def start_alarm_def case_prod_unfold)

lemma sample_sent_simps [simp]:
  "cl_callbackMap sample_sent = [(1, Some 5)]" "cl_timeoutAlarmMap sample_sent = []" "cl_calls sample_sent = []" "cl_thread sample_sent"
  "op_pool (cl_objectPool sample_sent) = []" "cl_alarms sample_sent = []"
  "cl_timers sample_sent = MessageQueue_new"
proof -
  obtain ok c' w' where s: "SendData sample_junk pipe_posix [1] [2] None (Some 5) sample_client 0 = (ok, c', w')" by (metis prod_cases3)
  from SendData_connected [OF sample_client_simps(1) s] obtain b m where
    "c' = sample_client\<lparr>cl_callbackMap := map_put 1 (Some 5) [], cl_messageQueue := [MSendReq m], cl_currentMsgId := next_msg_id 1,
       cl_readWriteBreaker := b\<rparr>" by (metis append_Nil sample_client_simps(5,7,8))
  then have c: "sample_sent = sample_client\<lparr>cl_callbackMap := map_put 1 (Some 5) [], cl_messageQueue := [MSendReq m],
       cl_currentMsgId := next_msg_id 1, cl_readWriteBreaker := b\<rparr>" by (simp add: sample_sent_def Send_def s)
  show "cl_callbackMap sample_sent = [(1, Some 5)]" "cl_timeoutAlarmMap sample_sent = []" "cl_calls sample_sent = []"
    "cl_thread sample_sent" "op_pool (cl_objectPool sample_sent) = []" "cl_alarms sample_sent = []"
    "cl_timers sample_sent = MessageQueue_new"
    unfolding c by simp_all
qed

lemma sample_in_flight_simps:
  "callback_of sample_in_flight k = (if k = 1 then Some 5 else None)" "cl_timeoutAlarmMap sample_in_flight = [(1, 0)]"
  "cl_calls sample_in_flight = []" "cl_thread sample_in_flight" "op_pool (cl_objectPool sample_in_flight) = []"
  "length (cl_alarms sample_in_flight) = 1"
  by (simp_all add: sample_in_flight_def start_timeout_fresh callback_of_def)

lemma sample_resp_simps [simp]: "sr_messageId (sample_resp p) = 1" "sr_payload (sample_resp p) = p"
  by (simp_all add: sample_resp_def)

lemma sample_no_reply_map: "cl_timeoutAlarmMap (start_timeout 0 0 0 sample_in_flight) = [(0, 1), (1, 0)]"
  by (simp add: start_timeout_fresh sample_in_flight_simps)

text \<open>The part of \<^verbatim>\<open>__handleSendResp\<close> that stops the timeout.\<close>

definition stop_timeout :: "u16 \<Rightarrow> 'cb TcpClient \<Rightarrow> 'cb TcpClient" where
  "stop_timeout k c =
     (case map_of (cl_timeoutAlarmMap c) k of
        None \<Rightarrow> c
      | Some i \<Rightarrow> let c' = cancel_alarm (PooledAlarm i) c
                  in release_alarm i (c'\<lparr>cl_timeoutAlarmMap := map_erase k (cl_timeoutAlarmMap c')\<rparr>))"

lemma stop_timeout_frame [simp]:
  "cl_callbackMap (stop_timeout k c) = cl_callbackMap c" "cl_calls (stop_timeout k c) = cl_calls c"
  "map_of (cl_timeoutAlarmMap (stop_timeout k c)) k = None"
  by (simp_all add: stop_timeout_def map_of_erase Let_def split: option.splits)

lemma handleSendResp_alt:
  "handleSendResp m c = (case GetCallback (sr_messageId m) (stop_timeout (sr_messageId m) c) of
      (None, c2) \<Rightarrow> c2 | (Some f, c2) \<Rightarrow> log_call (CallResp f kErrorCodeNone (sr_payload m)) c2)"
  unfolding handleSendResp_def stop_timeout_def Let_def by (rule refl)

lemma callback_of_cong [simp]: "callback_of (stop_timeout k c) = callback_of c" "callback_of (log_call x c) = callback_of c"
  by (simp_all add: callback_of_def fun_eq_iff log_call_def)

lemma handleSendResp_calls:
  "cl_calls (handleSendResp m c) = cl_calls c @
     (case callback_of c (sr_messageId m) of None \<Rightarrow> [] | Some f \<Rightarrow> [CallResp f kErrorCodeNone (sr_payload m)])"
  "callback_of (handleSendResp m c) i = (if i = sr_messageId m then None else callback_of c i)"
proof -
  let ?k = "sr_messageId m"
  obtain f c2 where g: "GetCallback ?k (stop_timeout ?k c) = (f, c2)" by force
  have f: "f = callback_of c ?k" "cl_calls c2 = cl_calls c" "callback_of c2 i = (if i = ?k then None else callback_of c i)" for i
    using GetCallback_result [of ?k "stop_timeout ?k c"] g by simp_all
  have h: "handleSendResp m c = (case f of None \<Rightarrow> c2 | Some x \<Rightarrow> log_call (CallResp x kErrorCodeNone (sr_payload m)) c2)"
    by (simp add: handleSendResp_alt g)
  show "cl_calls (handleSendResp m c) = cl_calls c @
     (case callback_of c ?k of None \<Rightarrow> [] | Some f \<Rightarrow> [CallResp f kErrorCodeNone (sr_payload m)])"
    unfolding h f(1) [symmetric] by (cases f) (simp_all add: f(2) log_call_def)
  show "callback_of (handleSendResp m c) i = (if i = ?k then None else callback_of c i)"
    unfolding h by (cases f) (simp_all add: f(3))
qed

text \<open>A cancelled alarm that the timer thread still calls does nothing.\<close>

lemma fire_cancelled:
  assumes "al_messageId (get_alarm r c) = 0"
  shows "fire_alarm P r c w = (put_alarm r (get_alarm r c) c, w)"
  using assms by (simp add: fire_alarm_def Alarm_fire_def)

lemma get_alarm_put: "valid_ref r c \<Longrightarrow> get_alarm r (put_alarm r a c) = a"
  by (cases r) simp_all

lemma get_cancel_alarm: "valid_ref r c \<Longrightarrow> al_messageId (get_alarm r (cancel_alarm r c)) = 0"
proof -
  assume v: "valid_ref r c"
  obtain b a q where s: "Alarm_Cancel CancelMessage (get_alarm r c) (cl_timers c) = (b, a, q)" by (metis prod_cases3)
  have v': "valid_ref r (c\<lparr>cl_timers := q\<rparr>)" using v by (cases r) simp_all
  have "al_messageId a = 0" using s by (auto simp: Alarm_Cancel_def split: if_splits prod.splits)
  then show ?thesis using get_alarm_put [OF v', of a] s by (simp add: cancel_alarm_def)
qed

lemma handleSendResp_disarms:
  assumes "cl_ok c" "map_of (cl_timeoutAlarmMap c) (sr_messageId m) = Some i"
  shows "al_messageId (get_alarm (PooledAlarm i) (handleSendResp m c)) = 0"
proof -
  let ?k = "sr_messageId m"
  have "al_messageId (cl_alarms (cancel_alarm (PooledAlarm i) c) ! i) = 0"
    using get_cancel_alarm [OF owned_valid [OF assms]] by simp
  then have "al_messageId (cl_alarms (stop_timeout ?k c) ! i) = 0" using assms(2) by (simp add: stop_timeout_def Let_def)
  moreover have "cl_alarms (handleSendResp m c) = cl_alarms (stop_timeout ?k c)"
    by (auto simp: handleSendResp_alt GetCallback_def log_call_def split: prod.splits option.splits)
  ultimately show ?thesis by simp
qed

text \<open>
  C14: a response reaches exactly the callback registered under its message id, once. It is called
  with \<^verbatim>\<open>kErrorCodeNone\<close> and the payload; a second response with that id calls nothing, the callbacks of the
  other ids stay, and the timeout of the request, even if it goes off now, calls nothing.
\<close>

theorem response_once:
  assumes "cl_ok c" "callback_of c (sr_messageId m) = Some f" "sr_messageId m' = sr_messageId m"
    and "map_of (cl_timeoutAlarmMap c) (sr_messageId m) = Some i"
  shows "cl_calls (handleSendResp m c) = cl_calls c @ [CallResp f kErrorCodeNone (sr_payload m)] \<and>
    cl_calls (handleSendResp m' (handleSendResp m c)) = cl_calls (handleSendResp m c) \<and>
    (\<forall>k. k \<noteq> sr_messageId m \<longrightarrow> callback_of (handleSendResp m c) k = callback_of c k) \<and>
    cl_calls (fst (fire_alarm P (PooledAlarm i) (handleSendResp m c) w)) = cl_calls (handleSendResp m c)"
  using assms handleSendResp_calls [of m c] handleSendResp_calls(1) [of m' "handleSendResp m c"]
    fire_cancelled [OF handleSendResp_disarms [OF assms(1,4)], of P w] by simp

theorem response_once_witness:
  "cl_calls (handleSendResp (sample_resp [9]) sample_in_flight) = [CallResp 5 kErrorCodeNone [9]] \<and>
   cl_calls (handleSendResp (sample_resp [8]) (handleSendResp (sample_resp [9]) sample_in_flight)) = [CallResp 5 kErrorCodeNone [9]] \<and>
   cl_calls (fst (fire_alarm pipe_posix (PooledAlarm 0) (handleSendResp (sample_resp [9]) sample_in_flight) 0)) = [CallResp 5 kErrorCodeNone [9]]"
  using response_once [OF sample_in_flight_ok, of "sample_resp [9]" 5 "sample_resp [8]" 0 pipe_posix 0]
  by (simp add: sample_in_flight_simps)

section \<open>Loss of the connection\<close>

lemma cancel_timeouts_frame:
  "cl_callbackMap (cancel_timeouts m c) = cl_callbackMap c \<and> cl_calls (cancel_timeouts m c) = cl_calls c \<and>
   cl_thread (cancel_timeouts m c) = cl_thread c \<and> cl_shouldNewBreaker (cancel_timeouts m c) = cl_shouldNewBreaker c \<and>
   cl_shouldNewConnBreaker (cancel_timeouts m c) = cl_shouldNewConnBreaker c"
  by (induction m c rule: cancel_timeouts.induct) simp_all

lemma lose_callbacks_all:
  assumes "distinct ks" "\<forall>k \<in> set ks. callback_of c k = Some (g k)"
  shows "\<exists>c'. lose_callbacks ks c = (False, c') \<and> cl_calls c' = cl_calls c @ map (\<lambda>k. CallResp (g k) kErrorCodeLoseConnect []) ks \<and>
     (\<forall>k. callback_of c' k = (if k \<in> set ks then None else callback_of c k)) \<and>
     cl_timeoutAlarmMap c' = cl_timeoutAlarmMap c \<and> cl_thread c' = cl_thread c"
  using assms
proof (induction ks arbitrary: c)
  case (Cons k ks)
  obtain f c1 where gc: "GetCallback k c = (f, c1)" by force
  have f: "f = Some (g k)" "cl_calls c1 = cl_calls c" "\<And>i. callback_of c1 i = (if i = k then None else callback_of c i)"
    using GetCallback_result [of k c] gc Cons.prems(2) by simp_all
  have same: "cl_timeoutAlarmMap c1 = cl_timeoutAlarmMap c \<and> cl_thread c1 = cl_thread c"
    using gc by (auto simp: GetCallback_def split: option.splits)
  let ?c2 = "log_call (CallResp (g k) kErrorCodeLoseConnect []) c1"
  have d: "distinct ks" "\<forall>k \<in> set ks. callback_of ?c2 k = Some (g k)" using Cons.prems f(3) by auto
  obtain c' where c': "lose_callbacks ks ?c2 = (False, c')"
    "cl_calls c' = cl_calls ?c2 @ map (\<lambda>k. CallResp (g k) kErrorCodeLoseConnect []) ks"
    "\<forall>i. callback_of c' i = (if i \<in> set ks then None else callback_of ?c2 i)"
    "cl_timeoutAlarmMap c' = cl_timeoutAlarmMap ?c2" "cl_thread c' = cl_thread ?c2"
    using Cons.IH [OF d] by blast
  have "lose_callbacks (k # ks) c = (False, c')" using gc f(1) c'(1) by simp
  moreover have "cl_calls c' = cl_calls c @ map (\<lambda>k. CallResp (g k) kErrorCodeLoseConnect []) (k # ks)"
    using c'(2) f(2) by (simp add: log_call_def)
  moreover have "\<forall>i. callback_of c' i = (if i \<in> set (k # ks) then None else callback_of c i)" using c'(3) f(3) by auto
  moreover have "cl_timeoutAlarmMap c' = cl_timeoutAlarmMap c \<and> cl_thread c' = cl_thread c"
    using c'(4,5) same by (simp add: log_call_def)
  ultimately show ?case by blast
qed simp

lemma rebuild_frame: "rebuild_breakers P c w = (c', w') \<Longrightarrow> cl_calls c' = cl_calls c \<and> cl_thread c' = cl_thread c \<and>
    cl_timeoutAlarmMap c' = cl_timeoutAlarmMap c \<and> callback_of c' = callback_of c"
  by (auto simp: rebuild_breakers_def callback_of_def fun_eq_iff split: prod.splits)



text \<open>
  C29: a request without reply that is still in flight when the connection is lost silences all others. Its
  timeout is kept under the id 0, which comes first and has no callback; \<^verbatim>\<open>__WaitDisconnect\<close> returns
  there, after it has cancelled every timeout. No callback is called then or later by a timeout, and
  breakers that failed are not rebuilt.
\<close>

theorem no_reply_silences_loss:
  assumes "cl_ok c" "cl_thread c" "map_of (cl_timeoutAlarmMap c) 0 = Some i" "callback_of c 0 = None"
  shows "\<exists>c'. WaitDisconnect P c w = (c', w) \<and> cl_calls c' = cl_calls c \<and> cl_timeoutAlarmMap c' = [] \<and>
    (\<forall>k. callback_of c' k = callback_of c k)"
proof -
  let ?m = "cl_timeoutAlarmMap c"
  let ?c1 = "(cancel_timeouts ?m (c\<lparr>cl_thread := False\<rparr>))\<lparr>cl_timeoutAlarmMap := []\<rparr>"
  have ok: "map_ok ?m" using assms(1) by (simp add: cl_ok_def owners_ok_def)
  obtain k v m' where m: "?m = (k, v) # m'" using assms(3) by (cases ?m) auto
  have k: "k = 0"
  proof (rule ccontr)
    assume k0: "k \<noteq> 0"
    then have "(0, i) \<in> set m'" using assms(3) m by (auto dest: map_of_SomeD split: if_splits)
    then have "k < 0" using ok m by (force simp: map_ok_def)
    then show False by simp
  qed
  have c1: "cl_calls ?c1 = cl_calls c" "\<And>k. callback_of ?c1 k = callback_of c k"
    using cancel_timeouts_frame [of ?m "c\<lparr>cl_thread := False\<rparr>"] by (simp_all add: callback_of_def)
  obtain f c2 where g: "GetCallback 0 ?c1 = (f, c2)" by force
  have f: "f = None" "cl_calls c2 = cl_calls c" "\<And>k. callback_of c2 k = callback_of c k"
    using GetCallback_result [of 0 ?c1] g c1 assms(4) by auto
  have t: "cl_timeoutAlarmMap c2 = []" using g by (auto simp: GetCallback_def split: option.splits)
  have "lose_callbacks (map fst ?m) ?c1 = (True, c2)" using g f(1) k m by simp
  then have "WaitDisconnect P c w = (c2, w)" using assms(2) by (simp add: WaitDisconnect_def Let_def)
  with f t show ?thesis by blast
qed

theorem no_reply_silences_loss_witness:
  "callback_of (start_timeout 0 0 0 sample_in_flight) 1 = Some 5 \<and>
   (\<exists>c'. WaitDisconnect pipe_posix (start_timeout 0 0 0 sample_in_flight) 0 = (c', 0) \<and> cl_calls c' = [] \<and>
      cl_timeoutAlarmMap c' = [] \<and> callback_of c' 1 = Some 5)"
proof -
  let ?c = "start_timeout 0 0 0 sample_in_flight"
  have c: "callback_of ?c k = callback_of sample_in_flight k" for k by (simp add: callback_of_def)
  from no_reply_silences_loss [OF start_timeout_ok [OF sample_in_flight_ok], of 0 0 0 1 pipe_posix 0]
  show ?thesis by (fastforce simp: c sample_in_flight_simps sample_no_reply_map)
qed

end
