(* ===== verification/AtMostOnce.thy ===== *)
theory AtMostOnce
  imports Requests
begin

text \<open>
  A response callback is called at most once. The measure \<open>due\<close> counts the calls made and the
  registrations left; no step of the client but a send with that callback increases it.
\<close>

section \<open>The measure\<close>

fun is_resp :: "'cb \<Rightarrow> 'cb call \<Rightarrow> bool" where
  "is_resp f (CallResp g e p) = (g = f)"
| "is_resp f _ = False"

definition resp_calls :: "'cb \<Rightarrow> 'cb TcpClient \<Rightarrow> nat" where
  "resp_calls f c = length (filter (is_resp f) (cl_calls c))"

definition registered :: "'cb \<Rightarrow> (u16, 'cb option) std_map \<Rightarrow> nat" where
  "registered f m = length (filter (\<lambda>(k, g). g = Some f) m)"

definition due :: "'cb \<Rightarrow> 'cb TcpClient \<Rightarrow> nat" where
  "due f c = resp_calls f c + registered f (cl_callbackMap c)"

lemma registered_erase:
  "map_of m k = Some g \<Longrightarrow> registered f (map_erase k m) + (if g = Some f then 1 else 0) \<le> registered f m"
proof (induction m)
  case (Cons x m)
  have le: "registered f (map_erase k m) \<le> registered f m"
    unfolding registered_def map_erase_def by (induction m) auto
  show ?case using Cons le by (cases x) (auto simp: registered_def map_erase_def)
qed simp

lemma registered_put: "registered f (map_put k g m) \<le> registered f m + (if g = Some f then 1 else 0)"
  by (induction k g m rule: map_put.induct) (auto simp: registered_def)

lemma due_same: "same_talk c c' \<Longrightarrow> due f c' = due f c"
  by (simp add: same_talk_def due_def resp_calls_def)

lemma due_log: "due f (log_call x c) = due f c + (if is_resp f x then 1 else 0)"
  by (simp add: due_def resp_calls_def log_call_def)

lemma due_GetCallback: "GetCallback k c = (g, c') \<Longrightarrow> due f c' + (if g = Some f then 1 else 0) \<le> due f c"
  using registered_erase [of "cl_callbackMap c" k g f]
  by (auto simp: GetCallback_def due_def resp_calls_def split: option.splits)

lemma due_called: "GetCallback k c = (Some g, c') \<Longrightarrow> due f (log_call (CallResp g e p) c') \<le> due f c"
  using due_GetCallback [of k c "Some g" c' f] by (auto simp: due_log split: if_splits)

section \<open>No operation increases it\<close>

lemma due_SetConnectStatus: "due f (SetConnectStatus st c) = due f c"
  by (simp add: SetConnectStatus_def Let_def due_log due_same [of c "c\<lparr>cl_connectStatus := st\<rparr>"] same_talk_def)

lemma due_handleSendResp: "due f (handleSendResp m c) \<le> due f c"
proof -
  let ?k = "sr_messageId m"
  obtain g c2 where g: "GetCallback ?k (stop_timeout ?k c) = (g, c2)" by force
  have s: "due f (stop_timeout ?k c) = due f c" by (rule due_same) (simp add: same_talk_def)
  show ?thesis
    using due_GetCallback [OF g, of f] due_called [of ?k "stop_timeout ?k c" _ c2 f] g s
    by (cases g) (auto simp: handleSendResp_alt)
qed

lemma due_handleDisconnect: "due f (fst (handleDisconnect P m c w)) = due f c"
  using due_same [OF DisconnectAsync_talk [of c P kDisCodeKickout False w], of f]
  by (auto simp: handleDisconnect_def Let_def due_log split: prod.splits)

lemma start_timeout_talk: "same_talk c (start_timeout junk now k c)"
  by (simp add: same_talk_def)

lemma due_lose: "due f (snd (lose_callbacks ks c)) \<le> due f c"
proof (induction ks c rule: lose_callbacks.induct)
  case (2 k ks c)
  obtain g c1 where g: "GetCallback k c = (g, c1)" by force
  show ?case
  proof (cases g)
    case None
    then show ?thesis using g due_GetCallback [OF g, of f] by simp
  next
    case (Some x)
    have "due f (snd (lose_callbacks ks (log_call (CallResp x kErrorCodeLoseConnect []) c1))) \<le>
      due f (log_call (CallResp x kErrorCodeLoseConnect []) c1)"
      by (rule 2 [of g c1 x]) (use g Some in simp_all)
    also have "\<dots> \<le> due f c" using g Some by (intro due_called) simp
    finally show ?thesis using g Some by simp
  qed
qed simp

lemma due_WaitDisconnect: "due f (fst (WaitDisconnect P c w)) \<le> due f c"
proof -
  let ?c1 = "(cancel_timeouts (cl_timeoutAlarmMap c) (c\<lparr>cl_thread := False\<rparr>))\<lparr>cl_timeoutAlarmMap := []\<rparr>"
  obtain early c2 where l: "lose_callbacks (map fst (cl_timeoutAlarmMap c)) ?c1 = (early, c2)" by force
  have "due f ?c1 = due f c"
    by (rule due_same) (simp add: same_talk_def cancel_timeouts_frame)
  then have le: "due f c2 \<le> due f c" using due_lose [of f "map fst (cl_timeoutAlarmMap c)" ?c1] l by simp
  have "due f (fst (rebuild_breakers P c2 w)) = due f c2"
    by (rule due_same) (simp add: same_talk_def rebuild_breakers_def split: prod.splits)
  with le l show ?thesis by (simp add: WaitDisconnect_def)
qed

lemma due_request_timeout: "due f (fst (request_timeout P i c w)) \<le> due f c"
proof -
  let ?k = "word_of_int (al_userData (get_alarm (PooledAlarm i) c)) :: u16"
  define c1 where "c1 = (case map_of (cl_timeoutAlarmMap c) ?k of
      None \<Rightarrow> c | Some k \<Rightarrow> release_alarm k (c\<lparr>cl_timeoutAlarmMap := map_erase ?k (cl_timeoutAlarmMap c)\<rparr>))"
  have s: "due f c1 = due f c" by (rule due_same) (simp add: c1_def same_talk_def split: option.splits)
  obtain g c2 where g: "GetCallback ?k c1 = (g, c2)" by force
  have r: "request_timeout P i c w = (case GetCallback ?k c1 of
      (None, c2) \<Rightarrow> (c2, w)
    | (Some callback, c2) \<Rightarrow>
        let c3 = log_call (CallResp callback kErrorCodeTimeout []) c2
        in if cl_connectStatus c3 = kConnected \<and> \<not> cl_timeoutDisconnect c3
           then DisconnectAsync P kDisCodeSendReqTimeout True (c3\<lparr>cl_timeoutDisconnect := True\<rparr>) w
           else (c3, w))"
    unfolding request_timeout_def c1_def Let_def by (rule refl)
  have d: "due f (fst (DisconnectAsync P kDisCodeSendReqTimeout True (c3\<lparr>cl_timeoutDisconnect := True\<rparr>) w)) = due f c3"
    for c3 :: "'a TcpClient"
    using due_same [OF DisconnectAsync_talk, of f P kDisCodeSendReqTimeout True "c3\<lparr>cl_timeoutDisconnect := True\<rparr>" w]
      due_same [of c3 "c3\<lparr>cl_timeoutDisconnect := True\<rparr>" f] by (simp add: same_talk_def)
  show ?thesis
    unfolding r using g due_GetCallback [OF g, of f] due_called [of ?k c1 _ c2 f kErrorCodeTimeout "[]"] s
    by (cases g) (auto simp: Let_def d)
qed

lemma due_reconnect: "due f (fst (reconnect P c w)) \<le> due f c"
proof -
  obtain c1 w1 where w: "WaitDisconnect P c w = (c1, w1)" by force
  have 1: "due f c1 \<le> due f c" using due_WaitDisconnect [of f P c w] w by simp
  have "due f (fst (MakeSureConnected P (c1\<lparr>cl_reconnectCount := n\<rparr>) w1)) = due f c1" for n
    using due_same [OF MakeSureConnected_talk, of f P "c1\<lparr>cl_reconnectCount := n\<rparr>" w1]
      due_same [of c1 "c1\<lparr>cl_reconnectCount := n\<rparr>" f] by (simp add: same_talk_def)
  with 1 w show ?thesis by (simp add: reconnect_def)
qed

lemma due_fire: "due f (fst (fire_alarm P r c w)) \<le> due f c"
proof -
  obtain g a where g: "Alarm_fire (get_alarm r c) = (g, a)" by force
  have s: "due f (put_alarm r a c) = due f c" by (rule due_same) (simp add: same_talk_def)
  have b: "due f (fst (break_readWrite P c' w)) = due f c'" for c' :: "'a TcpClient"
    by (rule due_same) (simp add: break_readWrite_def same_talk_def split: prod.splits)
  have "due f (fst (on_alarm P fn (put_alarm r a c) w)) \<le> due f c" for fn
    using s due_reconnect [of f P "put_alarm r a c" w] due_request_timeout [of f P _ "put_alarm r a c" w]
    by (cases fn) (simp_all add: b)
  with g s show ?thesis by (cases g) (simp_all add: fire_alarm_def)
qed

lemma queue_talk: "same_talk c (fst (snd (SendNoReply j P ty payload c w)))" "same_talk c (fst (SendDisconnect j P c w))"
  by (simp_all add: SendNoReply_def SendDisconnect_def same_talk_def Let_def split: prod.splits)

lemma due_SendData: "due f (fst (snd (SendData j P ty payload dat func c w))) \<le> due f c + (if func = Some f then 1 else 0)"
proof (cases "cl_connectStatus c = kConnected")
  case True
  obtain ok c' w' where s: "SendData j P ty payload dat func c w = (ok, c', w')" by (metis prod_cases3)
  from SendData_connected [OF True s] obtain b m where
    "c' = c\<lparr>cl_callbackMap := map_put (cl_currentMsgId c) func (cl_callbackMap c),
            cl_messageQueue := cl_messageQueue c @ [MSendReq m], cl_currentMsgId := next_msg_id (cl_currentMsgId c),
            cl_readWriteBreaker := b\<rparr>" by metis
  then show ?thesis
    using s registered_put [of f "cl_currentMsgId c" func "cl_callbackMap c"] by (simp add: due_def resp_calls_def)
next
  case False
  then show ?thesis by (simp add: SendData_not_connected due_def resp_calls_def split: option.splits)
qed

section \<open>The interpretation\<close>

interpretation due_bound: thread_invariant P "\<lambda>c. due f c \<le> n" for P :: "'w posix" and f :: 'cb and n
proof
  fix c c' :: "'cb TcpClient"
  assume c: "due f c \<le> n"
  show "due f c' \<le> n" if "same_shared c c'"
    using that c due_same [of c c' f] by (simp add: same_shared_def same_core_def same_talk_def)
  show "due f (start_alarm r now sec c) \<le> n" for r now sec
    using c due_same [of c "start_alarm r now sec c" f] by (simp add: same_talk_def)
  show "due f (cancel_alarm r c) \<le> n" for r
    using c due_same [of c "cancel_alarm r c" f] by (simp add: same_talk_def)
  show "due f (start_timeout junk now k c) \<le> n" for junk now k
    using c due_same [OF start_timeout_talk, of f junk now k c] by simp
  show "due f (handleSendReq m c) \<le> n" for m using c by (simp add: handleSendReq_def due_log)
  show "due f (handleSendResp m c) \<le> n" for m using c due_handleSendResp [of f m c] by simp
qed (simp_all add: due_handleDisconnect due_SetConnectStatus)

lemma other_step_due: "other_step (\<lambda>g. g \<noteq> Some f) P s s' \<Longrightarrow> due f (fst s) \<le> n \<Longrightarrow> due f (fst s') \<le> n"
proof (induction rule: other_step.induct)
  case (send func j ty payload dat c w b c' w')
  then show ?case using due_SendData [of f j P ty payload dat func c w] by simp
next
  case (noReply j ty payload c w b c' w')
  then show ?case using due_same [OF queue_talk(1), of f j P ty payload c w] by simp
next
  case (sendDisconnect j c w c' w')
  then show ?case using due_same [OF queue_talk(2), of f j P c w] by simp
next
  case (disconnect code re c w c' w')
  then show ?case using due_same [OF DisconnectAsync_talk, of f P code re c w] by simp
next
  case (connect c w c' w')
  then show ?case using due_same [OF MakeSureConnected_talk, of f P c w] by simp
next
  case (netType c w t)
  then show ?case using due_same [of c "SetNetType t c" f] by (simp add: SetNetType_def same_talk_def)
next
  case (httpDns c w h)
  then show ?case using due_same [of c "SetHttpDns h c" f] by (simp add: SetHttpDns_def same_talk_def)
next
  case (scan now c q dm d w)
  then show ?case using due_same [of c "c\<lparr>cl_timers := q\<rparr>" f] by (simp add: same_talk_def)
next
  case (fire r c w c' w')
  then show ?case using due_fire [of f P r c w] by simp
qed simp

lemma system_step_due: "system_step (\<lambda>g. g \<noteq> Some f) P Z s s' \<Longrightarrow> due f (fst s) \<le> n \<Longrightarrow> due f (fst s') \<le> n"
proof (induction rule: system_step.induct)
  case (run E c w r s')
  have "due_bound.undisturbed P f n E"
    using env_ok_keeps [where I = "\<lambda>c. due f c \<le> n", OF run(1) other_step_due] run(2) by (auto simp: due_bound.undisturbed_def)
  from due_bound.keeps_Run [OF this] run show ?case by (metis keepsD fst_conv prod.collapse)
next
  case (other s s')
  then show ?case by (rule other_step_due)
next
  case (reconnect c w c' w')
  then show ?case using due_fire [of f P ReconnectAlarm c w] by simp
next
  case (wait c w c' w')
  then show ?case using due_WaitDisconnect [of f P c w] by simp
qed (simp_all add: InitHostAndPort_def SetOnConnStatusChange_def SetOnServerDisconnect_def SetOnSendReq_def due_def resp_calls_def)

text \<open>
  C1: a response callback is called at most once. After a request was sent with a callback that is
  neither registered nor called before, and as long as it is not used for another request, no
  interleaving of the application's calls, timeouts, runs of the client's thread, disconnects and
  reconnects calls it a second time.
\<close>

theorem callback_at_most_once:
  assumes "due f c0 = 0" "Send j P ty payload (Some f) c0 w0 = (ok, c, w)"
    and "(system_step (\<lambda>g. g \<noteq> Some f) P Z)\<^sup>*\<^sup>* (c, w) (c', w')"
  shows "resp_calls f c' \<le> 1"
proof -
  have c: "due f (fst (c, w)) \<le> 1" using assms(1,2) due_SendData [of f j P ty payload None "Some f" c0 w0] by (simp add: Send_def)
  from assms(3) have "due f (fst (c', w')) \<le> 1"
    by (induction rule: rtranclp_induct) (use c in \<open>auto intro: system_step_due\<close>)
  then show ?thesis by (simp add: due_def)
qed

theorem callback_at_most_once_witness:
  "let (ok, c, w) = Send sample_junk pipe_posix [1] [2] (Some 5) sample_client 0;
       (c1, w1) = DisconnectAsync pipe_posix kDisCodeReset True c w;
       (c2, w2) = WaitDisconnect pipe_posix c1 w1
   in resp_calls 5 c2 \<le> 1"
proof -
  obtain ok c w where s: "Send sample_junk pipe_posix [1] [2] (Some 5) sample_client 0 = (ok, c, w)" by (metis prod_cases3)
  obtain c1 w1 where d: "DisconnectAsync pipe_posix kDisCodeReset True c w = (c1, w1)" by force
  obtain c2 w2 where t: "WaitDisconnect pipe_posix c1 w1 = (c2, w2)" by force
  have 0: "due 5 sample_client = 0" by (simp add: due_def resp_calls_def registered_def)
  let ?R = "system_step (\<lambda>g. g \<noteq> Some 5) pipe_posix stored_zlib"
  have "?R\<^sup>*\<^sup>* (c, w) (c2, w2)"
    using system_step.other [OF other_step.disconnect [OF d]] system_step.wait [OF t]
    by (meson converse_rtranclp_into_rtranclp rtranclp.rtrancl_refl)
  from callback_at_most_once [OF 0 s this] s d t show ?thesis by simp
qed

end
