(* ===== verification/Lifecycle.thy ===== *)
theory Lifecycle
  imports Requests
begin

text \<open>
  The life of a connection: the addresses it tries and the status changes the application sees.
\<close>

section \<open>Addresses\<close>

lemma fill_addrs_round_robin:
  assumes "ips \<noteq> []"
  shows "fill_addrs ips port tls 0 [] =
    Inr (map (\<lambda>i. \<lparr>ai_ip = ips ! (i mod length ips), ai_port = port, ai_isTls = tls\<rparr>) [0, 1, 2])"
proof -
  consider a where "ips = [a]" | a b where "ips = [a, b]" | a b c xs where "ips = a # b # c # xs"
    using assms by (metis list.exhaust)
  then show ?thesis
    by cases (simp_all add: fill_addrs.simps [of _ port tls] numeral_2_eq_2)
qed

lemma GetHostByName_nonempty:
  "GetHostByName apple junk answered P host backupIp ips0 b timeout d w = ((True, ips, b', d'), w') \<Longrightarrow> ips \<noteq> []"
  by (auto simp: GetHostByName_def Let_def split: prod.splits if_splits)

text \<open>
  C28: the addresses of the connection race. Whenever name resolution succeeds, the loop of \<^verbatim>\<open>__RunConnect\<close> gives
  exactly three entries, the resolved addresses taken round robin, each with the configured port
  and TLS flag, and never indexes past the end of the list.
\<close>

theorem connect_addresses:
  assumes "resolve E (c, w) = (Inr (Some ips), c', w')"
  shows "fill_addrs ips port tls 0 [] =
    Inr (map (\<lambda>i. \<lparr>ai_ip = ips ! (i mod length ips), ai_port = port, ai_isTls = tls\<rparr>) [0, 1, 2])"
proof (rule fill_addrs_round_robin)
  show "ips \<noteq> []"
    using assms by (auto simp: resolve_def Let_def split: prod.splits if_splits dest: GetHostByName_nonempty)
qed

theorem connect_addresses_witness:
  "\<exists>ips c' w'. resolve sample_env (sample_client, 0) = (Inr (Some ips), c', w') \<and>
     fill_addrs ips 80 False 0 [] = Inr (map (\<lambda>i. \<lparr>ai_ip = ips ! (i mod length ips), ai_port = 80, ai_isTls = False\<rparr>) [0, 1, 2])"
proof -
  have "\<exists>ips c' w'. resolve sample_env (sample_client, 0) = (Inr (Some ips), c', w')"
    by (simp add: resolve_def GetHostByName_def sample_defs sample_env_def demo_dns_def clear_retBreaker_def Breaker_Clear_def pipe_posix_def
        quiet_posix_def Breaker_ReCreate_def Breaker_Close_def GetIps_def Breaker_Break_def SocketSelect_new_def SocketEpoll_new_def
        SocketEpoll_ReadEvent_def SocketEpoll_ErrorEvent_def epoll_upd_def SocketEpoll_Poll_def SocketEpoll_ClearEvent_def Let_def
        SocketEpoll_BreakerIsBreak_def SocketEpoll_ReadFdIsSet_def split: prod.splits)
  then obtain ips c' w' where r: "resolve sample_env (sample_client, 0) = (Inr (Some ips), c', w')" by blast
  from r connect_addresses [OF r] show ?thesis by blast
qed

section \<open>Status changes\<close>

fun status_calls :: "'cb call list \<Rightarrow> ConnectStatus list" where
  "status_calls [] = []"
| "status_calls (CallStatus st # xs) = st # status_calls xs"
| "status_calls (x # xs) = status_calls xs"

lemma status_calls_append [simp]: "status_calls (xs @ ys) = status_calls xs @ status_calls ys"
  by (induction xs rule: status_calls.induct) simp_all

text \<open>No alarm but the reconnect alarm runs the reconnect callback.\<close>

definition fns_ok :: "'cb TcpClient \<Rightarrow> bool" where
  "fns_ok c \<longleftrightarrow> al_innerCallback (cl_pingAlarm c) \<noteq> Some ReconnectFn \<and> al_innerCallback (cl_pingTimeoutAlarm c) \<noteq> Some ReconnectFn \<and>
     (\<forall>a \<in> set (cl_alarms c). al_innerCallback a \<noteq> Some ReconnectFn) \<and> al_callback (cl_reconnectAlarm c)"

text \<open>The phase between two changes of the status: \<open>st\<close> is the status, \<open>l\<close> the changes reported so far.\<close>

definition in_phase :: "ConnectStatus \<Rightarrow> ConnectStatus list \<Rightarrow> 'cb TcpClient \<Rightarrow> bool" where
  "in_phase st l c \<longleftrightarrow> cl_thread c \<and> cl_connectStatus c = st \<and> cl_onStatusChange c \<and> status_calls (cl_calls c) = l \<and> fns_ok c"

lemma in_phase_SetConnectStatus:
  "in_phase st l c \<Longrightarrow> st' \<noteq> st \<Longrightarrow> in_phase st' (l @ [st']) (SetConnectStatus st' c)"
  by (auto simp: in_phase_def SetConnectStatus_def log_call_def fns_ok_def Let_def)

text \<open>Operations on alarms keep their callbacks.\<close>

lemma Alarm_Start_fns:
  "Alarm_Start post sec a q = (b, a', q') \<Longrightarrow> al_innerCallback a' = al_innerCallback a \<and> al_callback a' = al_callback a"
  by (auto simp: Alarm_Start_def split: if_splits prod.splits)

lemma Alarm_Cancel_fns:
  "Alarm_Cancel cancel a q = (b, a', q') \<Longrightarrow> al_innerCallback a' = al_innerCallback a \<and> al_callback a' = al_callback a"
  by (auto simp: Alarm_Cancel_def split: if_splits prod.splits)

lemma fns_ok_put:
  assumes "fns_ok c" "al_innerCallback a = al_innerCallback (get_alarm r c)" "al_callback a = al_callback (get_alarm r c)"
  shows "fns_ok (put_alarm r a (c\<lparr>cl_timers := q\<rparr>))"
proof (cases r)
  case (PooledAlarm i)
  have "al_innerCallback x \<noteq> Some ReconnectFn" if "x \<in> set ((cl_alarms c)[i := a])" for x
  proof (cases "i < length (cl_alarms c)")
    case True
    then have "al_innerCallback a \<noteq> Some ReconnectFn" using assms(1,2) PooledAlarm by (simp add: fns_ok_def)
    with that assms(1) show ?thesis using set_update_subset_insert [of "cl_alarms c" i a] by (auto simp: fns_ok_def)
  next
    case False
    with that assms(1) show ?thesis by (simp add: fns_ok_def list_update_beyond)
  qed
  with assms(1) PooledAlarm show ?thesis by (simp add: fns_ok_def)
qed (use assms in \<open>simp_all add: fns_ok_def\<close>)

lemma fns_ok_start: "fns_ok c \<Longrightarrow> fns_ok (start_alarm r now sec c)"
  using fns_ok_put [of c _ r] Alarm_Start_fns by (fastforce simp: start_alarm_def split: prod.splits)

lemma fns_ok_cancel: "fns_ok c \<Longrightarrow> fns_ok (cancel_alarm r c)"
  using fns_ok_put [of c _ r] Alarm_Cancel_fns by (fastforce simp: cancel_alarm_def split: prod.splits)

lemma fns_ok_frame:
  assumes "fns_ok c" "cl_pingAlarm c' = cl_pingAlarm c" "cl_pingTimeoutAlarm c' = cl_pingTimeoutAlarm c"
    "cl_reconnectAlarm c' = cl_reconnectAlarm c" "cl_alarms c' = cl_alarms c"
  shows "fns_ok c'"
  using assms by (simp add: fns_ok_def)

lemma fns_ok_start_timeout:
  assumes "fns_ok c"
  shows "fns_ok (start_timeout junk now k c)"
proof -
  obtain i c1 where t: "take_alarm junk c = (i, c1)" by force
  let ?a = "Alarm_SetCallback (TimeoutFn i) ((get_alarm (PooledAlarm i) c1)\<lparr>al_userData := uint k\<rparr>)"
  let ?c2 = "put_alarm (PooledAlarm i) ?a c1"
  have 1: "fns_ok c1" using assms t
    by (auto simp: take_alarm_def fns_ok_def Alarm_new_def Let_def split: prod.splits if_splits)
  have 2: "fns_ok ?c2" using 1 set_update_subset_insert [of "cl_alarms c1" i ?a]
    by (auto simp: fns_ok_def Alarm_SetCallback_def)
  have "fns_ok (start_alarm (PooledAlarm i) now kSendReqTimeout ?c2)" by (rule fns_ok_start [OF 2])
  then show ?thesis
    unfolding start_timeout_def t Let_def split
    by (rule fns_ok_frame) (simp_all add: store_alarm_def release_alarm_def Let_def split: option.splits)
qed

lemma DisconnectAsync_phase: "in_phase st l c \<Longrightarrow> in_phase st l (fst (DisconnectAsync P code re c w))"
  by (rule DisconnectAsync_thread [of c P code re w]) (auto simp: in_phase_def fns_ok_def)

lemma GetCallback_phase: "in_phase st l c \<Longrightarrow> in_phase st l (snd (GetCallback k c))"
  by (auto simp: GetCallback_def in_phase_def fns_ok_def split: option.splits)

lemma log_call_phase: "in_phase st l c \<Longrightarrow> (\<And>s. x \<noteq> CallStatus s) \<Longrightarrow> in_phase st l (log_call x c)"
  by (cases x) (auto simp: in_phase_def fns_ok_def log_call_def)

lemma stop_timeout_phase: "in_phase st l c \<Longrightarrow> in_phase st l (stop_timeout k c)"
proof (cases "map_of (cl_timeoutAlarmMap c) k")
  case (Some i)
  assume c: "in_phase st l c"
  have "fns_ok (cancel_alarm (PooledAlarm i) c)" using c by (simp add: in_phase_def fns_ok_cancel)
  then have "fns_ok (stop_timeout k c)"
    by (rule fns_ok_frame) (simp_all add: stop_timeout_def Some Let_def release_alarm_def)
  with c Some show ?thesis by (simp add: in_phase_def stop_timeout_def Let_def)
qed (simp add: stop_timeout_def)

lemma handleSendResp_phase: "in_phase st l c \<Longrightarrow> in_phase st l (handleSendResp m c)"
proof -
  assume c: "in_phase st l c"
  let ?k = "sr_messageId m"
  have "in_phase st l (snd (GetCallback ?k (stop_timeout ?k c)))" by (intro GetCallback_phase stop_timeout_phase c)
  then show ?thesis by (auto simp: handleSendResp_alt intro!: log_call_phase split: prod.splits option.splits)
qed

interpretation phase: thread_frame P "in_phase st l" for P :: "'w posix" and st l
proof
  fix c c' :: "'cb TcpClient"
  assume c: "in_phase st l c"
  show "in_phase st l c'" if "same_shared c c'"
    using that c by (auto simp: same_shared_def same_core_def in_phase_def intro: fns_ok_frame)
  show "in_phase st l (start_alarm r now sec c)" for r now sec using c by (simp add: in_phase_def fns_ok_start)
  show "in_phase st l (cancel_alarm r c)" for r using c by (simp add: in_phase_def fns_ok_cancel)
  show "in_phase st l (start_timeout junk now k c)" for junk now k using c by (simp add: in_phase_def fns_ok_start_timeout)
  show "in_phase st l (handleSendReq m c)" for m using c by (auto simp: handleSendReq_def intro!: log_call_phase)
  show "in_phase st l (handleSendResp m c)" for m by (rule handleSendResp_phase [OF c])
  show "in_phase st l (fst (handleDisconnect P d c w))" for P :: "'w posix" and d w
    using c DisconnectAsync_phase [OF c, of P kDisCodeKickout False w]
    by (auto simp: handleDisconnect_def Let_def intro!: log_call_phase split: prod.splits)
qed

lemma break_readWrite_phase: "in_phase st l c \<Longrightarrow> in_phase st l (fst (break_readWrite P c w))"
  by (auto simp: break_readWrite_def in_phase_def fns_ok_def split: prod.splits)

lemma request_timeout_phase:
  assumes "in_phase st l c"
  shows "in_phase st l (fst (request_timeout P i c w))"
proof -
  let ?k = "word_of_int (al_userData (get_alarm (PooledAlarm i) c)) :: u16"
  define c1 where "c1 = (case map_of (cl_timeoutAlarmMap c) ?k of
      None \<Rightarrow> c | Some k \<Rightarrow> release_alarm k (c\<lparr>cl_timeoutAlarmMap := map_erase ?k (cl_timeoutAlarmMap c)\<rparr>))"
  have "in_phase st l c1"
    using assms by (auto simp: c1_def in_phase_def fns_ok_def release_alarm_def split: option.splits)
  then have g: "in_phase st l (snd (GetCallback ?k c1))" by (rule GetCallback_phase)
  have t: "in_phase st l (c3\<lparr>cl_timeoutDisconnect := b\<rparr>)" if "in_phase st l c3" for c3 :: "'a TcpClient" and b
    using that by (auto simp: in_phase_def fns_ok_def)
  have r: "request_timeout P i c w = (case GetCallback ?k c1 of
      (None, c2) \<Rightarrow> (c2, w)
    | (Some callback, c2) \<Rightarrow>
        let c3 = log_call (CallResp callback kErrorCodeTimeout []) c2
        in if cl_connectStatus c3 = kConnected \<and> \<not> cl_timeoutDisconnect c3
           then DisconnectAsync P kDisCodeSendReqTimeout True (c3\<lparr>cl_timeoutDisconnect := True\<rparr>) w
           else (c3, w))"
    unfolding request_timeout_def c1_def Let_def by (rule refl)
  obtain f c2 where f: "GetCallback ?k c1 = (f, c2)" by force
  have c2: "in_phase st l c2" using g f by simp
  have lc: "in_phase st l (log_call (CallResp x kErrorCodeTimeout []) c2)" for x by (rule log_call_phase [OF c2]) simp
  show ?thesis
    unfolding r f split by (cases f) (auto simp: Let_def c2 intro!: DisconnectAsync_phase t lc)
qed

lemma fire_alarm_phase:
  assumes "in_phase st l c" "r \<noteq> ReconnectAlarm" "valid_ref r c"
  shows "in_phase st l (fst (fire_alarm P r c w))"
proof -
  obtain f a where f: "Alarm_fire (get_alarm r c) = (f, a)" by force
  have same: "al_innerCallback a = al_innerCallback (get_alarm r c)" "al_callback a = al_callback (get_alarm r c)"
    and fn: "f = None \<or> f = al_innerCallback (get_alarm r c)"
    using f by (auto simp: Alarm_fire_def split: if_splits)
  have "fns_ok (put_alarm r a (c\<lparr>cl_timers := cl_timers c\<rparr>))"
    by (rule fns_ok_put [OF _ same]) (use assms(1) in \<open>simp add: in_phase_def\<close>)
  then have p: "in_phase st l (put_alarm r a c)" using assms(1) by (simp add: in_phase_def)
  have nr: "al_innerCallback (get_alarm r c) \<noteq> Some ReconnectFn"
    using assms by (cases r) (auto simp: in_phase_def fns_ok_def)
  show ?thesis
  proof (cases f)
    case (Some g)
    with fn nr have "g \<noteq> ReconnectFn" by auto
    then have "in_phase st l (fst (on_alarm P g (put_alarm r a c) w))"
      using p by (cases g) (simp_all add: break_readWrite_phase request_timeout_phase)
    with f Some show ?thesis by (simp add: fire_alarm_def)
  qed (use f p in \<open>simp add: fire_alarm_def\<close>)
qed

lemma SendData_phase: "in_phase st l c \<Longrightarrow> in_phase st l (fst (snd (SendData j P ty payload dat func c w)))"
proof (cases "cl_connectStatus c = kConnected")
  case True
  assume c: "in_phase st l c"
  obtain ok c' w' where s: "SendData j P ty payload dat func c w = (ok, c', w')" by (metis prod_cases3)
  from SendData_connected [OF True s] obtain b m where
    "c' = c\<lparr>cl_callbackMap := map_put (cl_currentMsgId c) func (cl_callbackMap c),
            cl_messageQueue := cl_messageQueue c @ [MSendReq m], cl_currentMsgId := next_msg_id (cl_currentMsgId c),
            cl_readWriteBreaker := b\<rparr>" by metis
  with c s show ?thesis by (auto simp: in_phase_def fns_ok_def)
next
  case False
  assume "in_phase st l c"
  then show ?thesis using False by (auto simp: SendData_not_connected in_phase_def fns_ok_def split: option.splits)
qed

lemma other_step_phase: "other_step A P s s' \<Longrightarrow> in_phase st l (fst s) \<Longrightarrow> in_phase st l (fst s')"
proof (induction rule: other_step.induct)
  case (send func j ty payload dat c w b c' w')
  then show ?case using SendData_phase [of st l c j P ty payload dat func w] by simp
next
  case (noReply j ty payload c w b c' w')
  then show ?case by (auto simp: SendNoReply_def in_phase_def fns_ok_def Let_def split: if_splits prod.splits)
next
  case (sendDisconnect j c w c' w')
  then show ?case by (auto simp: SendDisconnect_def in_phase_def fns_ok_def Let_def split: if_splits prod.splits)
next
  case (disconnect code re c w c' w')
  then show ?case using DisconnectAsync_phase [of st l c P code re w] by simp
next
  case (connect c w c' w')
  then show ?case by (auto simp: MakeSureConnected_def in_phase_def split: if_splits)
next
  case (fire r c w c' w')
  then show ?case using fire_alarm_phase [of st l c r P w] by simp
qed (auto simp: SetNetType_def SetHttpDns_def in_phase_def fns_ok_def)

lemma env_ok_phase:
  assumes "env_ok A E"
  shows "phase.undisturbed (re_posix E) st l E"
  using env_ok_keeps [where I = "in_phase st l", OF assms other_step_phase] by (auto simp: phase.undisturbed_def)

text \<open>\<open>keepsD\<close> in the form the chain of a run needs.\<close>

lemma keeps_next: "keeps I m \<Longrightarrow> I (fst s) \<Longrightarrow> m s = (r, s') \<Longrightarrow> I (fst s')"
  unfolding keeps_def by (metis fst_conv snd_conv)

lemma update_Inr: "update f s = (Inr u, s') \<longleftrightarrow> s' = (f (fst s), snd s)"
  by (auto simp: update_def)

lemma handle_Inr: "handle f s = (Inr u, s') \<longleftrightarrow> s' = f (fst s) (snd s)"
  by (auto simp: handle_def)

lemma close_socket_None: "cl_socket (fst (close_socket P c w)) = None"
  by (simp add: close_socket_def split: option.splits prod.splits)

lemma SetConnectStatus_socket [simp]: "cl_socket (SetConnectStatus st c) = cl_socket c"
  by (simp add: SetConnectStatus_def log_call_def Let_def)

lemma start_alarm_waits:
  assumes "al_callback (cl_reconnectAlarm c)"
  shows "Alarm_IsWaiting (cl_reconnectAlarm (start_alarm ReconnectAlarm now sec c))"
  using assms by (auto simp: start_alarm_def Alarm_Start_def Alarm_IsWaiting_def split: prod.splits)

text \<open>The middle of a run, between the report of the connection's outcome and the clean-up.\<close>

lemma Run_middle_keeps:
  assumes "env_ok A E"
  shows "keeps (in_phase st l) (case r of
      kRetConnSuccess \<Rightarrow> RunReadWrite E
    | kRetConnTimeout \<Rightarrow>
        seq (reads cl_socket) (\<lambda>socket.
        case socket of
          None \<Rightarrow> fail Undefined
        | Some so \<Rightarrow> seq (set_option (re_posix E) (Socket_GetSocket so) (SO_LINGER 1 0)) (\<lambda>_. ret ()))
    | _ \<Rightarrow> ret ())"
  using phase.keeps_RunReadWrite [OF env_ok_phase [OF assms]]
  by (cases r) (auto intro!: keeps_rules)

text \<open>
  C13: what the application is told about a connection. A run of the client's thread that ends has
  reported exactly three status changes: connecting, one outcome (connected, failed or kicked
  out), and disconnected, in this order, whatever the other threads did. Then the socket is closed and
  forgotten and the reconnect alarm is waiting.
\<close>

theorem Run_status_sequence:
  assumes "env_ok A E" "in_phase kConnectIdle l c" "Run E (c, w) = (Inr (), c', w')"
  shows "\<exists>r. status_calls (cl_calls c') = l @ [kConnecting, status_of r, kDisconnected] \<and> cl_connectStatus c' = kDisconnected \<and>
    cl_socket c' = None \<and> Alarm_IsWaiting (cl_reconnectAlarm c')"
proof -
  note env = env_ok_phase [OF assms(1)]
  let ?c0 = "SetConnectStatus kConnecting c"
  obtain r s1 s2 s3 where
    1: "connect_body E (?c0, w) = (Inr r, s1)"
    and 2: "others E (SetConnectStatus (status_of r) (fst s1), snd s1) = (Inr (), s2)"
    and 3: "(case r of
      kRetConnSuccess \<Rightarrow> RunReadWrite E
    | kRetConnTimeout \<Rightarrow>
        seq (reads cl_socket) (\<lambda>socket.
        case socket of
          None \<Rightarrow> fail Undefined
        | Some so \<Rightarrow> seq (set_option (re_posix E) (Socket_GetSocket so) (SO_LINGER 1 0)) (\<lambda>_. ret ()))
    | _ \<Rightarrow> ret ()) s2 = (Inr (), s3)"
    and 4: "(c', w') = (\<lambda>(c, w). (start_alarm ReconnectAlarm (sys_clock (re_posix E) w) 0 (SetConnectStatus kDisconnected c), w))
       (close_socket (re_posix E) (fst s3) (snd s3))"
    using assms(3) unfolding Run_def RunConnect_def
    by (auto simp: seq_eq_Inr update_Inr handle_Inr case_prod_unfold)
  have "in_phase kConnecting (l @ [kConnecting]) ?c0" by (rule in_phase_SetConnectStatus [OF assms(2)]) simp
  then have "in_phase kConnecting (l @ [kConnecting]) (fst s1)"
    using keeps_next [OF phase.keeps_connect [OF env] _ 1] by simp
  then have "in_phase (status_of r) (l @ [kConnecting] @ [status_of r]) (SetConnectStatus (status_of r) (fst s1))"
    using in_phase_SetConnectStatus [of kConnecting "l @ [kConnecting]" "fst s1" "status_of r"]
    by (cases r) (simp_all add: status_of_def)
  then have "in_phase (status_of r) (l @ [kConnecting] @ [status_of r]) (fst s2)"
    using keeps_next [OF phase.keeps_others [OF env] _ 2] by simp
  then have "in_phase (status_of r) (l @ [kConnecting] @ [status_of r]) (fst s3)"
    using keeps_next [OF Run_middle_keeps [OF assms(1)] _ 3] by blast
  then have "in_phase (status_of r) (l @ [kConnecting] @ [status_of r]) (fst (close_socket (re_posix E) (fst s3) (snd s3)))"
    using keeps_next [OF phase.keeps_close, of _ _ s3 "re_posix E"] by (simp add: handle_def)
  then have p: "in_phase kDisconnected (l @ [kConnecting, status_of r, kDisconnected])
      (SetConnectStatus kDisconnected (fst (close_socket (re_posix E) (fst s3) (snd s3))))"
    using in_phase_SetConnectStatus [of "status_of r" "l @ [kConnecting] @ [status_of r]" _ kDisconnected]
    by (cases r) (simp_all add: status_of_def)
  from 4 p close_socket_None [of "re_posix E" "fst s3" "snd s3"] start_alarm_waits show ?thesis
    by (auto simp: case_prod_unfold in_phase_def fns_ok_def)
qed

definition offline_client :: "nat TcpClient" where
  "offline_client = sample_client\<lparr>cl_connectStatus := kConnectIdle, cl_netType := kNetTypeNoNet, cl_socket := None\<rparr>"

theorem Run_status_sequence_witness:
  "\<exists>r c' w'. Run sample_env (offline_client, 0) = (Inr (), c', w') \<and>
     status_calls (cl_calls c') = [kConnecting, status_of r, kDisconnected] \<and> Alarm_IsWaiting (cl_reconnectAlarm c')"
proof -
  have "in_phase kConnectIdle [] offline_client"
    by (simp add: in_phase_def fns_ok_def offline_client_def, simp add: sample_defs)
  moreover have "\<exists>s'. Run sample_env (offline_client, 0) = (Inr (), s')"
    by (simp add: Run_def RunConnect_def connect_body_def connect_delay_def seq_def update_def world_def reads_def others_def handle_def
        onWorld_def lift_def SetConnectStatus_def offline_client_def log_call_def close_socket_def Let_def split: prod.splits)
  then obtain c' w' where r: "Run sample_env (offline_client, 0) = (Inr (), c', w')" by auto
  ultimately show ?thesis using Run_status_sequence [OF sample_env_ok _ r] r by fastforce
qed

end
