(* ===== verification/NetCore.thy ===== *)
theory NetCore
  imports ClientLoop
begin

text \<open>
  \<^verbatim>\<open>net_core.cpp\<close>: the interface of the library. Every function works on the one static \<^verbatim>\<open>TcpClient\<close>, which is
  passed as a value here.
\<close>

definition NetCore_InitHostAndPort ::
  "bool \<Rightarrow> string \<Rightarrow> string \<Rightarrow> int \<Rightarrow> bool \<Rightarrow> (unit \<Rightarrow> bytes) option \<Rightarrow> 'cb TcpClient \<Rightarrow> 'cb TcpClient" where
  "NetCore_InitHostAndPort withSsl host backupIp port isTls getConnectInfo client =
     InitHostAndPort withSsl host backupIp port isTls getConnectInfo client"

definition NetCore_MakeSureConnected :: "'w posix \<Rightarrow> 'cb TcpClient \<Rightarrow> 'w \<Rightarrow> 'cb TcpClient \<times> 'w" where
  "NetCore_MakeSureConnected P client w = MakeSureConnected P client w"

definition NetCore_DisconnectAsync ::
  "junk \<Rightarrow> 'w posix \<Rightarrow> DisconnectCode \<Rightarrow> bool \<Rightarrow> 'cb TcpClient \<Rightarrow> 'w \<Rightarrow> 'cb TcpClient \<times> 'w" where
  "NetCore_DisconnectAsync j P code shouldReconnect client w =
     (case SendDisconnect j P client w of (client1, w1) \<Rightarrow> DisconnectAsync P code shouldReconnect client1 w1)"

definition NetCore_Send ::
  "junk \<Rightarrow> 'w posix \<Rightarrow> bytes \<Rightarrow> bytes \<Rightarrow> 'cb option \<Rightarrow> 'cb TcpClient \<Rightarrow> 'w \<Rightarrow> bool \<times> 'cb TcpClient \<times> 'w" where
  "NetCore_Send j P payloadType payload callback client w = Send j P payloadType payload callback client w"

definition NetCore_SendData ::
  "junk \<Rightarrow> 'w posix \<Rightarrow> bytes \<Rightarrow> bytes \<Rightarrow> bytes option \<Rightarrow> 'cb option \<Rightarrow> 'cb TcpClient \<Rightarrow> 'w \<Rightarrow> bool \<times> 'cb TcpClient \<times> 'w" where
  "NetCore_SendData j P payloadType payload dat callback client w = SendData j P payloadType payload dat callback client w"

definition NetCore_SendNoReply ::
  "junk \<Rightarrow> 'w posix \<Rightarrow> bytes \<Rightarrow> bytes \<Rightarrow> 'cb TcpClient \<Rightarrow> 'w \<Rightarrow> bool \<times> 'cb TcpClient \<times> 'w" where
  "NetCore_SendNoReply j P payloadType payload client w = SendNoReply j P payloadType payload client w"

definition NetCore_SetOnConnStatusChange :: "bool \<Rightarrow> 'cb TcpClient \<Rightarrow> 'cb TcpClient" where
  "NetCore_SetOnConnStatusChange f client = SetOnConnStatusChange f client"

definition NetCore_SetOnServerDisconnect :: "bool \<Rightarrow> 'cb TcpClient \<Rightarrow> 'cb TcpClient" where
  "NetCore_SetOnServerDisconnect f client = SetOnServerDisconnect f client"

definition NetCore_SetHttpDns :: "(string \<Rightarrow> string list) option \<Rightarrow> 'cb TcpClient \<Rightarrow> 'cb TcpClient" where
  "NetCore_SetHttpDns f client = SetHttpDns f client"

definition NetCore_SetOnSendReq :: "bool \<Rightarrow> 'cb TcpClient \<Rightarrow> 'cb TcpClient" where
  "NetCore_SetOnSendReq f client = SetOnSendReq f client"

definition NetCore_SetNetType :: "NetType \<Rightarrow> 'cb TcpClient \<Rightarrow> 'cb TcpClient" where
  "NetCore_SetNetType netType client = SetNetType netType client"

definition NetCore_GetConnectStatus :: "'cb TcpClient \<Rightarrow> ConnectStatus" where
  "NetCore_GetConnectStatus client = GetConnectStatus client"

end
