(* ===== verification/Rounds.thy ===== *)
theory Rounds
  imports Lifecycle NetCore
begin

text \<open>
  Iterations of the read-write loop: how a request to disconnect ends it, what a queued request
  wakes, the heartbeat, and the reuse of timeout alarms.
\<close>

section \<open>The start of an iteration\<close>

text \<open>On a client with a socket the part before \<^verbatim>\<open>Select\<close> always succeeds.\<close>

lemma rw_prepare_result:
  assumes "cl_socket c = Some so"
  obtains sel c' w' where "rw_prepare E t (c, w) = (Inr (Socket_GetSocket so, sel), c', w')"
    "cl_socket c' = Some so" "cl_disCode c' = cl_disCode c" "cl_messageQueue c' = cl_messageQueue c"
    "cl_readWriteBreaker c' = cl_readWriteBreaker c"
    "al_callback (cl_pingAlarm c) \<Longrightarrow> Alarm_IsWaiting (cl_pingAlarm c')"
    "cl_messageQueue c \<noteq> [] \<Longrightarrow> sel_writes sel (Socket_GetSocket so)"
    "cl_writer c' = cl_writer c" "cl_pingTimeoutAlarm c' = cl_pingTimeoutAlarm c"
    "\<exists>cur w1 s0. sys_tick (re_posix E) w = (cur, w1) \<and>
       SocketSelect_new (re_apple E) (re_posix E) (cl_readWriteBreaker c) (re_junk E) w1 = (s0, w') \<and>
       sel = (let s1 = SocketSelect_ExceptionFdSet (Socket_GetSocket so) (SocketSelect_ReadFdSet (Socket_GetSocket so) (SocketSelect_PreSelect s0))
              in if cl_messageQueue c \<noteq> [] then SocketSelect_WriteFdSet (Socket_GetSocket so) s1 else s1)"
proof -
  let ?P = "re_posix E"
  let ?fd = "Socket_GetSocket so"
  obtain cur w1 where tick: "sys_tick ?P w = (cur, w1)" by force
  define c1 where "c1 = (if cl_reconnectCount c \<noteq> 0 \<and> cur - t > 5 * 1000 then c\<lparr>cl_reconnectCount := 0\<rparr> else c)"
  define c2 where "c2 = (if \<not> Alarm_IsWaiting (cl_pingAlarm c1) then start_alarm PingAlarm (sys_clock ?P w1) kPingInterval c1 else c1)"
  obtain sel w2 where new: "SocketSelect_new (re_apple E) ?P (cl_readWriteBreaker c2) (re_junk E) w1 = (sel, w2)" by force
  let ?sel1 = "SocketSelect_ExceptionFdSet ?fd (SocketSelect_ReadFdSet ?fd (SocketSelect_PreSelect sel))"
  have f: "cl_socket c2 = Some so" "cl_disCode c2 = cl_disCode c" "cl_messageQueue c2 = cl_messageQueue c"
    "cl_readWriteBreaker c2 = cl_readWriteBreaker c" "cl_writer c2 = cl_writer c" "cl_pingTimeoutAlarm c2 = cl_pingTimeoutAlarm c"
    using assms by (simp_all add: c2_def c1_def start_alarm_def split: prod.splits)
  have ping: "Alarm_IsWaiting (cl_pingAlarm c2)" if "al_callback (cl_pingAlarm c)"
    using that by (auto simp: c2_def c1_def start_alarm_def Alarm_Start_def Alarm_IsWaiting_def split: prod.splits)
  show thesis
  proof (rule that [of "if cl_messageQueue c \<noteq> [] then SocketSelect_WriteFdSet ?fd ?sel1 else ?sel1" c2 w2])
    have 1: "world (sys_tick ?P) (c, w) = (Inr cur, c, w1)"
      using tick by (simp add: world_def onWorld_def lift_def)
    have 2: "update (\<lambda>c. if cl_reconnectCount c \<noteq> 0 \<and> cur - t > 5 * 1000 then c\<lparr>cl_reconnectCount := 0\<rparr> else c) (c, w1) = (Inr (), c1, w1)"
      by (simp add: update_def c1_def)
    have 3: "handle (\<lambda>c w. (if \<not> Alarm_IsWaiting (cl_pingAlarm c) then start_alarm PingAlarm (sys_clock ?P w) kPingInterval c else c, w))
        (c1, w1) = (Inr (), c2, w1)"
      by (simp add: handle_def c2_def)
    have 4: "world (SocketSelect_new (re_apple E) ?P (cl_readWriteBreaker c2) (re_junk E)) (c2, w1) = (Inr sel, c2, w2)"
      using new by (simp add: world_def onWorld_def lift_def)
    show "rw_prepare E t (c, w) = (Inr (?fd, if cl_messageQueue c \<noteq> [] then SocketSelect_WriteFdSet ?fd ?sel1 else ?sel1), c2, w2)"
      unfolding rw_prepare_def Let_def
      by (simp only: seq_def 1 2 3 4 [unfolded f] reads_def fst_conv f option.case ret_apply prod.case sum.case)
    show "sel_writes (if cl_messageQueue c \<noteq> [] then SocketSelect_WriteFdSet ?fd ?sel1 else ?sel1) ?fd" if "cl_messageQueue c \<noteq> []"
      using that by (simp add: sel.writes_wr)
    show "\<exists>cur w1 s0. sys_tick ?P w = (cur, w1) \<and> SocketSelect_new (re_apple E) ?P (cl_readWriteBreaker c) (re_junk E) w1 = (s0, w2) \<and>
        (if cl_messageQueue c \<noteq> [] then SocketSelect_WriteFdSet ?fd ?sel1 else ?sel1) =
        (let s1 = SocketSelect_ExceptionFdSet ?fd (SocketSelect_ReadFdSet ?fd (SocketSelect_PreSelect s0))
         in if cl_messageQueue c \<noteq> [] then SocketSelect_WriteFdSet ?fd s1 else s1)"
      using tick new f(4) by auto
  qed (use f ping in auto)
qed

section \<open>Disconnecting\<close>

lemma rw_after_disconnected:
  "cl_disCode c \<noteq> kDisCodeNone \<Longrightarrow> rw_after E fd r sel (c, w) = (Inr True, c, w)"
  by (simp add: rw_after_def unless_stop_def rw_checks_def seq_def reads_def)

text \<open>The request and the socket: what the others must leave alone for an iteration to see them.\<close>

definition leaving :: "socket_obj \<Rightarrow> 'cb TcpClient \<Rightarrow> bool" where
  "leaving so c \<longleftrightarrow> cl_disCode c \<noteq> kDisCodeNone \<and> cl_socket c = Some so"

lemma rw_round_leaves:
  assumes "\<forall>s. leaving so (fst s) \<longrightarrow> leaving so (fst (re_env E s))" "leaving so c"
  shows "\<exists>s'. rw_round E t (c, w) = (Inr True, s')"
proof -
  obtain sel c1 w1 where p: "rw_prepare E t (c, w) = (Inr (Socket_GetSocket so, sel), c1, w1)" "leaving so c1"
    using rw_prepare_result [of c so E t w] assms(2) by (metis leaving_def)
  obtain c2 w2 where e: "re_env E (c1, w1) = (c2, w2)" "leaving so c2" using assms(1) p(2) by (metis fst_conv surj_pair)
  obtain r sel' b w3 where s: "SocketSelect_Select (re_posix E) sel (cl_readWriteBreaker c2) w2 = ((r, sel', b), w3)"
    by (metis prod_cases3 surj_pair)
  let ?c3 = "c2\<lparr>cl_readWriteBreaker := b\<rparr>"
  have "leaving so ?c3" using e(2) by (simp add: leaving_def)
  then obtain c4 w4 where f: "re_env E (?c3, w3) = (c4, w4)" "leaving so c4" using assms(1) by (metis fst_conv surj_pair)
  have "cl_disCode c4 \<noteq> kDisCodeNone" using f(2) by (simp add: leaving_def)
  then have "rw_after E (Socket_GetSocket so) r sel' (c4, w4) = (Inr True, c4, w4)" by (rule rw_after_disconnected)
  with p(1) e(1) s f(1) show ?thesis
    by (simp add: rw_round_def seq_def others_def rw_select_def world_def onWorld_def lift_def Let_def)
qed





section \<open>Waking the loop\<close>

text \<open>
  C17: a request wakes the loop. After \<^verbatim>\<open>Send\<close> on a connected client whose breaker is in order the
  breaker's pipe is readable, so a blocked \<^verbatim>\<open>Select\<close> returns, and the next iteration asks
  for the socket to become writable.
\<close>

theorem Send_wakes:
  assumes "breaker_ok P queued ok (cl_readWriteBreaker c, w)" "cl_connectStatus c = kConnected" "cl_socket c = Some so"
    and "Send j P ty payload func c w = (sent, c', w')"
  shows "sent \<and> queued w' = 1 \<and> Breaker_IsBreak (cl_readWriteBreaker c') \<and> breaker_ok P queued ok (cl_readWriteBreaker c', w') \<and>
    (\<exists>sel s''. rw_prepare E t (c', w'') = (Inr (Socket_GetSocket so, sel), s'') \<and> sel_writes sel (Socket_GetSocket so))"
proof -
  from SendData_connected [OF assms(2) assms(4) [unfolded Send_def]] obtain b m where
    m: "sent" "c' = c\<lparr>cl_callbackMap := map_put (cl_currentMsgId c) func (cl_callbackMap c),
            cl_messageQueue := cl_messageQueue c @ [MSendReq m], cl_currentMsgId := next_msg_id (cl_currentMsgId c),
            cl_readWriteBreaker := b\<rparr>" "snd (Breaker_Break P (cl_readWriteBreaker c) w) = (b, w')"
    by metis
  have b: "breaker_ok P queued ok (b, w')" "Breaker_IsBreak b"
    using breaker.raise_ok [OF assms(1)] breaker.raise_sets [OF assms(1)] m(3) by simp_all
  have "cl_socket c' = Some so" "cl_messageQueue c' \<noteq> []" using assms(3) m(2) by simp_all
  then obtain sel s'' where "rw_prepare E t (c', w'') = (Inr (Socket_GetSocket so, sel), s'')" "sel_writes sel (Socket_GetSocket so)"
    using rw_prepare_result [of c' so E t w''] by metis
  with m b show ?thesis by (auto simp: breaker_ok_def Breaker_IsBreak_def)
qed

theorem Send_wakes_witness:
  "let (sent, c', w') = Send sample_junk pipe_posix [1] [2] (Some 5) sample_client 0
   in sent \<and> w' = 1 \<and> (\<exists>sel s''. rw_prepare sample_env 0 (c', w') = (Inr (7, sel), s'') \<and> sel_writes sel 7)"
proof -
  obtain sent c' w' where s: "Send sample_junk pipe_posix [1] [2] (Some 5) sample_client 0 = (sent, c', w')" by (metis prod_cases3)
  have "breaker_ok pipe_posix (\<lambda>w. w) (\<lambda>w. True) (cl_readWriteBreaker sample_client, 0)"
    by (simp add: breaker_ok_def pipe_posix_laws sample_breaker_def)
  from Send_wakes [OF this sample_client_simps(1,4) s, of sample_env 0 w'] s show ?thesis by auto
qed

section \<open>The heartbeat\<close>


definition ping_due :: "nat TcpClient" where
  "ping_due = sample_client\<lparr>cl_pingAlarm := (cl_pingAlarm sample_client)\<lparr>al_messageId := 1, al_status := kStatusAlarm\<rparr>\<rparr>"

definition writing_env :: "(nat, nat, bytes) run_env" where
  "writing_env = sample_env\<lparr>re_posix := pipe_posix\<lparr>sys_send := (\<lambda>fd bs w. (int (length bs), w + length bs))\<rparr>\<rparr>"

lemma ping_due_ok: "cl_ok ping_due"
  using sample_client_ok by (simp add: ping_due_def cl_ok_defs queue_timer.armed_def)


text \<open>
  a ping can be lost. If the ping timer goes off between the test of one iteration and the
  beginning of the next, that iteration restarts the timer before it looks at it, and sends no ping.
\<close>

theorem ping_lost:
  assumes "Alarm_IsAlarm (cl_pingAlarm c)" "al_callback (cl_pingAlarm c)" "cl_socket c = Some so"
  shows "\<exists>sel c' w'. rw_prepare E t (c, w) = (Inr (Socket_GetSocket so, sel), c', w') \<and> Alarm_IsWaiting (cl_pingAlarm c') \<and>
    rw_ping E (c', w'') = (Inr False, c', w'')"
proof -
  obtain sel c' w' where p: "rw_prepare E t (c, w) = (Inr (Socket_GetSocket so, sel), c', w')" "Alarm_IsWaiting (cl_pingAlarm c')"
    using rw_prepare_result [OF assms(3), of E t w] assms(2) by metis
  then have "rw_ping E (c', w'') = (Inr False, c', w'')"
    by (simp add: rw_ping_def seq_def reads_def Alarm_IsWaiting_def Alarm_IsAlarm_def)
  with p show ?thesis by blast
qed

section \<open>Reuse of timeout alarms\<close>

text \<open>What starting the timeout of a request does, by where its alarm comes from.\<close>

lemmas start_timeout_defs = start_timeout_def take_alarm_def store_alarm_def ObjectPool_Get_def ObjectPool_Put_def start_alarm_def
  Alarm_Start_def Alarm_SetCallback_def Alarm_new_def release_alarm_def

lemma start_timeout_pooled:
  assumes "op_pool (cl_objectPool c) = p @ [i]" "i < length (cl_alarms c)" "Alarm_IsWaiting (cl_alarms c ! i)"
    and "map_ok (cl_timeoutAlarmMap c)"
  shows "cl_timers (start_timeout junk now k c) = cl_timers c"
    "map_of (cl_timeoutAlarmMap (start_timeout junk now k c)) k = Some i"
    "cl_alarms (start_timeout junk now k c) ! i = (cl_alarms c ! i)\<lparr>al_userData := uint k, al_innerCallback := Some (TimeoutFn i), al_callback := True\<rparr>"
    "length (cl_alarms (start_timeout junk now k c)) = length (cl_alarms c)"
  using assms
  by (simp_all add: start_timeout_defs Let_def Alarm_IsWaiting_def map_of_put split: option.splits)

lemma start_timeout_new:
  assumes "op_pool (cl_objectPool c) = []"
  shows "Alarm_IsWaiting (cl_alarms (start_timeout junk now k c) ! length (cl_alarms c))"
    "length (cl_alarms (start_timeout junk now k c)) = Suc (length (cl_alarms c))"
    "i < length (cl_alarms c) \<Longrightarrow> cl_alarms (start_timeout junk now k c) ! i = cl_alarms c ! i"
    "op_pool (cl_objectPool (start_timeout junk now k c)) = (case map_of (cl_timeoutAlarmMap c) k of None \<Rightarrow> [] | Some i \<Rightarrow> [i])"
    "cl_timeoutAlarmMap (start_timeout junk now k c) = map_put k (length (cl_alarms c)) (cl_timeoutAlarmMap c)"
  using assms
  by (simp_all add: start_timeout_defs Let_def Alarm_IsWaiting_def nth_append case_prod_unfold split: option.splits)

lemma timeouts_map_ok: "cl_ok c \<Longrightarrow> map_ok (cl_timeoutAlarmMap c)"
  by (simp add: cl_ok_def owners_ok_def)

lemma request_timeout_calls:
  assumes "al_messageId (get_alarm (PooledAlarm i) c) \<noteq> 0" "al_innerCallback (get_alarm (PooledAlarm i) c) = Some (TimeoutFn i)"
    and "al_userData (get_alarm (PooledAlarm i) c) = uint k" "callback_of c k = Some f" "i < length (cl_alarms c)"
  shows "cl_calls (fst (fire_alarm P (PooledAlarm i) c w)) = cl_calls c @ [CallResp f kErrorCodeTimeout []]"
proof -
  define c0 where "c0 = put_alarm (PooledAlarm i) ((get_alarm (PooledAlarm i) c)\<lparr>al_status := kStatusAlarm\<rparr>) c"
  define c1 where "c1 = (case map_of (cl_timeoutAlarmMap c0) k of
      None \<Rightarrow> c0 | Some j \<Rightarrow> release_alarm j (c0\<lparr>cl_timeoutAlarmMap := map_erase k (cl_timeoutAlarmMap c0)\<rparr>))"
  obtain g c2 where g: "GetCallback k c1 = (g, c2)" by force
  have c1: "callback_of c1 k = Some f" "cl_calls c1 = cl_calls c"
    using assms(4) by (auto simp: c1_def c0_def callback_of_def split: option.splits)
  have c2: "g = Some f" "cl_calls c2 = cl_calls c" using GetCallback_result [of k c1] g c1 by auto
  have k: "(word_of_int (al_userData (get_alarm (PooledAlarm i) c0)) :: u16) = k" using assms(3,5) by (simp add: c0_def)
  have "fire_alarm P (PooledAlarm i) c w = request_timeout P i c0 w"
    using assms(1,2) by (simp add: fire_alarm_def Alarm_fire_def c0_def)
  also have "cl_calls (fst \<dots>) = cl_calls (log_call (CallResp f kErrorCodeTimeout []) c2)"
    unfolding request_timeout_def k Let_def c1_def [symmetric] g c2(1) prod.case option.case
    by (auto simp: DisconnectAsync_calls)
  finally show ?thesis using c2(2) by (simp add: log_call_def)
qed

text \<open>
  C30: a request without reply makes the client reuse a running alarm. Two such requests in flight share the
  id 0, so the second one puts the first one's alarm back into the pool while it is still waiting. The next
  request takes that alarm: no timer is posted for it, and when the timer of the first request goes
  off, the new request is reported as timed out, however recently it was sent.
\<close>

theorem running_alarm_reused:
  assumes "cl_ok c" "op_pool (cl_objectPool c) = []" "map_of (cl_timeoutAlarmMap c) 0 = None" "callback_of c k = Some f"
    and "c2 = start_timeout j now2 0 (start_timeout j now1 0 c)" "c3 = start_timeout j now3 k c2"
  shows "cl_timers c3 = cl_timers c2 \<and>
    cl_calls (fst (fire_alarm P (PooledAlarm (length (cl_alarms c))) c3 w)) = cl_calls c @ [CallResp f kErrorCodeTimeout []]"
proof -
  let ?c1 = "start_timeout j now1 0 c" and ?i = "length (cl_alarms c)"
  note 1 = start_timeout_new [OF assms(2), where junk = j and now = now1 and k = 0]
  have p1: "op_pool (cl_objectPool ?c1) = []" "map_of (cl_timeoutAlarmMap ?c1) 0 = Some ?i"
    using 1(4,5) assms(3) timeouts_map_ok [OF assms(1)] by (simp_all add: map_of_put)
  note 2 = start_timeout_new [OF p1(1), where junk = j and now = now2 and k = 0]
  have c2: "op_pool (cl_objectPool c2) = [] @ [?i]" "?i < length (cl_alarms c2)" "Alarm_IsWaiting (cl_alarms c2 ! ?i)"
    using 1 2 p1(2) by (simp_all add: assms(5))
  have ok: "cl_ok c2" unfolding assms(5) by (intro start_timeout_ok assms(1))
  note 3 = start_timeout_pooled [OF c2 timeouts_map_ok [OF ok], where junk = j and now = now3 and k = k]
  have "queue_timer.armed (cl_alarms c2 ! ?i)" using armed_get_valid [of c2 "PooledAlarm ?i"] ok c2(2) by (simp add: cl_ok_def)
  then have "al_messageId (cl_alarms c2 ! ?i) \<noteq> 0" using c2(3) by (simp add: queue_timer.armed_def Alarm_IsWaiting_def)
  then have "cl_calls (fst (fire_alarm P (PooledAlarm ?i) c3 w)) = cl_calls c3 @ [CallResp f kErrorCodeTimeout []]"
    using 3(3,4) assms(4) c2(2) by (intro request_timeout_calls [where k = k]) (simp_all add: assms(5,6) callback_of_def)
  then show ?thesis using 3(1) by (simp add: assms(5,6))
qed

theorem running_alarm_reused_witness:
  "let c2 = start_timeout 0 1 0 (start_timeout 0 0 0 sample_sent); c3 = start_timeout 0 9 1 c2
   in cl_timers c3 = cl_timers c2 \<and>
      cl_calls (fst (fire_alarm pipe_posix (PooledAlarm 0) c3 0)) = [CallResp 5 kErrorCodeTimeout []]"
  using running_alarm_reused [OF sample_sent_ok _ _ _ refl refl, of 1 5 0 9 1 0 pipe_posix 0] by (simp add: Let_def callback_of_def)

end
