(* ===== verification/Timeouts.thy ===== *)
theory Timeouts
  imports Rounds
begin

text \<open>
  The timeout of a request, from the alarm through the timer queue to the callback.
\<close>

text \<open>Unless the pool hands out a running alarm, the timeout is posted to the timer queue.\<close>

definition alarm_free :: "'cb TcpClient \<Rightarrow> bool" where
  "alarm_free c \<longleftrightarrow> op_pool (cl_objectPool c) = [] \<or> \<not> Alarm_IsWaiting (cl_alarms c ! last (op_pool (cl_objectPool c)))"

lemma start_timeout_posts:
  assumes "cl_ok c" "alarm_free c"
  obtains i m where "i < length (cl_alarms (start_timeout j now k c))"
    "map_of (cl_timeoutAlarmMap (start_timeout j now k c)) k = Some i"
    "PostMessage now kSendReqTimeout (Some (PooledAlarm i)) (cl_timers c) = (m, cl_timers (start_timeout j now k c))"
    "al_messageId (cl_alarms (start_timeout j now k c) ! i) = m"
    "al_innerCallback (cl_alarms (start_timeout j now k c) ! i) = Some (TimeoutFn i)"
    "al_userData (cl_alarms (start_timeout j now k c) ! i) = uint k"
proof -
  obtain i c1 where t: "take_alarm j c = (i, c1)" by force
  have i: "i < length (cl_alarms c1)" "\<not> Alarm_IsWaiting (cl_alarms c1 ! i)" "cl_timers c1 = cl_timers c"
    "cl_timeoutAlarmMap c1 = cl_timeoutAlarmMap c"
    using t assms by (auto simp: take_alarm_def ObjectPool_Get_def Alarm_new_def Alarm_IsWaiting_def alarm_free_def Let_def cl_ok_defs
        list_all_iff split: if_splits)
  obtain m q where p: "PostMessage now kSendReqTimeout (Some (PooledAlarm i)) (cl_timers c) = (m, q)" by force
  let ?a = "(cl_alarms c1 ! i)\<lparr>al_userData := uint k, al_innerCallback := Some (TimeoutFn i), al_callback := True,
      al_messageId := m, al_status := kStatusStart\<rparr>"
  let ?c3 = "c1\<lparr>cl_timers := q, cl_alarms := (cl_alarms c1)[i := ?a]\<rparr>"
  have "start_timeout j now k c = store_alarm k i ?c3"
    using i p by (simp add: start_timeout_def t start_alarm_def Alarm_Start_def Alarm_SetCallback_def post_as_def Alarm_IsWaiting_def Let_def)
  then have s: "cl_alarms (start_timeout j now k c) = (cl_alarms c1)[i := ?a]" "cl_timers (start_timeout j now k c) = q"
    "map_of (cl_timeoutAlarmMap (start_timeout j now k c)) k = Some i"
    using timeouts_map_ok [OF assms(1)] i(4)
    by (simp_all add: store_alarm_def release_alarm_def map_of_put Let_def split: option.splits)
  show thesis by (rule that [of i m]) (use s p i(1) in simp_all)
qed



end
