(* ===== verification/Delivery.thy ===== *)
theory Delivery
  imports Timeouts
begin

text \<open>
  From the application to the wire and back: an iteration of the loop writes the request at the
  front of the queue as one frame that a peer decodes to that request, and a response frame on the
  socket reaches the callback of its request.
\<close>

section \<open>What the encoder relies on\<close>

text \<open>\<open>sent s\<close>: the bytes handed to the peer so far. The contract of \<^verbatim>\<open>IWriter\<close>.\<close>

locale byte_writer =
  fixes wr :: "bytes \<Rightarrow> ('s, unit) io" and sent :: "'s \<Rightarrow> bytes" and good :: "'s \<Rightarrow> bool"
  assumes writes: "good s \<Longrightarrow> bs \<noteq> [] \<Longrightarrow> \<exists>s'. wr bs s = (Inr (), s') \<and> good s' \<and> sent s' = sent s @ bs"
begin

lemma EncodeMessage_sends:
  assumes "zlib_codec Z gz todo fine plain left" "sendable gz m" "good s"
  shows "\<exists>s'. EncodeMessage Z wr m s = (Inr (received gz m), s') \<and> good s' \<and>
    sent s' = sent s @ frame (class_type m) (msg_flags m) (msg_body gz m)"
proof -
  let ?f = "frame (class_type m) (msg_flags m) (msg_body gz m)"
  have e: "EncodeMessage Z wr m = seq (wr ?f) (\<lambda>_. ret (received gz m))"
    using EncodeMessage_frame [OF assms(1), of m wr] assms(2) class_type_not_bad [of m]
    by (simp add: sendable_def wf_msg_def list_all_iff sealed_def received_def)
  obtain s' where "wr ?f s = (Inr (), s')" "good s'" "sent s' = sent s @ ?f"
    using writes [OF assms(3), of ?f] by (auto simp: frame_def)
  then show ?thesis by (simp add: e)
qed

end

text \<open>
  What \<^verbatim>\<open>send\<close> and \<^verbatim>\<open>SSL_write\<close> do on a connection whose send buffer has room: they take all bytes.
\<close>

fun os_sink :: "'w posix \<Rightarrow> socket_obj \<Rightarrow> ('w \<Rightarrow> bytes) \<Rightarrow> ('w \<Rightarrow> bool) \<Rightarrow> bool" where
  "os_sink P (PlainSocket s) sent ok \<longleftrightarrow>
     (\<forall>w bs. ok w \<longrightarrow> bs \<noteq> [] \<longrightarrow>
        (case sys_send P (ts_socket s) bs w of (r, w') \<Rightarrow> r = int (length bs) \<and> ok w' \<and> sent w' = sent w @ bs))"
| "os_sink P (SecureSocket s) sent ok \<longleftrightarrow>
     (case ssl_handle s of
        None \<Rightarrow> False
      | Some h \<Rightarrow> (\<forall>w bs. ok w \<longrightarrow> bs \<noteq> [] \<longrightarrow>
          (case ssl_write P h bs w of (r, w') \<Rightarrow> r = int (length bs) \<and> ok w' \<and> sent w' = sent w @ bs)))"

lemma os_sink_write:
  assumes "os_sink P so sent ok" "ok w" "bs \<noteq> []"
  shows "\<exists>w'. Socket_Write P so bs w = (Inr (), w') \<and> ok w' \<and> sent w' = sent w @ bs"
proof (cases so)
  case (PlainSocket s)
  obtain r w' where r: "sys_send P (ts_socket s) bs w = (r, w')" by force
  have "case sys_send P (ts_socket s) bs w of (r, w') \<Rightarrow> r = int (length bs) \<and> ok w' \<and> sent w' = sent w @ bs"
    using assms PlainSocket by simp
  with r PlainSocket show ?thesis by (simp add: TcpSocket_Write_def)
next
  case (SecureSocket s)
  then obtain h where h: "ssl_handle s = Some h" using assms(1) by (cases "ssl_handle s") auto
  obtain r w' where r: "ssl_write P h bs w = (r, w')" by force
  have "case ssl_write P h bs w of (r, w') \<Rightarrow> r = int (length bs) \<and> ok w' \<and> sent w' = sent w @ bs"
    using assms SecureSocket h by simp
  with r h SecureSocket assms(3) show ?thesis by (simp add: SSLSocket_Write_def)
qed

interpretation tcp_wr: byte_writer "TcpWriter_Write P \<lparr>tw_socket = Some so\<rparr>" sent "\<lambda>w. ok w \<and> os_sink P so sent ok"
  for P so sent ok
  by unfold_locales (auto simp: TcpWriter_Write_def dest: os_sink_write)

section \<open>One iteration\<close>

text \<open>The wait ended normally: no disconnect, no error and no ping timeout.\<close>

definition calm :: "'cb TcpClient \<Rightarrow> int \<Rightarrow> int \<Rightarrow> SocketSelect \<Rightarrow> bool" where
  "calm c fd r sel \<longleftrightarrow> cl_disCode c = kDisCodeNone \<and> 0 \<le> r \<and> \<not> SocketSelect_IsException sel (cl_readWriteBreaker c) \<and>
     \<not> SocketSelect_ExceptionFdIsSet sel fd \<and> \<not> Alarm_IsAlarm (cl_pingTimeoutAlarm c)"

lemma rw_checks_calm: "calm c fd r sel \<Longrightarrow> rw_checks E fd r sel (c, w) = (Inr False, c, w)"
  by (simp add: calm_def rw_checks_def seq_def reads_def)

text \<open>What \<open>rw_write\<close> makes of the client once a request is on the wire.\<close>

definition written :: "int \<Rightarrow> int \<Rightarrow> u16 \<Rightarrow> 'cb TcpClient \<Rightarrow> 'cb TcpClient" where
  "written junk now k c =
     (let c1 = start_timeout junk now k c
      in start_alarm PingAlarm now kPingInterval (cancel_alarm PingAlarm (c1\<lparr>cl_messageQueue := tl (cl_messageQueue c1)\<rparr>)))"

lemma rw_write_sent:
  assumes "send_message E (MSendReq m) (c, w) = (Inr (Inr m'), c, w1)"
  shows "rw_write E (MSendReq m) (c, w) = (Inr False, written (re_junk E) (sys_clock (re_posix E) w1) (sq_messageId m) c, w1)"
  using assms by (simp add: rw_write_def seq_def handle_def update_def written_def Let_def)

lemma start_timeout_queue: "cl_messageQueue (start_timeout junk now k c) = cl_messageQueue c"
  "cl_pingAlarm (start_timeout junk now k c) = cl_pingAlarm c"
  by (simp_all add: start_timeout_def take_alarm_def store_alarm_def start_alarm_def release_alarm_def Let_def split: prod.splits option.splits)

lemma alarm_queue: "cl_messageQueue (start_alarm r now sec c) = cl_messageQueue c"
  "cl_messageQueue (cancel_alarm r c) = cl_messageQueue c"
  by (cases r; simp add: start_alarm_def cancel_alarm_def split: prod.splits)+

lemma written_fields:
  "cl_messageQueue (written junk now k c) = tl (cl_messageQueue c)"
  "cl_callbackMap (written junk now k c) = cl_callbackMap c" "cl_calls (written junk now k c) = cl_calls c"
  "cl_timeoutAlarmMap (written junk now k c) = cl_timeoutAlarmMap (start_timeout junk now k c)"
  by (simp_all add: written_def Let_def start_timeout_queue alarm_queue)

lemma written_ping:
  assumes "al_callback (cl_pingAlarm c)"
  shows "\<not> Alarm_IsAlarm (cl_pingAlarm (written junk now k c))"
  using assms by (auto simp: written_def Let_def start_alarm_def cancel_alarm_def Alarm_Start_def Alarm_Cancel_def Alarm_IsAlarm_def
      start_timeout_queue split: prod.splits if_splits)

lemma store_alarm_some: "map_ok (cl_timeoutAlarmMap c) \<Longrightarrow> \<exists>i. map_of (cl_timeoutAlarmMap (start_timeout junk now k c)) k = Some i"
  by (auto simp: start_timeout_def take_alarm_def store_alarm_def Let_def map_of_put split: prod.splits option.splits)

lemma send_message_sends:
  assumes "zlib_codec (re_zlib E) gz todo fine plain left" "cl_writer c = \<lparr>tw_socket = Some so\<rparr>"
    and "os_sink (re_posix E) so sent ok" "ok w" "sendable gz m"
  shows "\<exists>w'. send_message E m (c, w) = (Inr (Inr (received gz m)), c, w') \<and> ok w' \<and>
    sent w' = sent w @ frame (class_type m) (msg_flags m) (msg_body gz m)"
proof -
  obtain w' where "EncodeMessage (re_zlib E) (TcpWriter_Write (re_posix E) \<lparr>tw_socket = Some so\<rparr>) m w = (Inr (received gz m), w')"
    "ok w'" "sent w' = sent w @ frame (class_type m) (msg_flags m) (msg_body gz m)"
    using tcp_wr.EncodeMessage_sends [OF assms(1,5), of ok w "re_posix E" so sent] assms(3,4) by blast
  then show ?thesis by (simp add: send_message_def seq_def reads_def onWorld_def catchExc_def assms(2))
qed

section \<open>Properties\<close>

text \<open>The request \<^verbatim>\<open>Send\<close> queues.\<close>

definition request :: "junk \<Rightarrow> bytes \<Rightarrow> bytes \<Rightarrow> u16 \<Rightarrow> SendReq" where
  "request j ty payload k = (SendReq_new j)\<lparr>sq_type := ty, sq_payload := payload, sq_messageId := k\<rparr>"

lemma length_sized: "length (sized g) \<le> length g + 5"
  by (simp add: sized_def encodeLength_length)

lemma request_sendable:
  assumes "length ty < 2 ^ 26" "length (gz payload) < 2 ^ 26" "length payload < 2 ^ 32"
  shows "sendable gz (MSendReq (request j ty payload k))"
proof -
  have "length (be16 k @ sized ty @ sized (gz payload)) < 2 ^ 28"
    using assms length_sized [of ty] length_sized [of "gz payload"] by (simp add: be16_def setUint16_def)
  with assms(3) show ?thesis
    by (simp add: sendable_def wf_msg_def request_def SendReq_new_def GetMsgType_def flags_ok_def SendReq_flags_def)
qed


text \<open>A system that takes and delivers bytes through one list.\<close>

definition pipe_env :: "(nat, bytes, bytes) run_env" where
  "pipe_env = \<lparr>re_apple = False, re_junk = 0, re_junk64 = 0, re_msgJunk = sample_junk, re_answered = True,
     re_posix = drip_posix\<lparr>sys_send := (\<lambda>fd bs w. (int (length bs), w @ bs))\<rparr>, re_zlib = stored_zlib,
     re_stale = (\<lambda>m. RetCodeAccepted), re_env = (\<lambda>s. s)\<rparr>"

definition writable_7 :: SocketSelect where
  "writable_7 = SelEpoll \<lparr>se_epfd = 5, se_events = [], se_pollEvents = [\<lparr>ev_fd = 7, ev_events = EPOLLOUT\<rparr>], se_errno = 0\<rparr>"

lemma pipe_env_simps [simp]:
  "re_zlib pipe_env = stored_zlib" "os_sink (re_posix pipe_env) (PlainSocket s) (\<lambda>w. w) (\<lambda>w. True)"
  "os_stream (re_posix pipe_env) (PlainSocket s) (\<lambda>w. w) (\<lambda>w. True)"
  using drip_recv_stream [of "ts_socket s"] by (simp_all add: pipe_env_def recv_stream_def)


text \<open>
  C5: a response is delivered. If the next bytes on the socket are the frame of a response to a request whose
  callback is registered, the iteration in which the socket is readable consumes exactly that frame and
  calls that callback, and no other, with \<^verbatim>\<open>kErrorCodeNone\<close> and the payload.
\<close>

theorem response_delivered:
  assumes "zlib_codec (re_zlib E) gz todo fine plain left" "callback_of c (sr_messageId m) = Some f"
    and "cl_reader c = \<lparr>tr_socket = Some so\<rparr>" "os_stream (re_posix E) so pend ok" "ok w" "wf_msg gz (MSendResp m)"
    and "pend w = frame kMsgSendResp (msg_flags (MSendResp m)) (msg_body gz (MSendResp m)) @ rest"
  shows "\<exists>c' w'. rw_read E (c, w) = (Inr False, c', w') \<and> pend w' = rest \<and>
    cl_calls c' = cl_calls c @ [CallResp f kErrorCodeNone (sr_payload m)] \<and> callback_of c' (sr_messageId m) = None"
proof -
  let ?h = "\<lparr>fh_msgType = kMsgSendResp, fh_remainLen = word_of_nat (length (msg_body gz (MSendResp m))), fh_flags = msg_flags (MSendResp m)\<rparr>"
  let ?m = "m\<lparr>sr_header := ?h\<rparr>"
  obtain w' where d: "DecodeMessage (re_zlib E) (re_msgJunk E) (TcpReader_ReadFull (re_posix E) \<lparr>tr_socket = Some so\<rparr>) w
      = (Inr (MSendResp ?m), w')" "pend w' = rest"
    using tcp_rd.DecodeMessage_frame [OF assms(1), of ok w "re_posix E" so pend "MSendResp m" rest "re_msgJunk E"] assms(4-7)
    by (auto simp: received_def)
  have "receive_message E (c, w) = (Inr (Inr (MSendResp ?m)), c, w')"
    by (simp add: receive_message_def seq_def reads_def onWorld_def catchExc_def assms(3) d(1))
  then have "rw_read E (c, w) = (Inr False, handleSendResp ?m c, w')"
    by (simp add: rw_read_def seq_def rw_dispatch_def GetMsgType_def update_def)
  moreover have "cl_calls (handleSendResp ?m c) = cl_calls c @ [CallResp f kErrorCodeNone (sr_payload m)]"
    "callback_of (handleSendResp ?m c) (sr_messageId m) = None"
    using handleSendResp_calls [of ?m c] assms(2) by simp_all
  ultimately show ?thesis using d(2) by blast
qed

theorem response_delivered_witness:
  "\<exists>c' w'. rw_read pipe_env (sample_in_flight\<lparr>cl_reader := \<lparr>tr_socket = Some (PlainSocket \<lparr>ts_socket = 7\<rparr>)\<rparr>\<rparr>,
       frame kMsgSendResp 0 (msg_body (Cons 0x1f) (MSendResp (sample_resp [9]))) @ [0x50]) = (Inr False, c', w') \<and> w' = [0x50] \<and>
     cl_calls c' = [CallResp 5 kErrorCodeNone [9]]"
proof -
  let ?c = "sample_in_flight\<lparr>cl_reader := \<lparr>tr_socket = Some (PlainSocket \<lparr>ts_socket = 7\<rparr>)\<rparr>\<rparr>"
  have f: "msg_flags (MSendResp (sample_resp [9])) = 0" by (simp add: sample_resp_def SendResp_new_def FixHeader_new_def)
  have w: "wf_msg (Cons 0x1f) (MSendResp (sample_resp [9]))"
    by (simp add: wf_msg_def f flags_ok_def sized_def encodeLength_length del: msg_flags.simps)
  have c: "callback_of ?c (sr_messageId (sample_resp [9])) = Some 5" using sample_in_flight_simps(1) by (simp add: callback_of_def)
  have z: "zlib_codec (re_zlib pipe_env) (Cons 0x1f) (\<lambda>z. z) (\<lambda>z. True) (\<lambda>z. z) length" by (simp add: stored_zlib_codec)
  from response_delivered [OF z c _ pipe_env_simps(3) _ w, of _ _ "[0x50]", unfolded f] show ?thesis
    by (simp add: sample_in_flight_simps) blast
qed

end
