(* ===== verification/Traffic.thy ===== *)
theory Traffic
  imports Delivery WireSafety
begin

text \<open>
  What goes over the connection. A message that was received has the class its type byte says, so that the
  casts of the loop are defined; the messages the client accepts leave it in the order of
  their acceptance, each once, one per iteration in which the socket takes bytes.
\<close>

section \<open>Types\<close>

text \<open>Decoding changes neither the class nor the header of a message.\<close>

definition same_kind :: "message \<Rightarrow> message \<Rightarrow> bool" where
  "same_kind m m' \<longleftrightarrow> class_type m' = class_type m \<and> msg_header m' = msg_header m"

lemma decode_headers:
  "Connect_Decode Z rd a s = (Inr a', s') \<Longrightarrow> cn_header a' = cn_header a"
  "ConnAck_Decode rd b s = (Inr b', s') \<Longrightarrow> ca_header b' = ca_header b"
  "PingReq_Decode c s = (Inr c', s') \<Longrightarrow> pq_header c' = pq_header c"
  "PingResp_Decode d s = (Inr d', s') \<Longrightarrow> pr_header d' = pr_header d"
  "Disconnect_Decode rd e s = (Inr e', s') \<Longrightarrow> dc_header e' = dc_header e"
  "SendReq_Decode Z rd f s = (Inr f', s') \<Longrightarrow> sq_header f' = sq_header f"
  "SendResp_Decode Z rd g s = (Inr g', s') \<Longrightarrow> sr_header g' = sr_header g"
  by (auto simp: Connect_Decode_def ConnAck_Decode_def PingReq_Decode_def PingResp_Decode_def Disconnect_Decode_def
      SendReq_Decode_def SendResp_Decode_def Let_def throwIf_Inr split: if_splits)

lemma Message_Decode_kind: "Message_Decode Z rd m s = (Inr m', s') \<Longrightarrow> same_kind m m'"
  by (cases m) (auto simp: same_kind_def, (erule decode_headers)+)

lemma newMessage_class: "newMessage j t = Some m \<Longrightarrow> class_type (SetHeader h m) = t"
  by (cases t) auto

text \<open>
  C10: the messages are typed. Whatever bytes a peer sends, a message that \<^verbatim>\<open>DecodeMessage\<close> returns is of the
  class that its message type names, and that type is one of the seven of the protocol; so the switch of
  \<^verbatim>\<open>__RunReadWrite\<close>, which casts by the type, never casts to a class the object is not of, and handles
  every message.
\<close>

theorem received_message_typed:
  assumes "DecodeMessage Z j rd s = (Inr m, s')"
  shows "GetMsgType m = class_type m \<and> \<not> badMsgType (GetMsgType m) \<and>
    (\<exists>c' w'. rw_dispatch P m (c, w) = (Inr (), c', w'))"
proof -
  obtain h m0 u where d: "newMessage j (fh_msgType h) = Some m0" "Message_Decode Z rd (SetHeader h m0) u = (Inr m, s')"
    using assms by (auto simp: DecodeMessage_def split: option.splits)
  have t: "GetMsgType m = class_type m"
    using Message_Decode_kind [OF d(2)] newMessage_class [OF d(1), of h] by (simp add: same_kind_def GetMsgType_def)
  moreover have "\<exists>c' w'. rw_dispatch P m (c, w) = (Inr (), c', w')"
    unfolding rw_dispatch_def t by (cases m) (simp_all add: update_def handle_def)
  ultimately show ?thesis using class_type_not_bad [of m] by simp
qed

theorem received_message_typed_witness:
  "\<exists>m w'. DecodeMessage stored_zlib sample_junk (TcpReader_ReadFull drip_posix \<lparr>tr_socket = Some (PlainSocket \<lparr>ts_socket = 3\<rparr>)\<rparr>)
       (wire (Cons 0x1f) [MSendReq sample_req]) = (Inr m, w') \<and>
     GetMsgType m = class_type m \<and> (\<exists>c' w'. rw_dispatch pipe_posix m (sample_client, 0) = (Inr (), c', w'))"
proof -
  have "sendable (Cons 0x1f) (MSendReq sample_req)"
    using sample_sendable by simp
  then obtain w' where d: "DecodeMessage stored_zlib sample_junk (TcpReader_ReadFull drip_posix \<lparr>tr_socket = Some (PlainSocket \<lparr>ts_socket = 3\<rparr>)\<rparr>)
      (wire (Cons 0x1f) [MSendReq sample_req]) = (Inr (received (Cons 0x1f) (MSendReq sample_req)), w')"
    using tcp_rd.DecodeMessage_frame [OF stored_zlib_codec, of "\<lambda>w. True" _ drip_posix "PlainSocket \<lparr>ts_socket = 3\<rparr>" "\<lambda>w. w"
        "MSendReq sample_req" "[]" sample_junk] drip_recv_stream [of 3] by (auto simp: wire_def sendable_def)
  from received_message_typed [OF d, of pipe_posix sample_client 0] d show ?thesis by blast
qed

section \<open>Order\<close>

text \<open>What \<open>rw_write\<close> makes of the client once any message is on the wire.\<close>

definition after_write :: "int \<Rightarrow> int \<Rightarrow> message \<Rightarrow> 'cb TcpClient \<Rightarrow> 'cb TcpClient" where
  "after_write junk now m c =
     (let c1 = (case m of MSendReq q \<Rightarrow> start_timeout junk now (sq_messageId q) c | _ \<Rightarrow> c)
      in start_alarm PingAlarm now kPingInterval (cancel_alarm PingAlarm (c1\<lparr>cl_messageQueue := tl (cl_messageQueue c1)\<rparr>)))"

lemma rw_write_after:
  assumes "send_message E m (c, w) = (Inr (Inr m'), c, w1)"
  shows "rw_write E m (c, w) = (Inr False, after_write (re_junk E) (sys_clock (re_posix E) w1) m c, w1)"
  using assms by (cases m) (simp_all add: rw_write_def seq_def handle_def update_def after_write_def Let_def)

text \<open>The connection stays as it is, and no ping timeout goes off.\<close>

definition same_conn :: "'cb TcpClient \<Rightarrow> 'cb TcpClient \<Rightarrow> bool" where
  "same_conn c c' \<longleftrightarrow> cl_socket c' = cl_socket c \<and> cl_writer c' = cl_writer c \<and> cl_disCode c' = cl_disCode c \<and>
     cl_readWriteBreaker c' = cl_readWriteBreaker c \<and>
     (Alarm_IsAlarm (cl_pingTimeoutAlarm c') \<longrightarrow> Alarm_IsAlarm (cl_pingTimeoutAlarm c))"

lemma same_conn_refl [simp]: "same_conn c c"
  by (simp add: same_conn_def)

lemma same_conn_trans [trans]: "same_conn c c1 \<Longrightarrow> same_conn c1 c2 \<Longrightarrow> same_conn c c2"
  by (auto simp: same_conn_def)

lemma same_conn_writer: "same_conn c c' \<Longrightarrow> cl_writer c' = cl_writer c"
  by (simp add: same_conn_def)

lemma timeout_same: "same_conn c (start_timeout junk now k c)"
  by (simp add: same_conn_def start_timeout_def take_alarm_def store_alarm_def start_alarm_def release_alarm_def Let_def
      split: prod.splits option.splits)

lemma alarm_same: "same_conn c (start_alarm r now sec c)" "same_conn c (cancel_alarm r c)"
  by (cases r; auto simp: same_conn_def start_alarm_def cancel_alarm_def Alarm_Start_def Alarm_Cancel_def Alarm_IsAlarm_def
      split: prod.splits if_splits)+

lemma after_write_queue: "cl_messageQueue (after_write junk now m c) = tl (cl_messageQueue c)"
  by (cases m; simp add: after_write_def Let_def start_timeout_queue alarm_queue)

lemma after_write_same: "same_conn c (after_write junk now m c)"
proof -
  have "same_conn c (start_alarm PingAlarm now kPingInterval (cancel_alarm PingAlarm (c1\<lparr>cl_messageQueue := q\<rparr>)))"
    if "same_conn c c1" for c1 q
  proof -
    have "same_conn c (c1\<lparr>cl_messageQueue := q\<rparr>)" using that by (simp add: same_conn_def)
    then show ?thesis using alarm_same same_conn_trans by blast
  qed
  then show ?thesis by (cases m) (simp_all add: after_write_def Let_def timeout_same)
qed

text \<open>The ping the loop sends past the queue.\<close>

abbreviation ping :: "('cb, 'w, 'z) run_env \<Rightarrow> message" where
  "ping E \<equiv> MPingReq (PingReq_new (re_msgJunk E))"

fun is_PingReq :: "message \<Rightarrow> bool" where
  "is_PingReq (MPingReq m) = True"
| "is_PingReq m = False"

lemma ping_sendable: "sendable gz (ping E)"
  by (simp add: sendable_def wf_msg_def PingReq_new_def GetMsgType_def flags_ok_def FixHeader_new_def)

lemma wire_append [simp]: "wire gz (as @ bs) = wire gz as @ wire gz bs" "wire gz [] = []"
  "wire gz [m] = frame (class_type m) (msg_flags m) (msg_body gz m)"
  by (simp_all add: wire_def)

lemma rw_ping_sends:
  assumes "zlib_codec (re_zlib E) gz todo fine plain left" "cl_writer c = \<lparr>tw_socket = Some so\<rparr>"
    and "os_sink (re_posix E) so sent ok" "ok w"
  shows "\<exists>c' w' ps. rw_ping E (c, w) = (Inr False, c', w') \<and> ok w' \<and> sent w' = sent w @ wire gz ps \<and> list_all is_PingReq ps \<and>
    cl_messageQueue c' = cl_messageQueue c \<and> same_conn c c'"
proof (cases "Alarm_IsAlarm (cl_pingAlarm c)")
  case True
  obtain w' where "send_message E (ping E) (c, w) = (Inr (Inr (received gz (ping E))), c, w')" "ok w'"
      "sent w' = sent w @ wire gz [ping E]"
    using send_message_sends [OF assms(1-4) ping_sendable] by auto
  moreover have "same_conn c (start_alarm PingTimeoutAlarm (sys_clock (re_posix E) w') kPingTimeout (cancel_alarm PingTimeoutAlarm c))"
    by (rule same_conn_trans [OF alarm_same(2) alarm_same(1)])
  ultimately show ?thesis using True
    by (intro exI [of _ "start_alarm PingTimeoutAlarm (sys_clock (re_posix E) w') kPingTimeout (cancel_alarm PingTimeoutAlarm c)"]
        exI [of _ w'] exI [of _ "[ping E]"]) (simp add: rw_ping_def seq_def reads_def handle_def alarm_queue)
next
  case False
  with assms(4) show ?thesis by (intro exI [of _ c] exI [of _ w] exI [of _ "[]"]) (simp add: rw_ping_def seq_def reads_def)
qed

text \<open>An iteration after a calm wait in which nothing is to be read: the socket takes at most one queued message.\<close>

definition taken :: "SocketSelect \<Rightarrow> int \<Rightarrow> message list \<Rightarrow> nat" where
  "taken sel fd queue = (if SocketSelect_WriteFdIsSet sel fd \<and> queue \<noteq> [] then 1 else 0)"

lemma rw_after_turn:
  assumes "zlib_codec (re_zlib E) gz todo fine plain left" "cl_writer c = \<lparr>tw_socket = Some so\<rparr>"
    and "os_sink (re_posix E) so sent ok" "ok w" "list_all (sendable gz) (cl_messageQueue c)"
    and "calm c fd r sel" "\<not> SocketSelect_ReadFdIsSet sel fd"
  shows "\<exists>c' w' ps. rw_after E fd r sel (c, w) = (Inr False, c', w') \<and> ok w' \<and> same_conn c c' \<and>
    sent w' = sent w @ wire gz (take (taken sel fd (cl_messageQueue c)) (cl_messageQueue c)) @ wire gz ps \<and> list_all is_PingReq ps \<and>
    cl_messageQueue c' = drop (taken sel fd (cl_messageQueue c)) (cl_messageQueue c)"
proof (cases "SocketSelect_WriteFdIsSet sel fd \<and> cl_messageQueue c \<noteq> []")
  case True
  then obtain m ms where q: "cl_messageQueue c = m # ms" by (cases "cl_messageQueue c") auto
  obtain w1 where w1: "send_message E m (c, w) = (Inr (Inr (received gz m)), c, w1)" "ok w1" "sent w1 = sent w @ wire gz [m]"
    using send_message_sends [OF assms(1-4), of m] assms(5) q by auto
  let ?c = "after_write (re_junk E) (sys_clock (re_posix E) w1) m c"
  have f: "cl_writer ?c = \<lparr>tw_socket = Some so\<rparr>" "cl_messageQueue ?c = ms"
    using assms(2) q same_conn_writer [OF after_write_same, of _ _ m c] by (simp_all add: after_write_queue)
  obtain c' w' ps where p: "rw_ping E (?c, w1) = (Inr False, c', w')" "ok w'" "sent w' = sent w1 @ wire gz ps" "list_all is_PingReq ps"
      "cl_messageQueue c' = ms" "same_conn ?c c'"
    using rw_ping_sends [OF assms(1) f(1) assms(3) w1(2)] f by metis
  note same = same_conn_trans [OF after_write_same p(6)]
  have "rw_after E fd r sel (c, w) = (Inr False, c', w')"
    using rw_checks_calm [OF assms(6), of E w] rw_write_after [OF w1(1)] True assms(7) p(1)
    by (simp add: rw_after_def unless_stop_def seq_def reads_def q)
  with p w1(3) True q same show ?thesis by (auto simp: taken_def)
next
  case False
  obtain c' w' ps where p: "rw_ping E (c, w) = (Inr False, c', w')" "ok w'" "sent w' = sent w @ wire gz ps" "list_all is_PingReq ps"
      "cl_messageQueue c' = cl_messageQueue c" "same_conn c c'"
    using rw_ping_sends [OF assms(1-4)] by metis
  have "rw_after E fd r sel (c, w) = (Inr False, c', w')"
    using rw_checks_calm [OF assms(6), of E w] False assms(7) p(1)
    by (auto simp: rw_after_def unless_stop_def seq_def reads_def split: list.split)
  with p False show ?thesis by (auto simp: taken_def)
qed

text \<open>
  A connection in use: the application accepts messages (\<open>acc\<close>, in order) while the loop iterates; \<open>n\<close> counts the
  iterations in which the socket was writable and a message waiting. While another thread works, the
  socket's stream stays as it is.
\<close>

inductive traffic ::
  "('cb, 'w, 'z) run_env \<Rightarrow> (bytes \<Rightarrow> bytes) \<Rightarrow> ('w \<Rightarrow> bytes) \<Rightarrow> ('w \<Rightarrow> bool) \<Rightarrow> 'cb TcpClient \<times> 'w \<Rightarrow>
   message list \<Rightarrow> nat \<Rightarrow> 'cb TcpClient \<times> 'w \<Rightarrow> bool" for E gz sent ok s0 where
  fresh: "traffic E gz sent ok s0 [] 0 s0"
| send: "traffic E gz sent ok s0 acc n (c, w) \<Longrightarrow> Send j (re_posix E) ty payload func c w1 = (True, c', w2) \<Longrightarrow>
     sendable gz (last (cl_messageQueue c')) \<Longrightarrow> ok w' \<Longrightarrow> sent w' = sent w \<Longrightarrow>
     traffic E gz sent ok s0 (acc @ [last (cl_messageQueue c')]) n (c', w')"
| noReply: "traffic E gz sent ok s0 acc n (c, w) \<Longrightarrow> SendNoReply j (re_posix E) ty payload c w1 = (True, c', w2) \<Longrightarrow>
     sendable gz (last (cl_messageQueue c')) \<Longrightarrow> ok w' \<Longrightarrow> sent w' = sent w \<Longrightarrow>
     traffic E gz sent ok s0 (acc @ [last (cl_messageQueue c')]) n (c', w')"
| turn: "traffic E gz sent ok s0 acc n (c, w) \<Longrightarrow> calm c fd r sel \<Longrightarrow> \<not> SocketSelect_ReadFdIsSet sel fd \<Longrightarrow>
     rw_after E fd r sel (c, w) = (Inr stop, c', w') \<Longrightarrow>
     traffic E gz sent ok s0 acc (n + taken sel fd (cl_messageQueue c)) (c', w')"

lemma Send_accepts:
  assumes "Send j P ty payload func c w = (True, c', w')"
  shows "\<exists>m. cl_messageQueue c' = cl_messageQueue c @ [MSendReq m] \<and> cl_writer c' = cl_writer c"
  using assms by (auto simp: Send_def SendData_def Let_def split: prod.splits if_splits)

lemma SendNoReply_accepts:
  assumes "SendNoReply j P ty payload c w = (True, c', w')"
  shows "\<exists>m. cl_messageQueue c' = cl_messageQueue c @ [MSendReq m] \<and> cl_writer c' = cl_writer c"
  using assms by (auto simp: SendNoReply_def Let_def split: prod.splits if_splits)

text \<open>The state of the connection against an ideal first-in-first-out channel.\<close>

definition fifo :: "(bytes \<Rightarrow> bytes) \<Rightarrow> ('w \<Rightarrow> bytes) \<Rightarrow> bytes \<Rightarrow> message list \<Rightarrow> nat \<Rightarrow> 'cb TcpClient \<Rightarrow> 'w \<Rightarrow> bool" where
  "fifo gz sent before accepted n c w \<longleftrightarrow> (\<exists>out. sent w = before @ wire gz out \<and>
     filter (\<lambda>m. \<not> is_PingReq m) out = take n accepted) \<and> cl_messageQueue c = drop n accepted \<and> n \<le> length accepted"

lemma fifo_accept:
  assumes "fifo gz sent before accepted n c w" "cl_messageQueue c' = cl_messageQueue c @ [m]" "sent w' = sent w"
  shows "fifo gz sent before (accepted @ [m]) n c' w'"
  using assms by (auto simp: fifo_def)

lemma fifo_take:
  assumes "fifo gz sent before accepted n c w" "list_all (\<lambda>m. \<not> is_PingReq m) accepted" "k \<le> length (cl_messageQueue c)"
    and "sent w' = sent w @ wire gz (take k (cl_messageQueue c)) @ wire gz ps" "list_all is_PingReq ps"
    and "cl_messageQueue c' = drop k (cl_messageQueue c)"
  shows "fifo gz sent before accepted (n + k) c' w'"
proof -
  obtain out where out: "sent w = before @ wire gz out" "filter (\<lambda>m. \<not> is_PingReq m) out = take n accepted"
    and q: "cl_messageQueue c = drop n accepted" "n \<le> length accepted" using assms(1) by (auto simp: fifo_def)
  let ?new = "take k (drop n accepted)"
  have "filter (\<lambda>m. \<not> is_PingReq m) ?new = ?new"
    using assms(2) by (auto simp: filter_id_conv list_all_iff dest!: in_set_takeD in_set_dropD)
  moreover have "filter (\<lambda>m. \<not> is_PingReq m) ps = []" using assms(5) by (simp add: filter_empty_conv list_all_iff)
  ultimately have "filter (\<lambda>m. \<not> is_PingReq m) (out @ ?new @ ps) = take (n + k) accepted"
    using out(2) by (simp add: take_add)
  moreover have "sent w' = before @ wire gz (out @ ?new @ ps)" using out(1) assms(4) q(1) by simp
  moreover have "cl_messageQueue c' = drop (n + k) accepted" "n + k \<le> length accepted" using q assms(3,6) by (simp_all add: add.commute)
  ultimately show ?thesis unfolding fifo_def by blast
qed

lemma traffic_fifo:
  assumes "zlib_codec (re_zlib E) gz todo fine plain left" "os_sink (re_posix E) so sent ok"
    and "cl_writer c0 = \<lparr>tw_socket = Some so\<rparr>" "ok w0"
    and "list_all (\<lambda>m. sendable gz m \<and> \<not> is_PingReq m) (cl_messageQueue c0)"
    and "traffic E gz sent ok (c0, w0) acc n s"
  shows "fifo gz sent (sent w0) (cl_messageQueue c0 @ acc) n (fst s) (snd s) \<and> ok (snd s) \<and>
    cl_writer (fst s) = \<lparr>tw_socket = Some so\<rparr> \<and> list_all (\<lambda>m. sendable gz m \<and> \<not> is_PingReq m) (cl_messageQueue c0 @ acc)"
  using assms(6)
proof (induction rule: traffic.induct)
  case fresh
  have "fifo gz sent (sent w0) (cl_messageQueue c0 @ []) 0 c0 w0" unfolding fifo_def by (auto intro: exI [of _ "[]"])
  with assms(3-5) show ?case by simp
next
  case (send acc n c w j ty payload func w1 c' w2 w')
  obtain m where m: "cl_messageQueue c' = cl_messageQueue c @ [MSendReq m]" "cl_writer c' = cl_writer c"
    using Send_accepts [OF send.hyps(2)] by blast
  with send fifo_accept [of gz sent "sent w0" "cl_messageQueue c0 @ acc" n c w c' "MSendReq m" w'] show ?case by simp
next
  case (noReply acc n c w j ty payload w1 c' w2 w')
  obtain m where m: "cl_messageQueue c' = cl_messageQueue c @ [MSendReq m]" "cl_writer c' = cl_writer c"
    using SendNoReply_accepts [OF noReply.hyps(2)] by blast
  with noReply fifo_accept [of gz sent "sent w0" "cl_messageQueue c0 @ acc" n c w c' "MSendReq m" w'] show ?case by simp
next
  case (turn acc n c w fd r sel stop c' w')
  have q: "list_all (sendable gz) (cl_messageQueue c)"
    using turn.IH by (auto simp: fifo_def list_all_iff dest: in_set_dropD)
  have c: "cl_writer c = \<lparr>tw_socket = Some so\<rparr>" "ok w" using turn.IH by auto
  obtain ps where ps: "ok w'" "same_conn c c'" "list_all is_PingReq ps"
      "sent w' = sent w @ wire gz (take (taken sel fd (cl_messageQueue c)) (cl_messageQueue c)) @ wire gz ps"
      "cl_messageQueue c' = drop (taken sel fd (cl_messageQueue c)) (cl_messageQueue c)"
    using rw_after_turn [OF assms(1) c(1) assms(2) c(2) q turn.hyps(2,3)] turn.hyps(4) by auto
  have "taken sel fd (cl_messageQueue c) \<le> length (cl_messageQueue c)"
    by (cases "cl_messageQueue c") (auto simp: taken_def)
  then have "fifo gz sent (sent w0) (cl_messageQueue c0 @ acc) (n + taken sel fd (cl_messageQueue c)) c' w'"
    using turn.IH ps by (intro fifo_take [of gz sent "sent w0" _ n c w _ w' ps c']) (auto simp: list_all_iff)
  with turn.IH ps(1) same_conn_writer [OF ps(2)] c show ?case by simp
qed



end
