(* ===== verification/Progress.thy ===== *)
theory Progress
  imports Traffic Rounds
begin

text \<open>
  Progress of the read-write loop, whole iterations of it: from the registration with the selector through the wait to
  the write. On a system that reports the socket as writable whenever it is asked, every iteration
  writes the first message of the queue, so every queued message is written.
\<close>

section \<open>The system\<close>

definition stays :: "('w \<Rightarrow> bytes) \<Rightarrow> ('w \<Rightarrow> bool) \<Rightarrow> 'w \<Rightarrow> 'w \<Rightarrow> bool" where
  "stays sent ok w w' \<longleftrightarrow> ok w' \<and> sent w' = sent w"

lemma stays_trans: "stays sent ok w w1 \<Longrightarrow> stays sent ok w1 w2 \<Longrightarrow> stays sent ok w w2"
  by (simp add: stays_def)

text \<open>
  \<open>reg w ep\<close>: the events registered with the epoll instance \<open>ep\<close>. A new instance has none, a descriptor is
  registered unless it already is, and a wait for the socket \<open>fd\<close> to take bytes returns with that event. None of
  the calls of an iteration but the write changes the stream of the socket.
\<close>

definition writable_os :: "'w posix \<Rightarrow> int \<Rightarrow> ('w \<Rightarrow> bytes) \<Rightarrow> ('w \<Rightarrow> bool) \<Rightarrow> ('w \<Rightarrow> int \<Rightarrow> epoll_event set) \<Rightarrow> bool" where
  "writable_os P fd sent ok reg \<longleftrightarrow>
     (\<forall>w. ok w \<longrightarrow> stays sent ok w (snd (sys_tick P w))) \<and>
     (\<forall>w k n. ok w \<longrightarrow> stays sent ok w (snd (sys_read P k n w))) \<and>
     (\<forall>w k. ok w \<longrightarrow> k \<noteq> fd \<longrightarrow> stays sent ok w (sys_close P k w)) \<and>
     (\<forall>w ep w'. ok w \<longrightarrow> sys_epoll_create P w = (ep, w') \<longrightarrow> stays sent ok w w' \<and> ep \<noteq> fd \<and> reg w' ep = {}) \<and>
     (\<forall>w ep e r w'. ok w \<longrightarrow> sys_epoll_add P ep e w = (r, w') \<longrightarrow> stays sent ok w w' \<and>
        ((\<forall>e' \<in> reg w ep. ev_fd e' \<noteq> ev_fd e) \<longrightarrow> reg w' ep = insert e (reg w ep))) \<and>
     (\<forall>w ep n t e. ok w \<longrightarrow> e \<in> reg w ep \<longrightarrow> ev_fd e = fd \<longrightarrow> EpollEvent_Writable e \<longrightarrow> 0 < n \<longrightarrow>
        (\<exists>w'. sys_epoll_wait P ep n t w = ((1, [\<lparr>ev_fd = fd, ev_events = EPOLLOUT\<rparr>]), w') \<and> stays sent ok w w'))"

text \<open>A connection in use.\<close>

definition open_conn :: "socket_obj \<Rightarrow> 'cb TcpClient \<Rightarrow> bool" where
  "open_conn so c \<longleftrightarrow> cl_socket c = Some so \<and> cl_writer c = \<lparr>tw_socket = Some so\<rparr> \<and> cl_disCode c = kDisCodeNone \<and>
     \<not> Alarm_IsAlarm (cl_pingTimeoutAlarm c) \<and> Breaker_Fd (cl_readWriteBreaker c) \<noteq> Socket_GetSocket so"

lemma open_conn_same: "open_conn so c \<Longrightarrow> same_conn c c' \<Longrightarrow> open_conn so c'"
  by (auto simp: open_conn_def same_conn_def)

text \<open>
  What the other threads may do while an iteration gives way: queue more messages, and anything else that
  neither ends the connection nor touches the loop's selector.
\<close>

definition accepts :: "(bytes \<Rightarrow> bytes) \<Rightarrow> 'cb TcpClient \<Rightarrow> 'cb TcpClient \<Rightarrow> bool" where
  "accepts gz c c' \<longleftrightarrow> (\<exists>new. cl_messageQueue c' = cl_messageQueue c @ new \<and> list_all (\<lambda>m. sendable gz m \<and> \<not> is_PingReq m) new)"

definition friendly ::
  "('cb, 'w, 'z) run_env \<Rightarrow> socket_obj \<Rightarrow> (bytes \<Rightarrow> bytes) \<Rightarrow> ('w \<Rightarrow> bytes) \<Rightarrow> ('w \<Rightarrow> bool) \<Rightarrow> ('w \<Rightarrow> int \<Rightarrow> epoll_event set) \<Rightarrow> bool" where
  "friendly E so gz sent ok reg \<longleftrightarrow>
     (\<forall>c w c' w'. open_conn so c \<longrightarrow> ok w \<longrightarrow> re_env E (c, w) = (c', w') \<longrightarrow>
        open_conn so c' \<and> accepts gz c c' \<and> stays sent ok w w' \<and> reg w' = reg w)"

lemma accepts_refl: "cl_messageQueue c' = cl_messageQueue c \<Longrightarrow> accepts gz c c'"
  by (simp add: accepts_def)

lemma accepts_trans:
  assumes "accepts gz c c1" "accepts gz c1 c2"
  shows "accepts gz c c2"
proof -
  obtain a b where "cl_messageQueue c1 = cl_messageQueue c @ a" "cl_messageQueue c2 = cl_messageQueue c1 @ b"
    "list_all (\<lambda>m. sendable gz m \<and> \<not> is_PingReq m) a" "list_all (\<lambda>m. sendable gz m \<and> \<not> is_PingReq m) b"
    using assms by (auto simp: accepts_def)
  then show ?thesis unfolding accepts_def by (intro exI [of _ "a @ b"]) simp
qed

section \<open>One iteration\<close>

text \<open>The two registrations of an iteration with something to write: the breaker and the socket.\<close>

definition loop_events :: "int \<Rightarrow> int \<Rightarrow> epoll_event list" where
  "loop_events bfd fd = [\<lparr>ev_fd = bfd, ev_events = EPOLLIN\<rparr>, \<lparr>ev_fd = fd, ev_events = (EPOLLIN OR EPOLLERR) OR EPOLLOUT\<rparr>]"

lemma rw_prepare_open:
  assumes "writable_os (re_posix E) (Socket_GetSocket so) sent ok reg" "\<not> re_apple E" "open_conn so c" "ok w"
    and "cl_messageQueue c \<noteq> []"
  shows "\<exists>p c' w'. rw_prepare E t (c, w) = (Inr (Socket_GetSocket so, SelEpoll p), c', w') \<and> same_conn c c' \<and>
    cl_messageQueue c' = cl_messageQueue c \<and> stays sent ok w w' \<and> reg w' (se_epfd p) = {} \<and> se_epfd p \<noteq> Socket_GetSocket so \<and>
    se_events p = loop_events (Breaker_Fd (cl_readWriteBreaker c)) (Socket_GetSocket so)"
proof (rule rw_prepare_result [of c so E t w], goal_cases)
  let ?P = "re_posix E" and ?fd = "Socket_GetSocket so" and ?b = "cl_readWriteBreaker c"
  case 1
  then show ?case using assms(3) by (simp add: open_conn_def)
next
  let ?P = "re_posix E" and ?fd = "Socket_GetSocket so" and ?b = "cl_readWriteBreaker c"
  case (2 sel c' w')
  obtain cur w1 ep where tick: "sys_tick ?P w = (cur, w1)" and new: "sys_epoll_create ?P w1 = (ep, w')"
    and sel: "sel = SelEpoll (SocketEpoll_WriteEvent ?fd True (SocketEpoll_ErrorEvent ?fd True (SocketEpoll_ReadEvent ?fd True
      (SocketEpoll_ClearEvent (SocketEpoll_ReadEvent (Breaker_Fd ?b) True \<lparr>se_epfd = ep, se_events = [], se_pollEvents = [], se_errno = re_junk E\<rparr>)))))"
      (is "_ = SelEpoll ?p")
    using 2(10) assms(2,5) by (auto simp: SocketSelect_new_def SocketEpoll_new_def Let_def split: prod.splits)
  have "se_epfd ?p = ep"
    by (simp add: SocketEpoll_WriteEvent_def SocketEpoll_ErrorEvent_def SocketEpoll_ReadEvent_def SocketEpoll_ClearEvent_def epoll_upd_def)
  moreover have "se_events ?p = loop_events (Breaker_Fd ?b) ?fd"
    using assms(3) by (simp add: SocketEpoll_WriteEvent_def SocketEpoll_ErrorEvent_def SocketEpoll_ReadEvent_def
        SocketEpoll_ClearEvent_def epoll_upd_def loop_events_def set_bits_def open_conn_def)
  moreover have "stays sent ok w w1" using assms(1,4) tick unfolding writable_os_def by (metis snd_conv)
  moreover from this have "stays sent ok w1 w'" "ep \<noteq> ?fd" "reg w' ep = {}"
    using assms(1) new unfolding writable_os_def stays_def by metis+
  moreover have "same_conn c c'" using 2 assms(3) by (simp add: same_conn_def open_conn_def)
  ultimately show ?case using 2(1,4) sel stays_trans by metis
qed

text \<open>The wait of such an iteration returns with the socket writable.\<close>

lemma Clear_stays:
  assumes "writable_os P fd sent ok reg" "ok w" "Breaker_Clear P b w = (r, b', w')"
  shows "stays sent ok w w'" "Breaker_Fd b' = Breaker_Fd b"
proof -
  have "stays sent ok w (snd (sys_read P k n w))" for k n using assms(1,2) by (simp add: writable_os_def)
  then show "stays sent ok w w'" "Breaker_Fd b' = Breaker_Fd b"
    using assms(2,3) by (auto simp: Breaker_Clear_def Breaker_Fd_def stays_def Let_def split: prod.splits option.splits if_splits)
      (metis snd_conv)+
qed

lemma Select_writable:
  assumes os: "writable_os P fd sent ok reg" "ok w" and p: "reg w (se_epfd p) = {}" "se_events p = loop_events bfd fd" "bfd \<noteq> fd"
  shows "\<exists>p' b' w'. SocketSelect_Select P (SelEpoll p) b w = ((1, SelEpoll p', b'), w') \<and>
    se_pollEvents p' = [\<lparr>ev_fd = fd, ev_events = EPOLLOUT\<rparr>] \<and> se_epfd p' = se_epfd p \<and> stays sent ok w w' \<and> Breaker_Fd b' = Breaker_Fd b"
proof -
  let ?ep = "se_epfd p" and ?eb = "\<lparr>ev_fd = bfd, ev_events = EPOLLIN\<rparr>"
  let ?es = "\<lparr>ev_fd = fd, ev_events = (EPOLLIN OR EPOLLERR) OR EPOLLOUT\<rparr>"
  have add: "stays sent ok w (snd (sys_epoll_add P ?ep e w)) \<and>
      ((\<forall>e' \<in> reg w ?ep. ev_fd e' \<noteq> ev_fd e) \<longrightarrow> reg (snd (sys_epoll_add P ?ep e w)) ?ep = insert e (reg w ?ep))" if "ok w" for e w
    using os(1) that unfolding writable_os_def by (metis prod.collapse)
  define w1 where "w1 = snd (sys_epoll_add P ?ep ?eb w)"
  define w2 where "w2 = snd (sys_epoll_add P ?ep ?es w1)"
  have w1: "stays sent ok w w1" "reg w1 ?ep = {?eb}" using add [OF os(2), of ?eb] p(1) by (simp_all add: w1_def)
  then have w2: "stays sent ok w1 w2" "?es \<in> reg w2 ?ep" using add [of w1 ?es] p(3) by (simp_all add: w2_def stays_def)
  have "EpollEvent_Writable ?es" by (simp add: EpollEvent_Writable_def event_bit_laws event_bit_values)
  then obtain w3 where w3: "sys_epoll_wait P ?ep 2 (poll_ms (- 1)) w2 = ((1, [\<lparr>ev_fd = fd, ev_events = EPOLLOUT\<rparr>]), w3)" "stays sent ok w2 w3"
    using os(1) w2 unfolding writable_os_def stays_def by (metis epoll_event.select_convs(1) zero_less_numeral)
  obtain r b' w4 where w4: "Breaker_Clear P b w3 = (r, b', w4)" by (metis prod_cases3)
  have "ok w3" using w3(2) by (simp add: stays_def)
  note clear = Clear_stays [OF os(1) this w4]
  have "stays sent ok w w4" using w1(1) w2(1) w3(2) clear(1) by (simp add: stays_def)
  moreover have "SocketSelect_Select P (SelEpoll p) b w =
      ((1, SelEpoll (p\<lparr>se_errno := 0, se_pollEvents := [\<lparr>ev_fd = fd, ev_events = EPOLLOUT\<rparr>]\<rparr>), b'), w4)"
    using w3(1) w4 p(2) by (simp add: SocketSelect_Select_def SocketEpoll_Poll_def loop_events_def Let_def w1_def w2_def numeral_2_eq_2)
  ultimately show ?thesis using clear(2)
    by (intro exI [of _ "p\<lparr>se_errno := 0, se_pollEvents := [\<lparr>ev_fd = fd, ev_events = EPOLLOUT\<rparr>]\<rparr>"] exI [of _ b'] exI [of _ w4]) simp
qed

lemma friendlyD:
  assumes "friendly E so gz sent ok reg" "open_conn so c" "ok w"
  obtains c' w' where "re_env E (c, w) = (c', w')" "open_conn so c'" "accepts gz c c'" "stays sent ok w w'" "reg w' = reg w"
  using assms unfolding friendly_def by (metis surj_pair)

lemma calm_writable:
  assumes "open_conn so c" "se_pollEvents p = [\<lparr>ev_fd = Socket_GetSocket so, ev_events = EPOLLOUT\<rparr>]"
  shows "calm c (Socket_GetSocket so) 1 (SelEpoll p)" "SocketSelect_WriteFdIsSet (SelEpoll p) (Socket_GetSocket so)"
    "\<not> SocketSelect_ReadFdIsSet (SelEpoll p) (Socket_GetSocket so)"
  using assms by (auto simp: open_conn_def calm_def SocketEpoll_BreakerIsError_def SocketEpoll_ExceptionFdIsSet_def SocketEpoll_WriteFdIsSet_def
      SocketEpoll_ReadFdIsSet_def EpollEvent_Writable_def EpollEvent_Readable_def EpollEvent_HangUp_def EpollEvent_Error_def event_bits)

lemma rw_round_writes:
  assumes Z: "zlib_codec (re_zlib E) gz todo fine plain left" and sink: "os_sink (re_posix E) so sent ok"
    and os: "writable_os (re_posix E) (Socket_GetSocket so) sent ok reg" "\<not> re_apple E" and others: "friendly E so gz sent ok reg"
    and c: "open_conn so c" "ok w" "cl_messageQueue c = m # ms" "list_all (\<lambda>m. sendable gz m \<and> \<not> is_PingReq m) (m # ms)"
  shows "\<exists>c' w' ps new. rw_round E t (c, w) = (Inr False, c', w') \<and> open_conn so c' \<and> ok w' \<and> sent w' = sent w @ wire gz (m # ps) \<and>
    list_all is_PingReq ps \<and> cl_messageQueue c' = ms @ new \<and> list_all (\<lambda>m. sendable gz m \<and> \<not> is_PingReq m) new"
proof -
  let ?P = "re_posix E" and ?fd = "Socket_GetSocket so" and ?good = "list_all (\<lambda>m. sendable gz m \<and> \<not> is_PingReq m)"
  obtain p c1 w1 where 1: "rw_prepare E t (c, w) = (Inr (?fd, SelEpoll p), c1, w1)" "same_conn c c1" "cl_messageQueue c1 = m # ms"
      "stays sent ok w w1" "reg w1 (se_epfd p) = {}" "se_epfd p \<noteq> ?fd"
      "se_events p = loop_events (Breaker_Fd (cl_readWriteBreaker c)) ?fd"
    using rw_prepare_open [OF os c(1,2), of t] c(3) by auto
  have o1: "open_conn so c1" "ok w1" using open_conn_same [OF c(1) 1(2)] 1(4) by (simp_all add: stays_def)
  obtain c2 w2 where 2: "re_env E (c1, w1) = (c2, w2)" "open_conn so c2" "accepts gz c1 c2" "stays sent ok w1 w2" "reg w2 = reg w1"
    by (rule friendlyD [OF others o1])
  have "ok w2" "reg w2 (se_epfd p) = {}" "Breaker_Fd (cl_readWriteBreaker c) \<noteq> ?fd"
    using 2(4,5) 1(5) c(1) by (simp_all add: stays_def open_conn_def)
  then obtain p' b' w3 where 3: "SocketSelect_Select ?P (SelEpoll p) (cl_readWriteBreaker c2) w2 = ((1, SelEpoll p', b'), w3)"
      "se_pollEvents p' = [\<lparr>ev_fd = ?fd, ev_events = EPOLLOUT\<rparr>]" "se_epfd p' = se_epfd p" "stays sent ok w2 w3"
      "Breaker_Fd b' = Breaker_Fd (cl_readWriteBreaker c2)"
    using Select_writable [OF os(1) _ _ 1(7), of w2 "cl_readWriteBreaker c2"] by blast
  let ?c3 = "c2\<lparr>cl_readWriteBreaker := b'\<rparr>"
  have o3: "open_conn so ?c3" "ok w3" using 2(2) 3(4,5) by (simp_all add: open_conn_def stays_def)
  obtain c4 w4 where 4: "re_env E (?c3, w3) = (c4, w4)" "open_conn so c4" "accepts gz ?c3 c4" "stays sent ok w3 w4"
    by (rule friendlyD [OF others o3])
  have "accepts gz c1 c4" using accepts_trans [OF 2(3), of c4] 4(3) by (simp add: accepts_def)
  then obtain new where new: "cl_messageQueue c4 = m # ms @ new" "?good new" using 1(3) by (auto simp: accepts_def)
  note calm = calm_writable [OF 4(2) 3(2)]
  have w4: "cl_writer c4 = \<lparr>tw_socket = Some so\<rparr>" "ok w4" "sent w4 = sent w" and q: "list_all (sendable gz) (cl_messageQueue c4)"
    using 4(2) 1(4) 2(4) 3(4) 4(4) c(4) new by (auto simp: open_conn_def stays_def list_all_iff)
  have "taken (SelEpoll p') ?fd (cl_messageQueue c4) = 1" using calm(2) new(1) by (simp add: taken_def)
  then obtain c5 w5 ps where 5: "rw_after E ?fd 1 (SelEpoll p') (c4, w4) = (Inr False, c5, w5)" "ok w5" "same_conn c4 c5"
      "sent w5 = sent w4 @ wire gz (m # ps)" "list_all is_PingReq ps" "cl_messageQueue c5 = ms @ new"
    using rw_after_turn [OF Z w4(1) sink w4(2) q calm(1,3)] new(1) by (auto simp: wire_def)
  have o5: "open_conn so c5" by (rule open_conn_same [OF 4(2) 5(3)])
  define w6 where "w6 = sys_close ?P (se_epfd p') w5"
  have w6: "stays sent ok w5 w6" using os(1) 5(2) 1(6) 3(3) by (simp add: w6_def writable_os_def)
  then obtain c7 w7 where 7: "re_env E (c5, w6) = (c7, w7)" "open_conn so c7" "accepts gz c5 c7" "stays sent ok w6 w7"
    using friendlyD [OF others o5, of w6] by (metis stays_def)
  obtain new' where "cl_messageQueue c7 = (ms @ new) @ new'" "?good new'" using 7(3) 5(6) by (auto simp: accepts_def)
  moreover have "rw_round E t (c, w) = (Inr False, c7, w7)"
    using 1(1) 2(1) 3(1) 4(1) 5(1) 7(1)
    by (simp add: rw_round_def seq_def others_def rw_select_def world_def onWorld_def lift_def SocketEpoll_delete_def w6_def [symmetric])
  ultimately show ?thesis using 5(4,5) 7(2,4) w4(3) w6 new(2)
    by (intro exI [of _ c7] exI [of _ w7] exI [of _ ps] exI [of _ "new @ new'"]) (simp add: stays_def)
qed

section \<open>Many iterations\<close>

text \<open>At most \<open>n\<close> iterations of the loop; it stops early where the loop is left.\<close>

fun rw_rounds :: "('cb, 'w, 'z) run_env \<Rightarrow> u64 \<Rightarrow> nat \<Rightarrow> ('cb, 'w, bool) client_io" where
  "rw_rounds E t 0 s = (Inr False, s)"
| "rw_rounds E t (Suc n) s =
     (case rw_round E t s of (Inl f, s') \<Rightarrow> (Inl f, s') | (Inr stop, s') \<Rightarrow> if stop then (Inr True, s') else rw_rounds E t n s')"

text \<open>They are iterations of the loop of \<^verbatim>\<open>__RunReadWrite\<close>.\<close>

lemma rw_rounds_loop: "rw_rounds E t n s = (Inr False, s') \<Longrightarrow> rw_loop E t s = rw_loop E t s'"
proof (induction n arbitrary: s)
  case (Suc n)
  then obtain s1 where "rw_round E t s = (Inr False, s1)" "rw_rounds E t n s1 = (Inr False, s')"
    by (auto split: prod.splits sum.splits if_splits)
  then show ?case using Suc.IH [of s1] by (simp add: rw_loop.simps [of E t s])
qed simp


section \<open>A system to run on\<close>

text \<open>The world holds the bytes written and the registrations.\<close>

type_synonym epoll_world = "bytes \<times> (int \<times> epoll_event) list"

definition epoll_posix :: "epoll_world posix" where
  "epoll_posix = quiet_posix
     \<lparr>sys_send := (\<lambda>fd bs (out, l). (int (length bs), (out @ bs, l))),
      sys_epoll_create := (\<lambda>(out, l). (5, (out, filter (\<lambda>(ep, e). ep \<noteq> 5) l))),
      sys_epoll_add := (\<lambda>ep e (out, l). if list_ex (\<lambda>(ep', e'). ep' = ep \<and> ev_fd e' = ev_fd e) l then (- 1, (out, l)) else (0, (out, (ep, e) # l))),
      sys_epoll_wait := (\<lambda>ep n t (out, l).
        if list_ex (\<lambda>(ep', e'). ep' = ep \<and> ev_fd e' = 7 \<and> EpollEvent_Writable e') l
        then ((1, [\<lparr>ev_fd = 7, ev_events = EPOLLOUT\<rparr>]), (out, l)) else ((0, []), (out, l)))\<rparr>"

definition epoll_env :: "(nat, epoll_world, bytes) run_env" where
  "epoll_env = \<lparr>re_apple = False, re_junk = 0, re_junk64 = 0, re_msgJunk = sample_junk, re_answered = True,
     re_posix = epoll_posix, re_zlib = stored_zlib, re_stale = (\<lambda>m. RetCodeAccepted), re_env = (\<lambda>s. s)\<rparr>"

abbreviation registered :: "epoll_world \<Rightarrow> int \<Rightarrow> epoll_event set" where
  "registered w ep \<equiv> {e. (ep, e) \<in> set (snd w)}"

lemma epoll_posix_writable: "writable_os epoll_posix 7 fst (\<lambda>w. True) registered"
  by (auto simp: writable_os_def stays_def epoll_posix_def quiet_posix_def list_ex_iff split: prod.splits if_splits)

lemma epoll_posix_sink: "os_sink epoll_posix (PlainSocket \<lparr>ts_socket = 7\<rparr>) fst (\<lambda>w. True)"
  by (simp add: epoll_posix_def quiet_posix_def split: prod.splits)


end
