(* ===== verification/Selectors.thy ===== *)
theory Selectors
  imports Polling
begin

text \<open>
  The two selectors, epoll on Linux and kqueue on Apple, against one specification of what a kernel reports: they give the
  same answers to the same registrations.
\<close>

section \<open>What is waited for\<close>

text \<open>The descriptors to become readable and to become writable, as sets; \<open>bfd\<close> is the breaker's.\<close>

fun interest :: "int \<Rightarrow> sel_op \<Rightarrow> int set \<times> int set \<Rightarrow> int set \<times> int set" where
  "interest bfd PreSelect (R, W) = ({bfd}, {})"
| "interest bfd (ReadFdSet fd) (R, W) = (insert fd R, W)"
| "interest bfd (WriteFdSet fd) (R, W) = (R, insert fd W)"
| "interest bfd (ExceptionFdSet fd) (R, W) = (R, W)"

definition interest_of :: "int \<Rightarrow> SocketSelect \<Rightarrow> int set \<times> int set" where
  "interest_of bfd s = ({fd. sel_reads s fd}, {fd. sel_writes s fd})"

lemma interest_step:
  assumes "sel_guards bfd s" "\<not> sel_writes s bfd" "op \<noteq> WriteFdSet bfd"
  shows "interest_of bfd (sel_apply op s) = interest bfd op (interest_of bfd s)" "sel_guards bfd (sel_apply op s)"
    "\<not> sel_writes (sel_apply op s) bfd"
proof -
  have clr: "\<not> sel_writes (SocketSelect_PreSelect s) fd" for fd
  proof
    assume w: "sel_writes (SocketSelect_PreSelect s) fd"
    then have "fd = bfd" by (rule sel.clr_writes [OF assms(1)])
    with w assms(1,2) show False by (cases s) (auto simp: SocketEpoll_ClearEvent_def SocketKqueue_ClearEvent_def wants_take_1
      dest: wants_hd [where test = EpollEvent_Writable and k = ev_fd])
  qed
  show "interest_of bfd (sel_apply op s) = interest bfd op (interest_of bfd s)"
    using assms(1) clr by (cases op) (auto simp: interest_of_def sel.reads_rd sel.reads_wr sel.reads_err sel.writes_rd sel.writes_wr
        sel.writes_err sel.clr_reads)
  show "sel_guards bfd (sel_apply op s)"
    using assms(1) by (cases op) (simp_all add: sel.guards_rd sel.guards_wr sel.guards_err sel.guards_clr)
  show "\<not> sel_writes (sel_apply op s) bfd"
    using assms(2,3) clr by (cases op) (auto simp: sel.writes_rd sel.writes_wr sel.writes_err)
qed

lemma interest_fold:
  assumes "sel_guards bfd s" "\<not> sel_writes s bfd" "WriteFdSet bfd \<notin> set ops"
  shows "interest_of bfd (fold sel_apply ops s) = fold (interest bfd) ops (interest_of bfd s)"
  using assms
proof (induction ops arbitrary: s)
  case (Cons op ops)
  have "op \<noteq> WriteFdSet bfd" "WriteFdSet bfd \<notin> set ops" using Cons.prems(3) by auto
  with interest_step [OF Cons.prems(1,2)] Cons.IH [of "sel_apply op s"] show ?case by simp
qed simp

lemma new_interest:
  assumes "SocketSelect_new apple P b junk w = (s, w')"
  shows "interest_of (Breaker_Fd b) s = ({Breaker_Fd b}, {})" "sel_guards (Breaker_Fd b) s" "\<not> sel_writes s (Breaker_Fd b)"
proof -
  show "sel_guards (Breaker_Fd b) s" by (rule SocketSelect_new_guards [OF assms])
  show "interest_of (Breaker_Fd b) s = ({Breaker_Fd b}, {})" "\<not> sel_writes s (Breaker_Fd b)"
    using assms by (auto simp: SocketSelect_new_def SocketKqueue_new_def SocketEpoll_new_def SocketKqueue_ReadEvent_def
        SocketEpoll_ReadEvent_def epoll_upd_def kqueue_events interest_of_def wants_def EpollEvent_Readable_def EpollEvent_Writable_def
        event_bit_values split: if_splits prod.splits)
qed

section \<open>The kernels\<close>

text \<open>
  \<open>rd fd\<close>, \<open>wr fd\<close>: the descriptor is readable, writable; none has an error or has hung up. \<open>reg w ep\<close>: the masks registered with
  an epoll instance. A descriptor that is registered already is not registered again. A wait that may end without an
  event reports every registered descriptor that is ready, with the ready part of its mask, once.
\<close>

definition ready_bits :: "bool \<Rightarrow> bool \<Rightarrow> u32" where
  "ready_bits r w = (if r then EPOLLIN else 0) OR (if w then EPOLLOUT else 0)"

definition epoll_kernel :: "'w posix \<Rightarrow> ('w \<Rightarrow> int \<Rightarrow> int \<rightharpoonup> u32) \<Rightarrow> (int \<Rightarrow> bool) \<Rightarrow> (int \<Rightarrow> bool) \<Rightarrow> bool" where
  "epoll_kernel P reg rd wr \<longleftrightarrow>
     (\<forall>w ep w'. sys_epoll_create P w = (ep, w') \<longrightarrow> reg w' ep = Map.empty) \<and>
     (\<forall>w ep e. reg (snd (sys_epoll_add P ep e w)) ep =
        (if ev_fd e \<in> dom (reg w ep) then reg w ep else (reg w ep)(ev_fd e \<mapsto> ev_events e))) \<and>
     (\<forall>w ep n t r es w'. 0 \<le> t \<longrightarrow> card (dom (reg w ep)) \<le> n \<longrightarrow> sys_epoll_wait P ep n t w = ((r, es), w') \<longrightarrow>
        r = int (length es) \<and> distinct (map ev_fd es) \<and>
        set es = {\<lparr>ev_fd = fd, ev_events = m AND ready_bits (rd fd) (wr fd)\<rparr> |fd m. reg w ep fd = Some m \<and> m AND ready_bits (rd fd) (wr fd) \<noteq> 0})"

text \<open>For kqueue: a queue that nothing was registered with reports the ready ones of the filters that the call adds.\<close>

definition kqueue_kernel :: "'w posix \<Rightarrow> ('w \<Rightarrow> int \<Rightarrow> bool) \<Rightarrow> (int \<Rightarrow> bool) \<Rightarrow> (int \<Rightarrow> bool) \<Rightarrow> bool" where
  "kqueue_kernel P unused rd wr \<longleftrightarrow>
     (\<forall>w kq w'. sys_kqueue P w = (kq, w') \<longrightarrow> unused w' kq) \<and>
     (\<forall>w kq cs n ts r es w'. unused w kq \<longrightarrow> list_all (\<lambda>e. ke_flags e = EV_ADD OR EV_ENABLE) cs \<longrightarrow> length cs \<le> n \<longrightarrow>
        sys_kevent P kq cs n (Some ts) w = ((r, es), w') \<longrightarrow>
        r = int (length es) \<and> list_all (\<lambda>e. ke_flags e AND EV_ERROR = 0 \<and> ke_flags e AND EV_EOF = 0) es \<and>
        kq_key ` set es = {(fd, f). (fd, f) \<in> kq_key ` set cs \<and> (case f of EVFILT_READ \<Rightarrow> rd fd | EVFILT_WRITE \<Rightarrow> wr fd)})"

section \<open>epoll\<close>

text \<open>Registering a list of events leaves the first mask of every descriptor.\<close>

definition masks :: "epoll_event list \<Rightarrow> int \<rightharpoonup> u32" where
  "masks es fd = map_option ev_events (find (\<lambda>e. ev_fd e = fd) es)"

lemma masks_snoc: "masks (es @ [e]) = (if ev_fd e \<in> dom (masks es) then masks es else (masks es)(ev_fd e \<mapsto> ev_events e))"
  by (induction es) (auto simp: masks_def fun_eq_iff dom_def)

lemma fold_add_masks:
  assumes "epoll_kernel P reg rd wr" "reg w ep = Map.empty"
  shows "reg (fold (\<lambda>e w. snd (sys_epoll_add P ep e w)) es w) ep = masks es"
proof (induction es rule: rev_induct)
  case (snoc e es)
  then show ?case using assms(1) by (simp add: epoll_kernel_def masks_snoc fun_upd_def)
qed (simp add: assms(2) masks_def fun_eq_iff)

lemma card_masks: "card (dom (masks es)) \<le> length es"
proof -
  have "dom (masks es) \<subseteq> set (map ev_fd es)" by (auto simp: masks_def find_Some_iff)
  then have "card (dom (masks es)) \<le> card (set (map ev_fd es))" by (intro card_mono) auto
  then show ?thesis using card_length [of "map ev_fd es"] by simp
qed

lemma ready_bits_laws:
  "(m AND ready_bits r w) AND EPOLLIN \<noteq> 0 \<longleftrightarrow> m AND EPOLLIN \<noteq> 0 \<and> r"
  "(m AND ready_bits r w) AND EPOLLOUT \<noteq> 0 \<longleftrightarrow> m AND EPOLLOUT \<noteq> 0 \<and> w"
  "(m AND ready_bits r w) AND EPOLLHUP = 0" "(m AND ready_bits r w) AND EPOLLERR = 0"
  by (simp_all add: ready_bits_def event_bits and.assoc bit.conj_disj_distrib2)

lemma ready_bits_none:
  "m AND ready_bits True w = 0 \<Longrightarrow> m AND EPOLLIN = 0" "m AND ready_bits r True = 0 \<Longrightarrow> m AND EPOLLOUT = 0"
  using ready_bits_laws(1) [of m True w] ready_bits_laws(2) [of m r True] by auto

lemma epoll_waitD:
  assumes "epoll_kernel P reg rd wr" "0 \<le> t" "card (dom (reg w ep)) \<le> n" "sys_epoll_wait P ep n t w = ((r, es), w')"
  shows "r = int (length es) \<and> distinct (map ev_fd es) \<and>
    set es = {\<lparr>ev_fd = fd, ev_events = m AND ready_bits (rd fd) (wr fd)\<rparr> |fd m. reg w ep fd = Some m \<and> m AND ready_bits (rd fd) (wr fd) \<noteq> 0}"
  using assms unfolding epoll_kernel_def by blast

lemma epoll_wait_found:
  assumes "distinct (map ev_fd es)"
    and "set es = {\<lparr>ev_fd = fd, ev_events = m AND ready_bits (rd fd) (wr fd)\<rparr> |fd m. reg fd = Some m \<and> m AND ready_bits (rd fd) (wr fd) \<noteq> 0}"
  shows "find (\<lambda>e. ev_fd e = fd) es =
    (case reg fd of None \<Rightarrow> None | Some m \<Rightarrow> if m AND ready_bits (rd fd) (wr fd) = 0 then None
       else Some \<lparr>ev_fd = fd, ev_events = m AND ready_bits (rd fd) (wr fd)\<rparr>)" (is "_ = ?found")
proof (cases "\<exists>m. reg fd = Some m \<and> m AND ready_bits (rd fd) (wr fd) \<noteq> 0")
  case True
  then obtain m where m: "reg fd = Some m" "m AND ready_bits (rd fd) (wr fd) \<noteq> 0" by blast
  let ?e = "\<lparr>ev_fd = fd, ev_events = m AND ready_bits (rd fd) (wr fd)\<rparr>"
  have e: "?e \<in> set es" using assms(2) m by auto
  then obtain x where x: "find (\<lambda>e. ev_fd e = fd) es = Some x"
    by (metis (mono_tags, lifting) epoll_event.select_convs(1) find_None_iff not_Some_eq)
  have "x \<in> set es" "ev_fd x = ev_fd ?e" using x by (auto simp: find_Some_iff)
  then have "x = ?e" using assms(1) e by (meson distinct_map inj_onD)
  then show ?thesis using x m by simp
next
  case False
  then have "find (\<lambda>e. ev_fd e = fd) es = None" using assms(2) by (auto simp: find_None_iff)
  moreover have "?found = None" using False by (auto split: option.split)
  ultimately show ?thesis by simp
qed

lemma epoll_answers:
  assumes k: "epoll_kernel P reg rd wr" "reg w (se_epfd p) = Map.empty" and t: "0 \<le> timeout"
    and s: "SocketSelect_SelectFor P timeout (SelEpoll p) b w = ((r, s', b'), w')"
  shows "SocketSelect_ReadFdIsSet s' fd \<longleftrightarrow> sel_reads (SelEpoll p) fd \<and> rd fd"
    "SocketSelect_WriteFdIsSet s' fd \<longleftrightarrow> sel_writes (SelEpoll p) fd \<and> wr fd" "\<not> SocketSelect_ExceptionFdIsSet s' fd"
    "Breaker_Fd b' = Breaker_Fd b"
proof -
  define w1 where "w1 = fold (\<lambda>e w. snd (sys_epoll_add P (se_epfd p) e w)) (se_events p) w"
  have reg: "reg w1 (se_epfd p) = masks (se_events p)" unfolding w1_def by (rule fold_add_masks [OF k])
  obtain q es w2 where wait: "sys_epoll_wait P (se_epfd p) (length (se_events p)) (poll_ms timeout) w1 = ((q, es), w2)" by (metis prod.collapse)
  have "0 \<le> poll_ms timeout" "card (dom (reg w1 (se_epfd p))) \<le> length (se_events p)"
    using t card_masks [of "se_events p"] by (simp_all add: poll_ms_def Let_def reg)
  note law = epoll_waitD [OF k(1) this wait, unfolded reg]
  have es: "q = int (length es)" "distinct (map ev_fd es)"
    "set es = {\<lparr>ev_fd = fd, ev_events = m AND ready_bits (rd fd) (wr fd)\<rparr> |fd m. masks (se_events p) fd = Some m \<and> m AND ready_bits (rd fd) (wr fd) \<noteq> 0}"
    using law by blast+
  obtain x b1 w3 where c: "Breaker_Clear P b w2 = (x, b1, w3)" by (metis prod_cases3)
  have "s' = SelEpoll (p\<lparr>se_errno := 0, se_pollEvents := es\<rparr>)" "b' = b1"
    using s wait c es(1) by (auto simp: SocketEpoll_Poll_def Let_def w1_def [symmetric])
  moreover note f = epoll_wait_found [OF es(2,3), of fd]
  ultimately show "SocketSelect_ReadFdIsSet s' fd \<longleftrightarrow> sel_reads (SelEpoll p) fd \<and> rd fd"
    "SocketSelect_WriteFdIsSet s' fd \<longleftrightarrow> sel_writes (SelEpoll p) fd \<and> wr fd" "\<not> SocketSelect_ExceptionFdIsSet s' fd"
    by (auto simp: SocketEpoll_ReadFdIsSet_def SocketEpoll_WriteFdIsSet_def SocketEpoll_ExceptionFdIsSet_def EpollEvent_Readable_def
        EpollEvent_Writable_def EpollEvent_HangUp_def EpollEvent_Error_def wants_def masks_def ready_bits_laws
        dest: ready_bits_none split: option.splits if_splits)
  show "Breaker_Fd b' = Breaker_Fd b" using c \<open>b' = b1\<close> by (auto simp: Breaker_Clear_def Breaker_Fd_def split: prod.splits option.splits)
qed

section \<open>kqueue\<close>

definition all_added :: "SocketKqueue \<Rightarrow> bool" where
  "all_added p \<longleftrightarrow> list_all (\<lambda>e. ke_flags e = EV_ADD OR EV_ENABLE) (sk_events p)"

lemma all_added_upd:
  "list_all (\<lambda>e. ke_flags e = EV_ADD OR EV_ENABLE) es \<Longrightarrow>
     list_all (\<lambda>e. ke_flags e = EV_ADD OR EV_ENABLE) (upd_first q (\<lambda>v. \<lparr>ke_filter = flt, ke_flags = EV_ADD OR EV_ENABLE, ke_udata = fd\<rparr>)
       \<lparr>ke_filter = flt, ke_flags = EV_ADD OR EV_ENABLE, ke_udata = fd\<rparr> es)"
  by (induction es) auto

lemma kqueue_upd_kq: "sk_kq (kqueue_upd flt fd active s) = sk_kq s"
  by (simp add: kqueue_upd_def Let_def)

lemma list_all_take: "list_all Q xs \<Longrightarrow> list_all Q (take n xs)"
  by (auto simp: list_all_iff dest: in_set_takeD)

lemma all_added_apply: "all_added p \<Longrightarrow> \<exists>p'. sel_apply op (SelKqueue p) = SelKqueue p' \<and> all_added p' \<and> sk_kq p' = sk_kq p"
  by (cases op) (simp_all add: all_added_def SocketKqueue_ClearEvent_def SocketKqueue_ReadEvent_def SocketKqueue_WriteEvent_def
      SocketKqueue_ErrorEvent_def kqueue_events all_added_upd kqueue_upd_kq list_all_take)

lemma all_added_fold: "all_added p \<Longrightarrow> \<exists>p'. fold sel_apply ops (SelKqueue p) = SelKqueue p' \<and> all_added p' \<and> sk_kq p' = sk_kq p"
proof (induction ops arbitrary: p)
  case (Cons op ops)
  then show ?case using all_added_apply [of p op] by fastforce
qed simp

lemma wants_all_added:
  "all_added p \<Longrightarrow> wants kq_key (\<lambda>e. ke_flags e AND EV_DELETE = 0) (sk_events p) k \<longleftrightarrow> k \<in> kq_key ` set (sk_events p)"
  by (auto simp: wants_def all_added_def list_all_iff find_None_iff find_Some_iff event_bit_values split: option.splits)

lemma kqueue_eventD:
  assumes "kqueue_kernel P unused rd wr" "unused w kq" "list_all (\<lambda>e. ke_flags e = EV_ADD OR EV_ENABLE) cs"
    and "sys_kevent P kq cs (length cs) (Some ts) w = ((r, es), w')"
  shows "r = int (length es) \<and> list_all (\<lambda>e. ke_flags e AND EV_ERROR = 0 \<and> ke_flags e AND EV_EOF = 0) es \<and>
    kq_key ` set es = {(fd, f). (fd, f) \<in> kq_key ` set cs \<and> (case f of EVFILT_READ \<Rightarrow> rd fd | EVFILT_WRITE \<Rightarrow> wr fd)}"
  using assms unfolding kqueue_kernel_def by (meson order_refl)

lemma kqueue_answers:
  assumes k: "kqueue_kernel P unused rd wr" "unused w (sk_kq p)" "all_added p" and t: "0 \<le> timeout"
    and s: "SocketSelect_SelectFor P timeout (SelKqueue p) b w = ((r, s', b'), w')"
  shows "SocketSelect_ReadFdIsSet s' fd \<longleftrightarrow> sel_reads (SelKqueue p) fd \<and> rd fd"
    "SocketSelect_WriteFdIsSet s' fd \<longleftrightarrow> sel_writes (SelKqueue p) fd \<and> wr fd" "\<not> SocketSelect_ExceptionFdIsSet s' fd"
    "Breaker_Fd b' = Breaker_Fd b"
proof -
  let ?ts = "(poll_ms timeout div 1000, (poll_ms timeout mod 1000) * 1000 * 1000)"
  obtain q es w2 where ev: "sys_kevent P (sk_kq p) (sk_events p) (length (sk_events p)) (Some ?ts) w = ((q, es), w2)" by (metis prod.collapse)
  have es: "q = int (length es)" "list_all (\<lambda>e. ke_flags e AND EV_ERROR = 0 \<and> ke_flags e AND EV_EOF = 0) es"
    "kq_key ` set es = {(fd, f). (fd, f) \<in> kq_key ` set (sk_events p) \<and> (case f of EVFILT_READ \<Rightarrow> rd fd | EVFILT_WRITE \<Rightarrow> wr fd)}"
    using kqueue_eventD [OF k(1,2) k(3) [unfolded all_added_def] ev] by simp_all
  obtain x b1 w3 where c: "Breaker_Clear P b w2 = (x, b1, w3)" by (metis prod_cases3)
  have "poll_ms timeout \<noteq> - 1" using t by (simp add: poll_ms_def Let_def)
  then have s': "s' = SelKqueue (p\<lparr>sk_errno := 0, sk_pollEvents := es\<rparr>)" "b' = b1"
    using s ev c es(1) by (auto simp: SocketKqueue_Poll_def Let_def)
  have in_es: "list_ex (\<lambda>e. ke_udata e = fd \<and> \<not> KqueueEvent_Error e \<and> \<not> KqueueEvent_Invalid e \<and> ke_filter e = f) es \<longleftrightarrow> (fd, f) \<in> kq_key ` set es" for f
    using es(2) by (auto simp: list_ex_iff list_all_iff KqueueEvent_Error_def KqueueEvent_Invalid_def image_iff)
  show "SocketSelect_ReadFdIsSet s' fd \<longleftrightarrow> sel_reads (SelKqueue p) fd \<and> rd fd"
    "SocketSelect_WriteFdIsSet s' fd \<longleftrightarrow> sel_writes (SelKqueue p) fd \<and> wr fd"
    unfolding s'(1) using in_es [of EVFILT_READ] in_es [of EVFILT_WRITE]
    by (simp_all add: SocketKqueue_ReadFdIsSet_def SocketKqueue_WriteFdIsSet_def KqueueEvent_Readable_def KqueueEvent_Writable_def es(3)
        wants_all_added [OF k(3)])
  show "\<not> SocketSelect_ExceptionFdIsSet s' fd"
    using es(2) by (auto simp: s'(1) SocketKqueue_ExceptionFdIsSet_def list_all_iff find_Some_iff KqueueEvent_Error_def
        KqueueEvent_Invalid_def split: option.split)
  show "Breaker_Fd b' = Breaker_Fd b" using c s'(2) by (auto simp: Breaker_Clear_def Breaker_Fd_def split: prod.splits option.splits)
qed

section \<open>They agree\<close>

lemma epoll_apply_epfd: "\<exists>p'. sel_apply op (SelEpoll p) = SelEpoll p' \<and> se_epfd p' = se_epfd p"
  by (cases op) (simp_all add: SocketEpoll_ClearEvent_def SocketEpoll_ReadEvent_def SocketEpoll_WriteEvent_def SocketEpoll_ErrorEvent_def
      epoll_upd_def)

lemma epoll_fold_epfd: "\<exists>p'. fold sel_apply ops (SelEpoll p) = SelEpoll p' \<and> se_epfd p' = se_epfd p"
proof (induction ops arbitrary: p)
  case (Cons op ops)
  then show ?case using epoll_apply_epfd [of op p] by fastforce
qed simp


section \<open>Two kernels\<close>

text \<open>Descriptors 3 and 7 are readable, 9 is writable.\<close>

definition toy_rd :: "int \<Rightarrow> bool" where "toy_rd fd \<longleftrightarrow> fd = 3 \<or> fd = 7"
definition toy_wr :: "int \<Rightarrow> bool" where "toy_wr fd \<longleftrightarrow> fd = 9"

definition toy_ready :: "epoll_event list \<Rightarrow> epoll_event list" where
  "toy_ready l = filter (\<lambda>e. ev_events e \<noteq> 0)
     (map (\<lambda>fd. \<lparr>ev_fd = fd, ev_events = the (masks l fd) AND ready_bits (toy_rd fd) (toy_wr fd)\<rparr>) (remdups (map ev_fd l)))"

definition toy_epoll :: "epoll_event list posix" where
  "toy_epoll = quiet_posix
     \<lparr>sys_epoll_create := (\<lambda>l. (5, [])), sys_epoll_add := (\<lambda>ep e l. (0, l @ [e])),
      sys_epoll_wait := (\<lambda>ep n t l. ((int (length (toy_ready l)), toy_ready l), l))\<rparr>"

definition toy_kqueue :: "unit posix" where
  "toy_kqueue = quiet_posix
     \<lparr>sys_kqueue := (\<lambda>w. (6, w)),
      sys_kevent := (\<lambda>kq cs n ts w. let es = filter (\<lambda>e. case ke_filter e of EVFILT_READ \<Rightarrow> toy_rd (ke_udata e) | EVFILT_WRITE \<Rightarrow> toy_wr (ke_udata e)) cs
        in ((int (length es), es), w))\<rparr>"

lemma toy_ready_set:
  "set (toy_ready l) = {\<lparr>ev_fd = fd, ev_events = m AND ready_bits (toy_rd fd) (toy_wr fd)\<rparr> |fd m.
      masks l fd = Some m \<and> m AND ready_bits (toy_rd fd) (toy_wr fd) \<noteq> 0}"
proof -
  have "fd \<in> set (map ev_fd l) \<longleftrightarrow> (\<exists>m. masks l fd = Some m)" for fd
    by (induction l) (auto simp: masks_def)
  then show ?thesis by (fastforce simp: toy_ready_def)
qed

lemma toy_epoll_kernel: "epoll_kernel toy_epoll (\<lambda>l ep. masks l) toy_rd toy_wr"
proof -
  have "distinct (map ev_fd (toy_ready l))" for l
    by (simp add: toy_ready_def distinct_map filter_map comp_def inj_on_def)
  then show ?thesis
    by (simp add: epoll_kernel_def toy_epoll_def quiet_posix_def masks_snoc toy_ready_set) (simp add: masks_def fun_eq_iff)
qed

lemma toy_kqueue_kernel: "kqueue_kernel toy_kqueue (\<lambda>w kq. True) toy_rd toy_wr"
  by (auto simp: kqueue_kernel_def toy_kqueue_def quiet_posix_def Let_def list_all_iff event_bits image_iff)



end
