(* ===== verification/RaceProgress.thy ===== *)
theory RaceProgress
  imports Connectors
begin

text \<open>
  The race of \<^verbatim>\<open>connect/complex_connect.cpp\<close> ends. \<open>clk\<close> reads the time of a world in units of which
  \<open>res\<close> make a millisecond; every call of the operating system takes at most \<open>d\<close> units, a wait its
  timeout on top of that. An iteration of \<^verbatim>\<open>ConnectImpatient\<close> then takes a bounded time, and the
  loop a bounded number of them: each one either moves a connector to a later status, or picks up
  the next server, or ends before the last deadline of the running connectors.
\<close>

section \<open>An operating system in time\<close>

definition lasts :: "('w \<Rightarrow> nat) \<Rightarrow> nat \<Rightarrow> 'w \<Rightarrow> 'w \<Rightarrow> bool" where
  "lasts clk k w w' \<longleftrightarrow> clk w \<le> clk w' \<and> clk w' \<le> clk w + k"

lemma lasts_refl [simp]: "lasts clk k w w"
  by (simp add: lasts_def)

lemma lasts_trans: "lasts clk j w w1 \<Longrightarrow> lasts clk k w1 w2 \<Longrightarrow> j + k \<le> n \<Longrightarrow> lasts clk n w w2"
  by (simp add: lasts_def)

lemma lasts_mono: "lasts clk j w w1 \<Longrightarrow> j \<le> k \<Longrightarrow> lasts clk k w w1"
  by (simp add: lasts_def)

text \<open>The documented behaviour of the clock: it never goes back, reading it takes time.\<close>

definition ticks :: "('w \<Rightarrow> nat) \<Rightarrow> nat \<Rightarrow> nat \<Rightarrow> 'w posix \<Rightarrow> bool" where
  "ticks clk res d P \<longleftrightarrow> 0 < res \<and>
     (\<forall>w. fst (sys_tick P w) = of_nat (clk w div res) \<and> clk w < clk (snd (sys_tick P w)) \<and> lasts clk d w (snd (sys_tick P w)))"

text \<open>The calls that do not block, and the waits.\<close>

definition prompt :: "('w \<Rightarrow> nat) \<Rightarrow> nat \<Rightarrow> 'w posix \<Rightarrow> bool" where
  "prompt clk d P \<longleftrightarrow>
     (\<forall>w. lasts clk d w (snd (sys_socket P w)) \<and> lasts clk d w (snd (sys_epoll_create P w)) \<and>
        lasts clk d w (snd (sys_kqueue P w)) \<and> lasts clk d w (snd (ssl_ctx_new P w))) \<and>
     (\<forall>fd w. lasts clk d w (sys_close P fd w) \<and> lasts clk d w (snd (sys_getfl P fd w)) \<and>
        lasts clk d w (snd (sys_so_error P fd w))) \<and>
     (\<forall>fd f w. lasts clk d w (snd (sys_setfl P fd f w))) \<and>
     (\<forall>fd n w. lasts clk d w (snd (sys_read P fd n w))) \<and>
     (\<forall>fd ip port w. lasts clk d w (snd (sys_connect P fd ip port w))) \<and>
     (\<forall>ep ev w. lasts clk d w (snd (sys_epoll_add P ep ev w))) \<and>
     (\<forall>ctx w. lasts clk d w (snd (ssl_new P ctx w))) \<and>
     (\<forall>h fd w. lasts clk d w (ssl_set_fd P h fd w)) \<and>
     (\<forall>h w. lasts clk d w (snd (ssl_connect P h w)) \<and> lasts clk d w (ssl_free P h w))"

definition waits :: "('w \<Rightarrow> nat) \<Rightarrow> nat \<Rightarrow> nat \<Rightarrow> 'w posix \<Rightarrow> bool" where
  "waits clk res d P \<longleftrightarrow>
     (\<forall>ep n t w. 0 \<le> t \<longrightarrow> lasts clk (nat t * res + d) w (snd (sys_epoll_wait P ep n t w))) \<and>
     (\<forall>kq evs n sec nsec w. 0 \<le> sec \<longrightarrow>
        lasts clk (nat (sec * 1000 + nsec div 1000000) * res + d) w (snd (sys_kevent P kq evs n (Some (sec, nsec)) w)))"

text \<open>
  What the TLS connector relies on (the comment in \<^verbatim>\<open>PreSSLSelect\<close>): on a non-blocking socket the
  first \<^verbatim>\<open>SSL_connect\<close> does not succeed at once.
\<close>

definition no_early_tls :: "'w posix \<Rightarrow> bool" where
  "no_early_tls P \<longleftrightarrow> (\<forall>h w. fst (ssl_connect P h w) \<noteq> 1) \<and> (\<forall>h r w. r \<noteq> 1 \<longrightarrow> ssl_get_error P h r w \<noteq> SSL_ERROR_NONE)"

section \<open>How long the connectors' steps take\<close>

text \<open>A call made in a definition that takes the world apart.\<close>

lemma tickD:
  assumes "ticks clk res d P" "sys_tick P w = (now, w')"
  shows "now = of_nat (clk w div res)" "clk w < clk w'" "lasts clk d w w'" "0 < res"
  using assms by (auto simp: ticks_def split: prod.splits dest!: spec [of _ w])

lemma promptD:
  assumes "prompt clk d P"
  shows "sys_socket P w = (a, w') \<Longrightarrow> lasts clk d w w'"
    "sys_epoll_create P w = (a, w') \<Longrightarrow> lasts clk d w w'"
    "sys_kqueue P w = (a, w') \<Longrightarrow> lasts clk d w w'"
    "ssl_ctx_new P w = (b, w') \<Longrightarrow> lasts clk d w w'"
    "lasts clk d w (sys_close P fd w)"
    "sys_getfl P fd w = (a, w') \<Longrightarrow> lasts clk d w w'"
    "sys_so_error P fd w = (e, w') \<Longrightarrow> lasts clk d w w'"
    "sys_setfl P fd f w = (a, w') \<Longrightarrow> lasts clk d w w'"
    "sys_read P fd n w = (r, w') \<Longrightarrow> lasts clk d w w'"
    "sys_connect P fd ip port w = (a, w') \<Longrightarrow> lasts clk d w w'"
    "ssl_new P ctx w = (b, w') \<Longrightarrow> lasts clk d w w'"
    "lasts clk d w (ssl_set_fd P h fd w)"
    "ssl_connect P h w = (a, w') \<Longrightarrow> lasts clk d w w'"
    "lasts clk d w (ssl_free P h w)"
    "lasts clk d w (snd (sys_epoll_add P ep ev w))"
  using assms unfolding prompt_def by (metis snd_conv)+

lemma lasts_flags:
  assumes "prompt clk d P"
  shows "socket_set_noblo P fd w = (r, w') \<Longrightarrow> lasts clk (2 * d) w w'"
    "socket_set_blo P fd w = (r, w') \<Longrightarrow> lasts clk (2 * d) w w'"
  by (auto simp: socket_set_noblo_def socket_set_blo_def split: prod.splits if_splits
      dest!: promptD(6,8) [OF assms] elim: lasts_trans lasts_mono)

lemma lasts_Timeout:
  assumes "ticks clk res d P" "Connector_Timeout P c w = (t, w')"
  shows "lasts clk d w w'"
  using assms tickD(3) [OF assms(1), of w]
  by (auto simp: Connector_Timeout_def split: prod.splits if_splits)

lemma lasts_Close:
  assumes "prompt clk d P"
  shows "lasts clk (2 * d) w (snd (Connector_Close P c w))"
proof (cases "tc_socket c")
  case (Some so)
  have two: "lasts clk (2 * d) w (sys_close P fd (ssl_free P h w))" "lasts clk (2 * d) w (sys_close P fd w)" for fd h
    by (rule lasts_trans [OF promptD(14,5) [OF assms]], simp)
      (rule lasts_mono [OF promptD(5) [OF assms]], simp)
  show ?thesis
    using two by (cases so) (auto simp: Connector_Close_def Some TcpSocket_Close_def SSLSocket_Close_def Let_def split: option.splits)
qed (simp add: Connector_Close_def)

lemma lasts_Socket_Connect:
  assumes "prompt clk d P" "Socket_Connect P ctx so w = (a, w')"
  shows "lasts clk (4 * d) w w'"
proof (cases so)
  case (PlainSocket s)
  with assms(2) show ?thesis by auto
next
  case (SecureSocket s)
  obtain ctx' w1 where 1: "GetSSLContext P ctx w = (ctx', w1)" by force
  obtain ssl w2 where 2: "ssl_new P ctx' w1 = (ssl, w2)" by force
  have l1: "lasts clk d w w1" using 1 promptD(4) [OF assms(1)] by (auto simp: GetSSLContext_def split: if_splits)
  have l2: "lasts clk (2 * d) w w2" by (rule lasts_trans [OF l1 promptD(11) [OF assms(1) 2]]) simp
  show ?thesis
  proof (cases ssl)
    case None
    with assms(2) SecureSocket 1 2 have "w' = w2" by (auto simp: SSLSocket_Connect_def)
    with l2 show ?thesis by (auto intro: lasts_mono)
  next
    case (Some h)
    obtain r w4 where 4: "ssl_connect P h (ssl_set_fd P h (ts_socket s) w2) = (r, w4)" by force
    have "w' = w4" using assms(2) SecureSocket 1 2 4 Some by (auto simp: SSLSocket_Connect_def Let_def split: if_splits)
    moreover have "lasts clk (3 * d) w (ssl_set_fd P h (ts_socket s) w2)"
      by (rule lasts_trans [OF l2 promptD(12) [OF assms(1)]]) simp
    ultimately show ?thesis using promptD(13) [OF assms(1) 4] by (auto intro: lasts_trans)
  qed
qed

section \<open>Time and status\<close>

text \<open>The status only moves forward.\<close>

fun status_rank :: "ConnectorStatus \<Rightarrow> nat" where
  "status_rank ConnStatusStart = 5"
| "status_rank ConnStatusConnecting = 4"
| "status_rank ConnStatusStartSSL = 3"
| "status_rank ConnStatusSSLConnecting = 2"
| "status_rank _ = 1"

definition conn_rank :: "TcpConnector option \<Rightarrow> nat" where
  "conn_rank c = (case c of None \<Rightarrow> 0 | Some c' \<Rightarrow> status_rank (tc_status c'))"

lemma conn_rank_simps [simp]: "conn_rank None = 0" "conn_rank (Some c) = status_rank (tc_status c)"
  by (simp_all add: conn_rank_def)

lemma status_rank_pos [simp]: "0 < status_rank s"
  by (cases s) simp_all

text \<open>
  The time a connector started: a value of the clock between \<open>m0\<close>, when the race began, and \<open>n\<close>,
  with the deadline, in the units of \<open>clk\<close>, not after \<open>D\<close>.
\<close>

definition start_in :: "nat \<Rightarrow> nat \<Rightarrow> nat \<Rightarrow> nat \<Rightarrow> TcpConnector \<Rightarrow> bool" where
  "start_in res m0 n D c \<longleftrightarrow>
     (\<exists>s. tc_startConnTime c = of_nat s \<and> m0 \<le> s \<and> s \<le> n \<and> (s + unat (tc_connTimeout c)) * res \<le> D)"

lemma start_in_mono: "start_in res m0 n D c \<Longrightarrow> n \<le> n' \<Longrightarrow> D \<le> D' \<Longrightarrow> start_in res m0 n' D' c"
  unfolding start_in_def by (meson le_trans)

lemma start_in_cong:
  "tc_startConnTime c' = tc_startConnTime c \<Longrightarrow> tc_connTimeout c' = tc_connTimeout c \<Longrightarrow>
   start_in res m0 n D c' = start_in res m0 n D c"
  by (simp add: start_in_def)

lemma to_int_small:
  assumes "- (2 ^ 31) \<le> k" "k < 2 ^ 31"
  shows "to_int (word_of_int k) = k"
proof -
  have "(ucast (word_of_int k :: u64) :: u32) = word_of_int k"
    by (rule bit_word_eqI) (auto simp: bit_simps)
  then have "to_int (word_of_int k) = signed_take_bit 31 k" by (simp add: to_int_def signed_of_int)
  with assms show ?thesis by (simp add: signed_take_bit_int_eq_self)
qed

text \<open>\<^verbatim>\<open>Timeout()\<close> of a running connector is positive only before its deadline.\<close>

lemma Timeout_pos:
  assumes "ticks clk res d P" "start_in res m0 n D c" "n \<le> clk w div res"
    and "clk w div res + unat (tc_connTimeout c) < m0 + 2 ^ 31"
    and "Connector_Timeout P c w = (t, w')" "0 < t" "tc_status c \<in> {ConnStatusConnecting, ConnStatusSSLConnecting}"
  shows "clk w < D"
proof -
  let ?now = "clk w div res" and ?T = "unat (tc_connTimeout c)"
  have range: "- (2 ^ 31) \<le> int s + int T - int q \<and> int s + int T - int q < 2 ^ 31"
    if "q + T < m0 + 2 ^ 31" "m0 \<le> s" "s \<le> q" for q s T :: nat
    using that by simp
  obtain s where s: "tc_startConnTime c = of_nat s" "m0 \<le> s" "s \<le> n" "(s + ?T) * res \<le> D"
    using assms(2) by (auto simp: start_in_def)
  obtain now w1 where w1: "sys_tick P w = (now, w1)" by force
  have now: "now = of_nat ?now" by (rule tickD(1) [OF assms(1) w1])
  have "t = to_int (of_nat s + ucast (tc_connTimeout c) - of_nat ?now)"
    using assms(5,7) w1 now s(1) by (auto simp: Connector_Timeout_def)
  also have "of_nat s + ucast (tc_connTimeout c) - of_nat ?now = (word_of_int (int s + int ?T - int ?now) :: u64)"
    by simp
  also have "to_int \<dots> = int s + int ?T - int ?now"
    using range [OF assms(4) s(2)] assms(3) s(3) by (intro to_int_small) simp_all
  finally have "?now < s + ?T" using assms(6) by linarith
  then have "clk w < (s + ?T) * res" using tickD(4) [OF assms(1) w1] by (simp add: div_less_iff_less_mult)
  with s(4) show ?thesis by linarith
qed

abbreviation tls_phase :: "TcpConnector \<Rightarrow> bool" where
  "tls_phase c \<equiv> tc_status c = ConnStatusStartSSL \<or> tc_status c = ConnStatusSSLConnecting"

definition timely :: "u32 \<Rightarrow> nat \<Rightarrow> nat \<Rightarrow> nat \<Rightarrow> nat \<Rightarrow> TcpConnector \<Rightarrow> bool" where
  "timely T res m0 n D c \<longleftrightarrow> tc_connTimeout c = T \<and> tc_ssl c = ai_isTls (tc_addr c) \<and> (tls_phase c \<longrightarrow> tc_ssl c) \<and>
     (tc_status c = ConnStatusConnecting \<or> tls_phase c \<longrightarrow> start_in res m0 n D c)"

lemma timely_mono: "timely T res m0 n D c \<Longrightarrow> n \<le> n' \<Longrightarrow> D \<le> D' \<Longrightarrow> timely T res m0 n' D' c"
  unfolding timely_def by (blast intro: start_in_mono)

text \<open>The statuses at the head of an iteration, and after the first of its inner loops.\<close>

definition racing :: "TcpConnector \<Rightarrow> bool" where
  "racing c \<longleftrightarrow> tc_status c \<in> {ConnStatusStart, ConnStatusConnecting, ConnStatusStartSSL, ConnStatusSSLConnecting}"

definition polled :: "TcpConnector \<Rightarrow> bool" where
  "polled c \<longleftrightarrow> tc_status c \<in> {ConnStatusConnecting, ConnStatusSSLConnecting, ConnStatusError}"

text \<open>The number of events a selector hands to \<^verbatim>\<open>epoll_ctl\<close>.\<close>

fun nev :: "SocketSelect \<Rightarrow> nat" where
  "nev (SelEpoll s) = length (se_events s)"
| "nev (SelKqueue s) = 0"

lemma length_upd_first: "length (upd_first p f new xs) \<le> Suc (length xs)"
  by (induction xs) auto

lemma nev_set:
  "nev (SocketSelect_ReadFdSet fd sel) \<le> nev sel + 1"
  "nev (SocketSelect_WriteFdSet fd sel) \<le> nev sel + 1"
  "nev (SocketSelect_ExceptionFdSet fd sel) \<le> nev sel + 1"
  by (cases sel; simp add: SocketEpoll_ReadEvent_def SocketEpoll_WriteEvent_def SocketEpoll_ErrorEvent_def
      epoll_upd_def length_upd_first)+

lemma nev_set2:
  "nev (SocketSelect_ExceptionFdSet fd (SocketSelect_WriteFdSet fd' sel)) \<le> nev sel + 2"
  "nev (SocketSelect_ExceptionFdSet fd (SocketSelect_ReadFdSet fd' sel)) \<le> nev sel + 2"
  "nev (SocketSelect_WriteFdSet fd' (SocketSelect_ExceptionFdSet fd sel)) \<le> nev sel + 2"
  "nev (SocketSelect_ReadFdSet fd' (SocketSelect_ExceptionFdSet fd sel)) \<le> nev sel + 2"
  using nev_set(3) [of fd "SocketSelect_WriteFdSet fd' sel"] nev_set(3) [of fd "SocketSelect_ReadFdSet fd' sel"]
    nev_set(2) [of fd' "SocketSelect_ExceptionFdSet fd sel"] nev_set(1) [of fd' "SocketSelect_ExceptionFdSet fd sel"]
    nev_set [of fd' sel] nev_set [of fd sel] by linarith+

text \<open>What one \<^verbatim>\<open>PreSelect\<close> does to a connector in time.\<close>

definition pre_timed :: "('w \<Rightarrow> nat) \<Rightarrow> nat \<Rightarrow> nat \<Rightarrow> TcpConnector \<Rightarrow> SocketSelect \<Rightarrow> 'w \<Rightarrow> TcpConnector \<Rightarrow> SocketSelect \<Rightarrow> 'w \<Rightarrow> bool" where
  "pre_timed clk res d c sel w c' sel' w' \<longleftrightarrow> lasts clk (6 * d) w w' \<and> polled c' \<and> nev sel' \<le> nev sel + 2 \<and>
     tc_connTimeout c' = tc_connTimeout c \<and> tc_ssl c' = tc_ssl c \<and> tc_addr c' = tc_addr c \<and>
     (tls_phase c' \<longrightarrow> tls_phase c) \<and>
     (if tc_status c = ConnStatusStart
      then tc_status c' \<noteq> ConnStatusError \<longrightarrow>
        (\<exists>s. tc_startConnTime c' = of_nat s \<and> clk w div res \<le> s \<and> s \<le> clk w' div res)
      else tc_startConnTime c' = tc_startConnTime c \<and> conn_rank (Some c') \<le> conn_rank (Some c))"

lemma PreConnectSelect_timed:
  assumes "ticks clk res d P" "prompt clk d P" "PreConnectSelect P c sel w = ((c', sel'), w')" "tc_status c = ConnStatusStart"
  shows "pre_timed clk res d c sel w c' sel' w'"
proof -
  obtain fd w1 where 1: "sys_socket P w = (fd, w1)" by force
  obtain r w2 where 2: "socket_set_noblo P fd w1 = (r, w2)" by force
  obtain now w3 where 3: "sys_tick P w2 = (now, w3)" by force
  obtain r' w4 where 4: "sys_connect P fd (ai_ip (tc_addr c)) (ai_port (tc_addr c)) w3 = (r', w4)" by force
  have l1: "lasts clk (6 * d) w w1" using promptD(1) [OF assms(2) 1] by (rule lasts_mono) simp
  have l2: "lasts clk (3 * d) w w2" by (rule lasts_trans [OF promptD(1) [OF assms(2) 1] lasts_flags(1) [OF assms(2) 2]]) simp
  have l3: "lasts clk (4 * d) w w3" by (rule lasts_trans [OF l2 tickD(3) [OF assms(1) 3]]) simp
  have l4: "lasts clk (6 * d) w w4" by (rule lasts_trans [OF l3 promptD(10) [OF assms(2) 4]]) simp
  have "clk w div res \<le> clk w2 div res" "clk w2 div res \<le> clk w4 div res"
    using l2 tickD(2) [OF assms(1) 3] promptD(10) [OF assms(2) 4] by (auto simp: lasts_def intro: div_le_mono)
  then have s: "\<exists>s. now = of_nat s \<and> clk w div res \<le> s \<and> s \<le> clk w4 div res"
    using tickD(1) [OF assms(1) 3] by blast
  show ?thesis
    using assms(3,4) l1 l2 l4 s nev_set2(1) [of fd fd sel]
    by (auto simp: PreConnectSelect_def 1 2 3 4 pre_timed_def polled_def Let_def split: if_splits intro: lasts_mono)
qed

lemma PreSSLSelect_timed:
  assumes "prompt clk d P" "no_early_tls P" "PreSSLSelect P ctx c sel w = (Inr (c', sel', ctx'), w')" "tc_status c = ConnStatusStartSSL"
  shows "pre_timed clk res d c sel w c' sel' w'"
proof -
  obtain so where so: "tc_socket c = Some so" using assms(3) by (auto simp: PreSSLSelect_def split: option.splits)
  obtain e so' ctx1 w1 where 1: "Socket_Connect P ctx so w = ((e, so', ctx1), w1)" by (metis prod_cases3 surj_pair)
  have e: "e \<noteq> SSL_ERROR_NONE"
    using 1 assms(2) unfolding no_early_tls_def
    by (cases so) (auto simp: TcpSocket_Connect_def SSL_ERROR_NONE_def SSLSocket_Connect_def Let_def split: prod.splits option.splits if_splits, metis fst_conv)
  have l: "lasts clk (6 * d) w w1" using lasts_Socket_Connect [OF assms(1) 1] by (rule lasts_mono) simp
  show ?thesis
    using assms(3,4) 1 e l nev_set2
    by (auto simp: PreSSLSelect_def so seq_def lift_def pre_timed_def polled_def Let_def split: if_splits)
qed

lemma Connector_PreSelect_timed:
  assumes "ticks clk res d P" "prompt clk d P" "no_early_tls P" "racing c" "tls_phase c \<longrightarrow> tc_ssl c"
    and "Connector_PreSelect P ctx c sel w = (Inr (c', sel', ctx'), w')"
  shows "pre_timed clk res d c sel w c' sel' w'"
proof -
  have pc: "pre_timed clk res d c sel w c1 sel1 w1" "\<not> tls_phase c1"
    if "PreConnectSelect P c sel w = ((c1, sel1), w1)" "tc_status c = ConnStatusStart" for c1 sel1 w1
    using PreConnectSelect_timed [OF assms(1,2) that] that(2) by (auto simp: pre_timed_def)
  have ps: "pre_timed clk res d c sel w c1 sel1 w1"
    if "PreSSLSelect P ctx c sel w = (Inr (c1, sel1, ctx1), w1)" "tc_status c = ConnStatusStartSSL" for c1 sel1 ctx1 w1
    by (rule PreSSLSelect_timed [OF assms(2,3) that])
  have "tc_status c = ConnStatusStart \<or> tc_status c = ConnStatusConnecting \<or> tls_phase c"
    using assms(4) by (auto simp: racing_def)
  then show ?thesis
  proof (elim disjE)
    assume st: "tc_status c = ConnStatusStart"
    show ?thesis
    proof (cases "tc_ssl c")
      case True
      obtain c1 sel1 w1 where 1: "PreConnectSelect P c sel w = ((c1, sel1), w1)" by (metis surj_pair)
      from pc(2) [OF 1 st] True assms(6) st 1 have "(c', sel', w') = (c1, sel1, w1)"
        by (auto simp: Connector_PreSelect_def SSLConnector_PreSelect_def TcpConnector_PreSelect_def lift_def split: ConnectorStatus.splits)
      with pc(1) [OF 1 st] show ?thesis by simp
    next
      case False
      with assms(6) st pc(1) show ?thesis
        by (auto simp: Connector_PreSelect_def TcpConnector_PreSelect_def)
    qed
  next
    assume "tc_status c = ConnStatusConnecting"
    with assms(6) nev_set2(1) show ?thesis
      by (auto simp: Connector_PreSelect_def SSLConnector_PreSelect_def TcpConnector_PreSelect_def pre_timed_def polled_def
          split: if_splits option.splits)
  next
    assume st: "tc_status c = ConnStatusStartSSL"
    with assms(5,6) show ?thesis
      by (auto simp: Connector_PreSelect_def SSLConnector_PreSelect_def TcpConnector_PreSelect_def intro: ps)
  next
    assume "tc_status c = ConnStatusSSLConnecting"
    with assms(5,6) nev_set2(3,4) nev_set(3) show ?thesis
      by (auto simp: Connector_PreSelect_def SSLConnector_PreSelect_def TcpConnector_PreSelect_def pre_timed_def polled_def Let_def
          split: if_splits option.splits intro: le_SucI)
  qed
qed

text \<open>The deadlines the connectors have after their \<^verbatim>\<open>PreSelect\<close>.\<close>

lemma pre_timed_timely:
  assumes "pre_timed clk res d c sel w c' sel' w'" "timely T res m0 n D c" "racing c"
    and "m0 \<le> clk w div res" "n \<le> n'" "clk w' div res \<le> n'" "D \<le> D'"
    and "tc_status c = ConnStatusStart \<Longrightarrow> (clk w' div res + unat T) * res \<le> D'"
  shows "timely T res m0 n' D' c'"
proof (cases "tc_status c = ConnStatusStart")
  case True
  have "start_in res m0 n' D' c'" if run: "tc_status c' \<noteq> ConnStatusError"
  proof -
    obtain s where s: "tc_startConnTime c' = of_nat s" "clk w div res \<le> s" "s \<le> clk w' div res"
      using assms(1) True run by (auto simp: pre_timed_def)
    have T: "tc_connTimeout c' = T" using assms(1,2) by (simp add: pre_timed_def timely_def)
    have "(s + unat T) * res \<le> (clk w' div res + unat T) * res" using s(3) by (intro mult_le_mono1) simp
    also have "\<dots> \<le> D'" by (rule assms(8) [OF True])
    finally have "(s + unat T) * res \<le> D'" .
    with s T assms(4,6) show ?thesis unfolding start_in_def by (meson le_trans)
  qed
  with assms(1,2) True show ?thesis by (auto simp: timely_def pre_timed_def polled_def)
next
  case False
  then have "start_in res m0 n D c" using assms(2,3) by (auto simp: timely_def racing_def)
  moreover have "tc_startConnTime c' = tc_startConnTime c" "tc_connTimeout c' = tc_connTimeout c"
    using False assms(1) by (simp_all add: pre_timed_def)
  ultimately have "start_in res m0 n D c'" using start_in_cong [of c' c res m0 n D] by blast
  then have "start_in res m0 n' D' c'" by (rule start_in_mono [OF _ assms(5,7)])
  with False assms(1,2) show ?thesis by (auto simp: timely_def pre_timed_def)
qed

definition ranks :: "TcpConnector option list \<Rightarrow> nat" where
  "ranks cs = sum_list (map conn_rank cs)"

lemma ranks_simps [simp]:
  "ranks [] = 0" "ranks (c # cs) = conn_rank c + ranks cs" "ranks (as @ bs) = ranks as + ranks bs"
  by (simp_all add: ranks_def)

lemma pre_timed_rank: "pre_timed clk res d c sel w c' sel' w' \<Longrightarrow> conn_rank (Some c') \<le> conn_rank (Some c)"
  by (auto simp: pre_timed_def polled_def split: if_splits)

lemma pre_all_timed:
  assumes "ticks clk res d P" "prompt clk d P" "no_early_tls P"
  shows "list_all (live (\<lambda>c. racing c \<and> timely T res m0 n D c)) cs \<Longrightarrow>
     pre_all P ctx sel t cs w = (Inr (cs', ctx', sel', t'), w') \<Longrightarrow>
     lasts clk (7 * d * length cs) w w' \<and> t' \<le> t \<and> nev sel' \<le> nev sel + 2 * length cs \<and> ranks cs' \<le> ranks cs \<and>
     length cs' = length cs"
proof (induction cs arbitrary: ctx sel t w cs')
  case (Cons oc cs)
  show ?case
  proof (cases oc)
    case None
    with Cons show ?thesis by (fastforce elim: lasts_mono)
  next
    case (Some c)
    from Cons.prems(2) obtain c1 sel1 ctx1 w1 t1 w2 cs1 where
      1: "Connector_PreSelect P ctx c sel w = (Inr (c1, sel1, ctx1), w1)" and
      2: "Connector_Timeout P c1 w1 = (t1, w2)" and
      r: "pre_all P ctx1 sel1 (min t t1) cs w2 = (Inr (cs1, ctx', sel', t'), w')" and cs': "cs' = Some c1 # cs1"
      unfolding Some by auto
    have c: "racing c" "timely T res m0 n D c" using Cons.prems(1) Some by auto
    have p: "pre_timed clk res d c sel w c1 sel1 w1"
      by (rule Connector_PreSelect_timed [OF assms c(1) _ 1]) (use c(2) in \<open>auto simp: timely_def\<close>)
    have l2: "lasts clk (7 * d) w w2"
      using p by (intro lasts_trans [OF _ lasts_Timeout [OF assms(1) 2], of "6 * d"]) (auto simp: pre_timed_def)
    have IH: "lasts clk (7 * d * length cs) w2 w' \<and> t' \<le> min t t1 \<and> nev sel' \<le> nev sel1 + 2 * length cs \<and>
        ranks cs1 \<le> ranks cs \<and> length cs1 = length cs"
      by (rule Cons.IH [OF _ r]) (use Cons.prems(1) in auto)
    have "lasts clk (7 * d * length (oc # cs)) w w'"
      using IH by (intro lasts_trans [OF l2, of "7 * d * length cs"]) auto
    with IH p pre_timed_rank [OF p] show ?thesis by (auto simp: cs' Some pre_timed_def)
  qed
qed auto

lemma lasts_div: "lasts clk k w w' \<Longrightarrow> clk w div res \<le> clk w' div res"
  by (simp add: lasts_def div_le_mono)

lemma pre_all_timely:
  assumes "ticks clk res d P" "prompt clk d P" "no_early_tls P"
  shows "list_all (live (\<lambda>c. racing c \<and> timely T res m0 n D c)) cs \<Longrightarrow>
     pre_all P ctx sel t cs w = (Inr (cs', ctx', sel', t'), w') \<Longrightarrow>
     m0 \<le> clk w div res \<Longrightarrow> n \<le> n' \<Longrightarrow> clk w' div res \<le> n' \<Longrightarrow> D \<le> D' \<Longrightarrow>
     (list_ex isStart cs \<Longrightarrow> (clk w' div res + unat T) * res \<le> D') \<Longrightarrow>
     list_all (live (\<lambda>c. polled c \<and> timely T res m0 n' D' c)) cs'"
proof (induction cs arbitrary: ctx sel t w cs')
  case (Cons oc cs)
  show ?case
  proof (cases oc)
    case None
    with Cons show ?thesis by fastforce
  next
    case (Some c)
    from Cons.prems(2) obtain c1 sel1 ctx1 w1 t1 w2 cs1 where
      1: "Connector_PreSelect P ctx c sel w = (Inr (c1, sel1, ctx1), w1)" and
      2: "Connector_Timeout P c1 w1 = (t1, w2)" and
      r: "pre_all P ctx1 sel1 (min t t1) cs w2 = (Inr (cs1, ctx', sel', t'), w')" and cs': "cs' = Some c1 # cs1"
      unfolding Some by auto
    have c: "racing c" "timely T res m0 n D c" and cs: "list_all (live (\<lambda>c. racing c \<and> timely T res m0 n D c)) cs"
      using Cons.prems(1) Some by auto
    have p: "pre_timed clk res d c sel w c1 sel1 w1"
      by (rule Connector_PreSelect_timed [OF assms c(1) _ 1]) (use c(2) in \<open>auto simp: timely_def\<close>)
    have le: "clk w div res \<le> clk w1 div res" "clk w1 div res \<le> clk w2 div res" "clk w2 div res \<le> clk w' div res"
      using p lasts_Timeout [OF assms(1) 2] pre_all_timed [OF assms cs r] by (auto simp: pre_timed_def intro: lasts_div)
    have late: "(clk w1 div res + unat T) * res \<le> D'" if "tc_status c = ConnStatusStart"
    proof -
      have "(clk w1 div res + unat T) * res \<le> (clk w' div res + unat T) * res"
        using le by (intro mult_le_mono1) simp
      also have "\<dots> \<le> D'" using that by (intro Cons.prems(7)) (simp add: Some)
      finally show ?thesis .
    qed
    have "timely T res m0 n' D' c1"
      by (rule pre_timed_timely [OF p c(2,1) Cons.prems(3,4) _ Cons.prems(6) late]) (use le Cons.prems(5) in auto)
    moreover have "list_all (live (\<lambda>c. polled c \<and> timely T res m0 n' D' c)) cs1"
      by (rule Cons.IH [OF cs r _ Cons.prems(4,5,6)]) (use le Cons.prems(3,7) in auto)
    moreover have "polled c1" using p by (simp add: pre_timed_def)
    ultimately show ?thesis by (simp add: cs')
  qed
qed simp

text \<open>What one \<^verbatim>\<open>AfterSelect\<close> does: a connector that goes on waiting has a deadline ahead.\<close>

definition after_timed :: "('w \<Rightarrow> nat) \<Rightarrow> nat \<Rightarrow> nat \<Rightarrow> TcpConnector \<Rightarrow> 'w \<Rightarrow> TcpConnector \<Rightarrow> 'w \<Rightarrow> bool" where
  "after_timed clk d D c w c' w' \<longleftrightarrow> lasts clk (4 * d) w w' \<and>
     tc_startConnTime c' = tc_startConnTime c \<and> tc_connTimeout c' = tc_connTimeout c \<and> tc_ssl c' = tc_ssl c \<and>
     tc_addr c' = tc_addr c \<and>
     (tc_status c' = ConnStatusError \<or> tc_status c' = ConnStatusConnected \<or>
      tc_status c' = ConnStatusStartSSL \<and> tc_status c = ConnStatusConnecting \<and> ai_isTls (tc_addr c) \<or>
      tc_status c' = tc_status c \<and> clk w < D)"

lemma AfterConnectSelect_timed:
  assumes os: "ticks clk res d P" "prompt clk d P"
    and c: "tc_status c = ConnStatusConnecting" "start_in res m0 n D c"
    and now: "n \<le> clk w div res" "clk w div res + unat (tc_connTimeout c) < m0 + 2 ^ 31"
    and a: "AfterConnectSelect P c sel w = (c', w')"
  shows "after_timed clk d D c w c' w'"
proof (cases "tc_socket c")
  case None
  with a show ?thesis by (auto simp: AfterConnectSelect_def after_timed_def)
next
  case (Some so)
  let ?fd = "Socket_GetSocket so"
  obtain t w1 where 1: "Connector_Timeout P c w = (t, w1)" by force
  obtain e w2 where 2: "sys_so_error P ?fd w1 = (e, w2)" by (rule prod.exhaust)
  obtain now w3 where 3: "sys_tick P w1 = (now, w3)" by force
  obtain r w4 where 4: "socket_set_blo P ?fd w3 = (r, w4)" by force
  have l1: "lasts clk d w w1" by (rule lasts_Timeout [OF os(1) 1])
  have l2: "lasts clk (2 * d) w w2" by (rule lasts_trans [OF l1 promptD(7) [OF os(2) 2]]) simp
  have l3: "lasts clk (2 * d) w w3" by (rule lasts_trans [OF l1 tickD(3) [OF os(1) 3]]) simp
  have l4: "lasts clk (4 * d) w w4" by (rule lasts_trans [OF l3 lasts_flags(2) [OF os(2) 4]]) simp
  have l: "lasts clk (4 * d) w w1" "lasts clk (4 * d) w w2" "lasts clk (4 * d) w w3"
    using l1 l2 l3 by (auto elim: lasts_mono)
  have D: "clk w < D" if "0 < t"
    by (rule Timeout_pos [OF os(1) c(2) now 1 that]) (simp add: c(1))
  show ?thesis
    using a c(1) l l4 D by (auto simp: AfterConnectSelect_def Some 1 2 3 4 Let_def after_timed_def split: if_splits)
qed

lemma AfterSSLSelect_timed:
  assumes os: "ticks clk res d P" "prompt clk d P"
    and c: "tc_status c = ConnStatusSSLConnecting" "start_in res m0 n D c"
    and now: "n \<le> clk w div res" "clk w div res + unat (tc_connTimeout c) < m0 + 2 ^ 31"
    and a: "AfterSSLSelect P c sel w = (Inr c', w')"
  shows "after_timed clk d D c w c' w'"
proof -
  obtain so where so: "tc_socket c = Some so" using a by (auto simp: AfterSSLSelect_def split: option.splits)
  let ?fd = "Socket_GetSocket so"
  obtain t w1 where 1: "Connector_Timeout P c w = (t, w1)" by force
  have l1: "lasts clk d w w1" by (rule lasts_Timeout [OF os(1) 1])
  have l2: "lasts clk (4 * d) w w2" if "sys_so_error P ?fd w1 = (e, w2)" for e w2
    by (rule lasts_trans [OF l1 promptD(7) [OF os(2) that]]) simp
  have l4: "lasts clk (4 * d) w w4" if "sys_tick P w1 = (now, w3)" "socket_set_blo P ?fd w3 = (r, w4)" for now w3 r w4
    by (rule lasts_trans [OF l1 lasts_trans [OF tickD(3) [OF os(1) that(1)] lasts_flags(2) [OF os(2) that(2)] le_refl]]) simp
  have D: "clk w < D" if "0 < t"
    by (rule Timeout_pos [OF os(1) c(2) now 1 that]) (simp add: c(1))
  have l: "lasts clk (4 * d) w w1" using l1 by (rule lasts_mono) simp
  show ?thesis
    using a c(1) l D by (auto simp: AfterSSLSelect_def so 1 Let_def after_timed_def split: if_splits dest: l2 l4)
qed

lemma Connector_AfterSelect_timed:
  assumes os: "ticks clk res d P" "prompt clk d P"
    and c: "polled c" "timely T res m0 n D c"
    and now: "n \<le> clk w div res" "clk w div res + unat T < m0 + 2 ^ 31"
    and a: "Connector_AfterSelect P c sel w = (Inr c', w')"
  shows "after_timed clk d D c w c' w'"
proof -
  have T: "tc_connTimeout c = T" "tls_phase c \<longrightarrow> tc_ssl c" "tc_ssl c = ai_isTls (tc_addr c)" using c(2) unfolding timely_def by blast+
  consider "tc_status c = ConnStatusConnecting" | "tc_status c = ConnStatusSSLConnecting" | "tc_status c = ConnStatusError"
    using c(1) by (auto simp: polled_def)
  then show ?thesis
  proof cases
    case 1
    obtain c1 w1 where e: "AfterConnectSelect P c sel w = (c1, w1)" by force
    have t: "after_timed clk d D c w c1 w1"
      by (rule AfterConnectSelect_timed [OF os 1 _ now(1) _ e]) (use c(2) 1 T now(2) in \<open>auto simp: timely_def\<close>)
    then have "tc_status c1 \<noteq> ConnStatusSSLConnecting" using 1 by (auto simp: after_timed_def)
    then have "c' = c1 \<and> w' = w1"
      using a e 1 by (auto simp: Connector_AfterSelect_def SSLConnector_AfterSelect_def TcpConnector_AfterSelect_def
          split: if_splits ConnectorStatus.splits)
    with t show ?thesis by simp
  next
    case 2
    then have "AfterSSLSelect P c sel w = (Inr c', w')"
      using a T(2) by (auto simp: Connector_AfterSelect_def SSLConnector_AfterSelect_def TcpConnector_AfterSelect_def)
    with T c(2) 2 now(2) show ?thesis
      by (intro AfterSSLSelect_timed [OF os 2 _ now(1)]) (auto simp: timely_def)
  next
    case 3
    with a show ?thesis
      by (auto simp: Connector_AfterSelect_def SSLConnector_AfterSelect_def TcpConnector_AfterSelect_def after_timed_def split: if_splits)
  qed
qed

lemma after_timed_timely:
  assumes "after_timed clk d D c w c' w'" "timely T res m0 n D c" "tc_status c' \<noteq> ConnStatusError" "tc_status c' \<noteq> ConnStatusConnected"
  shows "timely T res m0 n D c'"
  using assms start_in_cong [of c' c res m0 n D] by (auto simp: after_timed_def timely_def)

lemma after_timed_rank:
  "after_timed clk d D c w c' w' \<Longrightarrow> polled c \<Longrightarrow> conn_rank (Some c') \<le> conn_rank (Some c)"
  by (auto simp: after_timed_def polled_def)

text \<open>
  The second inner loop. A connector that is still there afterwards has moved to another status
  or has its deadline ahead.
\<close>

definition survivors :: "u32 \<Rightarrow> nat \<Rightarrow> nat \<Rightarrow> nat \<Rightarrow> nat \<Rightarrow> ('w \<Rightarrow> nat) \<Rightarrow> 'w \<Rightarrow> int \<Rightarrow> int \<Rightarrow>
    TcpConnector option list \<Rightarrow> TcpConnector option list \<Rightarrow> bool" where
  "survivors T res m0 n D clk w e e' cs cs' \<longleftrightarrow>
     list_all (live (\<lambda>c. racing c \<and> timely T res m0 n D c)) cs' \<and> ranks cs' \<le> ranks cs \<and>
     (e' = e \<or> ranks cs' < ranks cs) \<and> (list_all (\<lambda>c. c = None) cs' \<or> ranks cs' < ranks cs \<or> clk w < D)"

text \<open>The step for a connector that is still there; \<open>IH\<close> is about the others.\<close>

lemma after_all_live_timed:
  assumes os: "ticks clk res d P" "prompt clk d P"
    and c: "polled c" "timely T res m0 n D c" "conn_ok c"
    and time: "n \<le> clk w div res" "clk w div res + unat T < m0 + 2 ^ 31"
    and run: "after_all P sel e (Some c # cs) w = (Inr (cs', e', so), w')"
    and IH: "\<And>e w2 cs'. lasts clk (6 * d) w w2 \<Longrightarrow> after_all P sel e cs w2 = (Inr (cs', e', so), w') \<Longrightarrow>
      lasts clk (6 * d * length cs) w2 w' \<and> (so = None \<longrightarrow> survivors T res m0 n D clk w2 e e' cs cs')"
  shows "lasts clk (6 * d * length (Some c # cs)) w w' \<and> (so = None \<longrightarrow> survivors T res m0 n D clk w e e' (Some c # cs) cs')"
proof -
  obtain c1 w1 where 1: "Connector_AfterSelect P c sel w = (Inr c1, w1)" using run by auto
  note t = Connector_AfterSelect_timed [OF os c(1,2) time 1]
  have l1: "lasts clk (4 * d) w w1" using t by (simp add: after_timed_def)
  consider (err) "tc_status c1 = ConnStatusError" | (conn) "tc_status c1 = ConnStatusConnected"
    | (on) "tc_status c1 \<noteq> ConnStatusError" "tc_status c1 \<noteq> ConnStatusConnected" by blast
  then show ?thesis
  proof cases
    case err
    obtain c2 w2 where 2: "Connector_Close P c1 w1 = (c2, w2)" by force
    have "lasts clk (2 * d) w1 w2" using lasts_Close [OF os(2), of w1 c1] 2 by simp
    then have l2: "lasts clk (6 * d) w w2" by (rule lasts_trans [OF l1]) simp
    obtain cs1 where r: "after_all P sel (- 1) cs w2 = (Inr (cs1, e', so), w')" and cs': "cs' = None # cs1"
      using run 1 2 err by auto
    note IH = IH [OF l2 r]
    have "lasts clk (6 * d * length (Some c # cs)) w w'" by (rule lasts_trans [OF l2 IH [THEN conjunct1]]) simp
    moreover have "ranks cs1 < ranks (Some c # cs)" if "ranks cs1 \<le> ranks cs"
      using that status_rank_pos [of "tc_status c"] by (simp del: status_rank_pos)
    ultimately show ?thesis using IH cs' by (auto simp: survivors_def)
  next
    case conn
    have "tc_status c \<noteq> ConnStatusStart" using c(1) by (auto simp: polled_def)
    from always_Inr [OF Connector_AfterSelect_ok [OF c(3) this] 1] have "tc_socket c1 \<noteq> None"
      using conn by (auto simp: after_rel_def conn_ok_def)
    moreover have "tc_socket c1 = so" "w' = w1" using run 1 conn by auto
    ultimately show ?thesis using lasts_mono [OF l1, of "6 * d * length (Some c # cs)"] by auto
  next
    case on
    obtain cs1 where r: "after_all P sel e cs w1 = (Inr (cs1, e', so), w')" and cs': "cs' = Some c1 # cs1"
      using run 1 on by auto
    have l6: "lasts clk (6 * d) w w1" using l1 by (rule lasts_mono) simp
    note IH = IH [OF l6 r]
    have l: "lasts clk (6 * d * length (Some c # cs)) w w'" by (rule lasts_trans [OF l6 IH [THEN conjunct1]]) simp
    have "racing c1" "conn_rank (Some c1) < conn_rank (Some c) \<or> clk w < D"
      using t on c(1) by (auto simp: after_timed_def polled_def racing_def)
    moreover have "timely T res m0 n D c1" by (rule after_timed_timely [OF t c(2) on])
    ultimately show ?thesis using IH l cs' after_timed_rank [OF t c(1)] by (auto simp: survivors_def)
  qed
qed

lemma after_all_timed:
  assumes os: "ticks clk res d P" "prompt clk d P"
  shows "list_all (live (\<lambda>c. conn_ok c \<and> polled c \<and> timely T res m0 n D c)) cs \<Longrightarrow>
     after_all P sel e cs w = (Inr (cs', e', so), w') \<Longrightarrow>
     n \<le> clk w div res \<Longrightarrow> (clk w + 6 * d * length cs) div res + unat T < m0 + 2 ^ 31 \<Longrightarrow>
     lasts clk (6 * d * length cs) w w' \<and> (so = None \<longrightarrow> survivors T res m0 n D clk w e e' cs cs')"
proof (induction cs arbitrary: e w cs')
  case (Cons oc cs)
  have cs: "list_all (live (\<lambda>c. conn_ok c \<and> polled c \<and> timely T res m0 n D c)) cs" using Cons.prems(1) by simp
  have div: "(clk w2 + 6 * d * length cs) div res + unat T < m0 + 2 ^ 31" "n \<le> clk w2 div res"
    if "lasts clk (6 * d) w w2" for w2
  proof -
    have "(clk w2 + 6 * d * length cs) div res \<le> (clk w + 6 * d * length (oc # cs)) div res"
      using that by (intro div_le_mono) (simp add: lasts_def)
    with Cons.prems(4) show "(clk w2 + 6 * d * length cs) div res + unat T < m0 + 2 ^ 31" by linarith
    show "n \<le> clk w2 div res" using Cons.prems(3) lasts_div [OF that, of res] by linarith
  qed
  show ?case
  proof (cases oc)
    case None
    then obtain cs1 where r: "after_all P sel e cs w = (Inr (cs1, e', so), w')" and cs': "cs' = None # cs1"
      using Cons.prems(2) by auto
    have "lasts clk (6 * d * length cs) w w' \<and> (so = None \<longrightarrow> survivors T res m0 n D clk w e e' cs cs1)"
      by (rule Cons.IH [OF cs r div(2,1)]) simp_all
    with None cs' show ?thesis by (auto simp: survivors_def elim: lasts_mono)
  next
    case (Some c)
    have c: "polled c" "timely T res m0 n D c" "conn_ok c" using Cons.prems(1) Some by auto
    have h: "clk w div res + unat T < m0 + 2 ^ 31"
      using Cons.prems(4) div_le_mono [of "clk w" "clk w + 6 * d * length (oc # cs)" res] by linarith
    show ?thesis
      unfolding Some
      by (rule after_all_live_timed [OF os c Cons.prems(3) h Cons.prems(2) [unfolded Some]]) (rule Cons.IH [OF cs _ div(2,1)])
  qed
qed (auto simp: survivors_def)

section \<open>One iteration\<close>

lemma fold_lasts: "(\<And>x w. lasts clk d w (f x w)) \<Longrightarrow> lasts clk (length xs * d) w (fold f xs w)"
proof (induction xs arbitrary: w)
  case (Cons x xs)
  then show ?case by (auto intro: lasts_trans [of clk d])
qed simp

lemma lasts_Clear: "prompt clk d P \<Longrightarrow> Breaker_Clear P b w = (r, b', w') \<Longrightarrow> lasts clk d w w'"
  by (auto simp: Breaker_Clear_def split: prod.splits option.splits dest: promptD(9))

lemma lasts_SelectFor:
  assumes "prompt clk d P" "waits clk res d P" "0 \<le> s" "SocketSelect_SelectFor P s sel b w = (a, w')"
  shows "lasts clk (nat (s * 1000) * res + (nev sel + 2) * d) w w'"
proof -
  have ms: "poll_ms s = s * 1000" using assms(3) by (simp add: poll_ms_def)
  show ?thesis
  proof (cases sel)
    case (SelEpoll se)
    let ?w1 = "fold (\<lambda>e w. snd (sys_epoll_add P (se_epfd se) e w)) (se_events se) w"
    obtain r evs w2 where 2: "sys_epoll_wait P (se_epfd se) (length (se_events se)) (s * 1000) ?w1 = ((r, evs), w2)" by (metis surj_pair)
    obtain q b' w3 where 3: "Breaker_Clear P b w2 = (q, b', w3)" by (metis prod_cases3)
    have "w' = w3" using assms(4) SelEpoll 2 3 by (auto simp: SocketEpoll_Poll_def ms Let_def split: prod.splits)
    moreover have "lasts clk (nev sel * d) w ?w1"
      unfolding SelEpoll nev.simps by (rule fold_lasts) (rule promptD(15) [OF assms(1)])
    moreover have "lasts clk (nat (s * 1000) * res + d) ?w1 w2"
      using assms(2,3) 2 unfolding waits_def by (metis mult_nonneg_nonneg snd_conv zero_le_numeral)
    moreover have "lasts clk d w2 w3" by (rule lasts_Clear [OF assms(1) 3])
    ultimately show ?thesis by (auto simp: lasts_def)
  next
    case (SelKqueue sk)
    obtain r evs w2 where 2: "sys_kevent P (sk_kq sk) (sk_events sk) (length (sk_events sk)) (Some (s, 0)) w = ((r, evs), w2)"
      by (metis surj_pair)
    obtain q b' w3 where 3: "Breaker_Clear P b w2 = (q, b', w3)" by (metis prod_cases3)
    have "s * 1000 \<noteq> - 1" using assms(3) by linarith
    then have "w' = w3" using assms(4) SelKqueue 2 3 by (auto simp: SocketKqueue_Poll_def ms Let_def split: prod.splits)
    moreover have "lasts clk (nat (s * 1000 + 0 div 1000000) * res + d) w w2"
      using assms(2,3) 2 unfolding waits_def by (metis snd_conv)
    moreover have "lasts clk d w2 w3" by (rule lasts_Clear [OF assms(1) 3])
    ultimately show ?thesis by (auto simp: lasts_def)
  qed
qed

lemma select_bounds:
  assumes "prompt clk d P"
  shows "SocketSelect_new apple P b junk w = (sel, w') \<Longrightarrow> lasts clk d w w' \<and> nev (SocketSelect_PreSelect sel) \<le> 1"
    "lasts clk d w (SocketSelect_delete P sel w)"
  using promptD(5) [OF assms]
  by (auto simp: SocketSelect_new_def SocketKqueue_new_def SocketEpoll_new_def SocketEpoll_ClearEvent_def SocketKqueue_ClearEvent_def
      Let_def split: prod.splits if_splits dest: promptD(2,3) [OF assms])
    (cases sel; simp add: SocketEpoll_delete_def SocketKqueue_delete_def)

text \<open>The steps of an iteration, one after the other.\<close>

lemma round_steps:
  assumes "impatient_round apple junk P cc st w = (Inr (stop, st'), w')"
  obtains cur wa sel0 wb t1 st1 wc cs ctx sel2 t2 wd r sel3 b we where
    "sys_tick P w = (cur, wa)" "SocketSelect_new apple P (im_breaker st) junk wa = (sel0, wb)"
    "t1 \<le> sint (cc_timeout cc)"
    "st1 = st \<and> wc = wb \<and> (im_index st < length (im_connectors st) \<and> runningCount (im_connectors st) < unat (cc_maxConnect cc) \<longrightarrow>
        to_int (cur - im_lastStartConnTime st) < sint (if im_lastError st = 0 then cc_interval cc else cc_errorInterval cc)) \<or>
     (\<exists>now. sys_tick P wb = (now, wc) \<and> im_index st < length (im_connectors st) \<and> runningCount (im_connectors st) < unat (cc_maxConnect cc) \<and>
        st1 = st\<lparr>im_lastStartConnTime := now, im_lastError := 0, im_index := im_index st + 1\<rparr>)"
    "pre_all P (im_ctx st1) (SocketSelect_PreSelect sel0) t1 (take (im_index st1) (im_connectors st1)) wc = (Inr (cs, ctx, sel2, t2), wd)"
    "SocketSelect_SelectFor P (max 0 t2 div 1000) sel2 (im_breaker st1) wd = ((r, sel3, b), we)"
    "stop \<and> w' = SocketSelect_delete P sel3 we \<and> im_connectors st' = cs @ drop (im_index st1) (im_connectors st1) \<or>
     (\<exists>cs' e so wf. after_all P sel3 (im_lastError st1) (take (im_index st1) (cs @ drop (im_index st1) (im_connectors st1))) we =
          (Inr (cs', e, so), wf) \<and> w' = SocketSelect_delete P sel3 wf \<and>
        stop = (list_all (\<lambda>c. c = None) (im_connectors st') \<or> so \<noteq> None) \<and>
        im_connectors st' = cs' @ drop (im_index st1) (cs @ drop (im_index st1) (im_connectors st1)) \<and> im_lastError st' = e \<and>
        im_index st' = im_index st1 \<and> im_lastStartConnTime st' = im_lastStartConnTime st1)"
proof -
  let ?next = "sint (if im_lastError st = 0 then cc_interval cc else cc_errorInterval cc)"
  from assms [unfolded impatient_round_def Let_def] show thesis
  proof (elim seq_InrE, goal_cases)
    case (1 cur wa sel0 wb tst wc)
    obtain t1 st1 where tst: "tst = (t1, st1)" by force
    have t1: "t1 \<le> sint (cc_timeout cc)" using 1(3) tst by (auto split: if_splits)
    have tick: "sys_tick P w = (cur, wa)" and new: "SocketSelect_new apple P (im_breaker st) junk wa = (sel0, wb)"
      using 1(1,2) by simp_all
    note pick = 1(3) [unfolded tst]
    from 1(4) [unfolded tst split] show ?case
    proof (elim seq_InrE, goal_cases)
      case (1 x wd)
      obtain cs ctx sel2 t2 where x: "x = (cs, ctx, sel2, t2)" by (metis prod_cases4)
      note pre = 1(1) [unfolded x]
      from 1(2) [unfolded x split] show ?case
      proof (elim seq_InrE, goal_cases)
        case (1 y we)
        obtain r sel3 b where y: "y = (r, sel3, b)" by (metis prod_cases3)
        have sel: "SocketSelect_SelectFor P (max 0 t2 div 1000) sel2 (im_breaker st1) wd = ((r, sel3, b), we)" using 1(1) y by simp
        show ?case
        proof (rule that [OF tick new t1 _ pre sel], goal_cases)
          case p: 1
          from pick show ?case by (auto split: if_splits)
        next
          case p: 2
          show ?case
          proof (cases "r < 0 \<or> SocketSelect_IsException sel3 b \<or> SocketSelect_IsBreak sel3 b")
            case True
            with 1(2) show ?thesis unfolding y split by auto
          next
            case False
            from 1(2) [unfolded y split if_not_P [OF False]] show ?thesis by (elim seq_InrE) (auto simp: Let_def)
          qed
        qed
      qed
    qed
  qed
qed

text \<open>The longest an iteration over \<open>n\<close> connectors takes, and the longest interval between two starts.\<close>

definition round_units :: "nat \<Rightarrow> nat \<Rightarrow> ComplexConnect \<Rightarrow> nat \<Rightarrow> nat" where
  "round_units res d cc n = unat (cc_timeout cc) * res + (7 + 15 * n) * d"

definition start_gap :: "ComplexConnect \<Rightarrow> nat" where
  "start_gap cc = max (unat (cc_interval cc)) (unat (cc_errorInterval cc))"

definition race_rank :: "impatient \<Rightarrow> nat" where
  "race_rank st = ranks (im_connectors st) + (length (im_connectors st) - im_index st)"

definition race_time :: "('w \<Rightarrow> nat) \<Rightarrow> nat \<Rightarrow> ComplexConnect \<Rightarrow> nat \<Rightarrow> nat \<Rightarrow> impatient \<Rightarrow> 'w \<Rightarrow> bool" where
  "race_time clk res cc m0 D st w \<longleftrightarrow> m0 \<le> clk w div res \<and>
     list_all (live (\<lambda>c. racing c \<and> timely (cc_timeout cc) res m0 (clk w div res) D c)) (im_connectors st) \<and>
     (\<exists>l. im_lastStartConnTime st = word_of_int l \<and> int m0 \<le> l + int (start_gap cc) \<and> l \<le> int (clk w div res) \<and>
        (l + int (start_gap cc)) * int res \<le> int D)"

lemma live_mono: "list_all (live Q) cs \<Longrightarrow> (\<And>c. Q c \<Longrightarrow> R c) \<Longrightarrow> list_all (live R) cs"
  by (auto simp: list_all_iff live_def split: option.splits)

lemma live_conj: "list_all (live (\<lambda>c. Q c \<and> R c)) cs \<longleftrightarrow> list_all (live Q) cs \<and> list_all (live R) cs"
  by (auto simp: list_all_iff live_def split: option.splits)

lemma ranks_0: "ranks cs = 0 \<longleftrightarrow> list_all (\<lambda>c. c = None) cs"
proof (induction cs)
  case (Cons c cs)
  then show ?case by (cases c) auto
qed simp

lemma none_running: "list_all (\<lambda>c. c = None) cs \<Longrightarrow> runningCount cs = 0"
  by (induction cs) auto

text \<open>The last deadline is not later than the longest timeout and interval from now.\<close>

lemma timely_fresh:
  assumes "timely T res m0 n D c"
  shows "timely T res m0 n ((n + unat T + g) * res) c"
proof -
  have "start_in res m0 n ((n + unat T + g) * res) c" if st: "start_in res m0 n D c"
  proof -
    obtain s where s: "tc_startConnTime c = of_nat s" "m0 \<le> s" "s \<le> n" using st unfolding start_in_def by blast
    have "(s + unat T) * res \<le> (n + unat T + g) * res" using s(3) by (intro mult_le_mono1) simp
    with s assms show ?thesis unfolding start_in_def timely_def by blast
  qed
  with assms show ?thesis by (auto simp: timely_def)
qed

lemma race_time_fresh:
  assumes "race_time clk res cc m0 D st w"
  shows "race_time clk res cc m0 ((clk w div res + unat (cc_timeout cc) + start_gap cc) * res) st w"
proof -
  let ?n = "clk w div res" and ?g = "start_gap cc" and ?T = "unat (cc_timeout cc)"
  obtain l where l: "im_lastStartConnTime st = word_of_int l" "int m0 \<le> l + int ?g" "l \<le> int ?n"
    using assms by (auto simp: race_time_def)
  have "(l + int ?g) * int res \<le> int (?n + ?T + ?g) * int res"
    using l(3) by (intro mult_right_mono) linarith+
  then have "(l + int ?g) * int res \<le> int ((?n + ?T + ?g) * res)" by simp
  moreover have "list_all (live (\<lambda>c. racing c \<and> timely (cc_timeout cc) res m0 ?n ((?n + ?T + ?g) * res) c)) (im_connectors st)"
    using assms by (auto simp: race_time_def intro: live_mono timely_fresh)
  ultimately show ?thesis using assms l unfolding race_time_def by blast
qed

lemma sint_le_unat: "sint i \<le> int (unat (i :: u32))"
proof -
  have "take_bit 32 (uint i) \<le> uint i" by (simp add: take_bit_int_less_eq_self_iff)
  then show ?thesis by (simp add: sint_uint signed_take_bit_eq_take_bit_minus)
qed

lemma next_start_ahead:
  assumes "ticks clk res d P" "race_time clk res cc m0 D st w" "sys_tick P w = (cur, wa)"
    and "to_int (cur - im_lastStartConnTime st) < sint (if im_lastError st = 0 then cc_interval cc else cc_errorInterval cc)"
    and "clk w div res + start_gap cc < m0 + 2 ^ 31"
  shows "clk w < D"
proof -
  let ?n = "clk w div res" and ?g = "start_gap cc"
  obtain l where l: "im_lastStartConnTime st = word_of_int l" "int m0 \<le> l + int ?g" "l \<le> int ?n"
      "(l + int ?g) * int res \<le> int D" and m0: "m0 \<le> ?n"
    using assms(2) by (auto simp: race_time_def)
  have range: "int q - l < 2 ^ 31" "g < 2 ^ 31" if "q + g < m0 + 2 ^ 31" "int m0 \<le> l + int g" "m0 \<le> q" for q g
    using that by simp_all
  have "cur - im_lastStartConnTime st = word_of_int (int ?n - l)"
    using tickD(1) [OF assms(1,3)] l(1) by simp
  then have "to_int (cur - im_lastStartConnTime st) = int ?n - l"
    using range(1) [OF assms(5) l(2) m0] l(3) by (simp only:) (rule to_int_small, simp_all)
  moreover have "sint (if im_lastError st = 0 then cc_interval cc else cc_errorInterval cc) \<le> int ?g"
    using sint_le_unat by (simp add: start_gap_def of_nat_max le_max_iff_disj)
  ultimately have n: "int ?n + 1 \<le> l + int ?g" using assms(4) by linarith
  have "clk w < (?n + 1) * res" using dividend_less_div_times [of res "clk w"] tickD(4) [OF assms(1,3)] by simp
  then have "int (clk w) < (int ?n + 1) * int res" by (metis of_nat_Suc of_nat_less_iff of_nat_mult Suc_eq_plus1 add.commute)
  also have "\<dots> \<le> (l + int ?g) * int res" by (rule mult_right_mono [OF n]) simp
  finally show ?thesis using l(4) by linarith
qed

lemma lasts_race_select:
  assumes "prompt clk d P" "waits clk res d P" "t \<le> sint (T :: u32)" "nev sel \<le> v"
    and "SocketSelect_SelectFor P (max 0 t div 1000) sel b w = (a, w')"
  shows "lasts clk (unat T * res + (v + 2) * d) w w'"
proof -
  let ?s = "max 0 t div 1000"
  have "?s * 1000 \<le> max 0 t" by simp
  also have "\<dots> \<le> int (unat T)" using assms(3) sint_le_unat [of T] by linarith
  finally have "nat (?s * 1000) * res \<le> unat T * res" by (intro mult_le_mono1) linarith
  moreover have "(nev sel + 2) * d \<le> (v + 2) * d" using assms(4) by (intro mult_le_mono1) simp
  ultimately have "nat (?s * 1000) * res + (nev sel + 2) * d \<le> unat T * res + (v + 2) * d" by (rule add_mono)
  then show ?thesis by (intro lasts_mono [OF lasts_SelectFor [OF assms(1,2) _ assms(5)]]) simp_all
qed

text \<open>
  The connectors of an iteration in time: \<open>st1\<close> is the state after the choice whether to start the next
  server, \<open>cs\<close> are the connectors after the first inner loop, at the world \<open>we\<close> of the second.
\<close>

definition racers :: "ComplexConnect \<Rightarrow> nat \<Rightarrow> nat \<Rightarrow> nat \<Rightarrow> nat \<Rightarrow> TcpConnector option list \<Rightarrow> bool" where
  "racers cc res m0 n D cs \<longleftrightarrow> list_all (live (\<lambda>c. racing c \<and> timely (cc_timeout cc) res m0 n D c)) cs"

lemma racers_mono: "racers cc res m0 n D cs \<Longrightarrow> n \<le> n' \<Longrightarrow> D \<le> D' \<Longrightarrow> racers cc res m0 n' D' cs"
  unfolding racers_def by (erule live_mono) (blast intro: timely_mono)

lemma racers_split: "racers cc res m0 n D cs \<longleftrightarrow> racers cc res m0 n D (take k cs) \<and> racers cc res m0 n D (drop k cs)"
  unfolding racers_def by (metis append_take_drop_id list_all_append)

text \<open>The first inner loop and the wait.\<close>

lemma pre_select_timed:
  assumes os: "ticks clk res d P" "prompt clk d P" "waits clk res d P" "no_early_tls P"
    and cs: "racers cc res m0 n D cs"
    and pre: "pre_all P ctx sel1 t1 cs wc = (Inr (cs1, ctx', sel2, t2), wd)" "nev sel1 \<le> 1" "t1 \<le> sint (cc_timeout cc)"
    and sel: "SocketSelect_SelectFor P (max 0 t2 div 1000) sel2 b wd = (a, we)"
  shows "lasts clk (7 * d * length cs) wc wd" "lasts clk (unat (cc_timeout cc) * res + (1 + 2 * length cs + 2) * d) wd we"
    "ranks cs1 \<le> ranks cs" "length cs1 = length cs"
proof -
  note pt = pre_all_timed [OF os(1,2,4) cs [unfolded racers_def] pre(1)]
  then show "lasts clk (7 * d * length cs) wc wd" "ranks cs1 \<le> ranks cs" "length cs1 = length cs" by auto
  show "lasts clk (unat (cc_timeout cc) * res + (1 + 2 * length cs + 2) * d) wd we"
    by (rule lasts_race_select [OF os(2,3) _ _ sel]) (use pt pre(2,3) in auto)
qed

text \<open>The two inner loops, from the world \<open>wc\<close> to the world \<open>wf\<close>.\<close>

lemma inner_loops_timed:
  assumes os: "ticks clk res d P" "prompt clk d P" "waits clk res d P" "no_early_tls P"
    and cs: "racers cc res m0 n D cs" "list_all (live conn_ok) cs" "m0 \<le> clk wc div res" "n \<le> clk wc div res"
    and pre: "pre_all P ctx sel1 t1 cs wc = (Inr (cs1, ctx', sel2, t2), wd)" "nev sel1 \<le> 1" "t1 \<le> sint (cc_timeout cc)"
    and sel: "SocketSelect_SelectFor P (max 0 t2 div 1000) sel2 b wd = (a, we)"
    and after: "after_all P sel3 e cs1 we = (Inr (cs2, e', so), wx)"
    and D: "D \<le> D'" "list_ex isStart cs \<Longrightarrow> (clk wd div res + unat (cc_timeout cc)) * res \<le> D'"
    and hor: "(clk wc + (unat (cc_timeout cc) * res + (3 + 15 * length cs) * d)) div res + unat (cc_timeout cc) < m0 + 2 ^ 31"
  shows "lasts clk (unat (cc_timeout cc) * res + (3 + 15 * length cs) * d) wc wx"
    "so = None \<Longrightarrow> racers cc res m0 (clk wx div res) D' cs2 \<and> ranks cs2 \<le> ranks cs \<and> (list_all (\<lambda>c. c = None) cs2 \<or> ranks cs2 < ranks cs \<or> clk wc < D')"
    "length cs2 = length cs"
proof -
  let ?T = "unat (cc_timeout cc)" and ?k = "length cs"
  note pt = pre_select_timed [OF os cs(1) pre sel]
  note ld = pt(1) and le = pt(2) and k = pt(4)
  have n: "clk wc div res \<le> clk wd div res" "clk wd div res \<le> clk we div res" by (rule lasts_div [OF ld], rule lasts_div [OF le])
  have tm: "list_all (live (\<lambda>c. polled c \<and> timely (cc_timeout cc) res m0 (clk wd div res) D' c)) cs1"
    by (rule pre_all_timely [OF os(1,2,4) cs(1) [unfolded racers_def] pre(1), OF cs(3) _ _ D(1)]) (use n cs(4) D(2) in auto)
  have st: "list_all (live started) cs1" using always_Inr [OF pre_all_ok [OF cs(2)] pre(1)] by simp
  have ok: "list_all (live (\<lambda>c. conn_ok c \<and> polled c \<and> timely (cc_timeout cc) res m0 (clk wd div res) D' c)) cs1"
    using tm st by (simp add: live_conj)
  have "(clk we + 6 * d * length cs1) div res \<le> (clk wc + (?T * res + (3 + 15 * ?k) * d)) div res"
    using ld le k by (intro div_le_mono) (simp add: lasts_def algebra_simps)
  then have h: "(clk we + 6 * d * length cs1) div res + ?T < m0 + 2 ^ 31" using hor by linarith
  note at = after_all_timed [OF os(1,2) ok after, OF n(2) h]
  have lf: "lasts clk (6 * d * ?k) we wx" using at k by simp
  show "lasts clk (?T * res + (3 + 15 * ?k) * d) wc wx" using ld le lf by (simp add: lasts_def algebra_simps)
  show "length cs2 = length cs" using always_Inr [OF after_all_ok [OF st] after] k by simp
  assume "so = None"
  then have s: "survivors (cc_timeout cc) res m0 (clk wd div res) D' clk we e e' cs1 cs2" using at by blast
  then have "racers cc res m0 (clk wd div res) D' cs2" by (simp add: survivors_def racers_def)
  then have "racers cc res m0 (clk wx div res) D' cs2"
    by (rule racers_mono [OF _ le_trans [OF n(2) lasts_div [OF lf]] le_refl])
  moreover have "clk wc \<le> clk we" using ld le by (simp add: lasts_def)
  ultimately show "racers cc res m0 (clk wx div res) D' cs2 \<and> ranks cs2 \<le> ranks cs \<and>
      (list_all (\<lambda>c. c = None) cs2 \<or> ranks cs2 < ranks cs \<or> clk wc < D')"
    using s pt(3) unfolding survivors_def by linarith
qed

text \<open>With no connector running, the iteration waits for the time of the next start.\<close>

lemma idle_race_waits:
  assumes "ticks clk res d P" "race_time clk res cc m0 D st w" "sys_tick P w = (cur, wa)" "race_ok cc st"
    and "clk w div res + start_gap cc < m0 + 2 ^ 31" "0 < unat (cc_maxConnect cc)"
    and "im_index st < length (im_connectors st)" "list_all (\<lambda>c. c = None) (take (im_index st) (im_connectors st))"
    and "im_index st < length (im_connectors st) \<and> runningCount (im_connectors st) < unat (cc_maxConnect cc) \<longrightarrow>
      to_int (cur - im_lastStartConnTime st) < sint (if im_lastError st = 0 then cc_interval cc else cc_errorInterval cc)"
  shows "clk w < D"
proof (rule next_start_ahead [OF assms(1-3) _ assms(5)])
  have "runningCount (drop (im_index st) (im_connectors st)) = 0"
    using assms(4) by (intro waiting_not_running) (simp add: race_ok_def)
  with none_running [OF assms(8)] have "runningCount (im_connectors st) = 0"
    using runningCount_split [of "im_connectors st" "im_index st"] by simp
  with assms(6,7,9) show "to_int (cur - im_lastStartConnTime st) <
      sint (if im_lastError st = 0 then cc_interval cc else cc_errorInterval cc)" by simp
qed

lemma race_timeI:
  assumes "racers cc res m0 (clk w div res) D (im_connectors st)" "m0 \<le> clk w div res"
    and "im_lastStartConnTime st = word_of_int l" "int m0 \<le> l + int (start_gap cc)" "l \<le> int (clk w div res)"
    and "(l + int (start_gap cc)) * int res \<le> int D"
  shows "race_time clk res cc m0 D st w"
  using assms unfolding race_time_def racers_def by blast

text \<open>An iteration that starts no server, and one that does.\<close>

lemma race_rank_step:
  assumes "im_connectors st' = cs' @ drop k (im_connectors st)" "length cs' = k" "im_index st' = k" "k \<le> length (im_connectors st)"
    and "ranks cs' \<le> ranks (take k (im_connectors st))" "im_index st \<le> k"
  shows "race_rank st' + (k - im_index st) + (ranks (take k (im_connectors st)) - ranks cs') = race_rank st"
  using assms ranks_simps(3) [of "take k (im_connectors st)" "drop k (im_connectors st)"] by (simp add: race_rank_def)

lemma race_same_index:
  assumes os: "ticks clk res d P" and st: "race_ok cc st" "race_time clk res cc m0 D st w" "0 < unat (cc_maxConnect cc)"
    and tick: "sys_tick P w = (cur, wa)" and hor: "clk w div res + start_gap cc < m0 + 2 ^ 31" "clk w div res \<le> clk w' div res"
    and idle: "im_index st < length (im_connectors st) \<and> runningCount (im_connectors st) < unat (cc_maxConnect cc) \<longrightarrow>
      to_int (cur - im_lastStartConnTime st) < sint (if im_lastError st = 0 then cc_interval cc else cc_errorInterval cc)"
    and st': "im_connectors st' = cs' @ drop (im_index st) (im_connectors st)" "length cs' = im_index st" "im_index st' = im_index st"
      "im_lastStartConnTime st' = im_lastStartConnTime st"
    and rac: "racers cc res m0 (clk w' div res) D (im_connectors st')" and go: "\<not> list_all (\<lambda>c. c = None) (im_connectors st')"
    and surv: "ranks cs' \<le> ranks (take (im_index st) (im_connectors st))"
      "list_all (\<lambda>c. c = None) cs' \<or> ranks cs' < ranks (take (im_index st) (im_connectors st)) \<or> clk w < D"
  shows "race_time clk res cc m0 D st' w' \<and> (race_rank st' < race_rank st \<or> race_rank st' = race_rank st \<and> clk w < D)"
proof -
  let ?cs = "im_connectors st" and ?k = "im_index st"
  obtain l where l: "im_lastStartConnTime st' = word_of_int l" "int m0 \<le> l + int (start_gap cc)" "l \<le> int (clk w div res)"
      "(l + int (start_gap cc)) * int res \<le> int D" and m0: "m0 \<le> clk w div res" using st(2) st'(4) by (auto simp: race_time_def)
  have t: "race_time clk res cc m0 D st' w'"
    by (rule race_timeI [where clk = clk, OF rac _ l(1,2) _ l(4)]) (use m0 hor(2) l(3) in linarith)+
  have k: "?k \<le> length ?cs" using st(1) by (simp add: race_ok_def)
  note rk = race_rank_step [OF st'(1-3) k surv(1) le_refl]
  have "clk w < D" if eq: "ranks cs' = ranks (take ?k ?cs)"
  proof (cases "list_all (\<lambda>c. c = None) cs'")
    case True
    then have "list_all (\<lambda>c. c = None) (take ?k ?cs)" using eq ranks_0 [of cs'] ranks_0 [of "take ?k ?cs"] by simp
    moreover have "?k < length ?cs" using go True st'(1) by (cases "?k < length ?cs") auto
    ultimately show ?thesis using idle_race_waits [OF os st(2) tick st(1) hor(1) st(3) _ _ idle] by blast
  next
    case False
    with surv(2) eq show ?thesis by simp
  qed
  with t rk surv(1) show ?thesis by (cases "ranks cs' = ranks (take ?k ?cs)") auto
qed

lemma race_next_index:
  assumes os: "ticks clk res d P" and tick: "sys_tick P wb = (now, wc)" and D: "(n + start_gap cc) * res \<le> D"
    and le: "m0 \<le> clk wb div res" "clk wb div res \<le> n" "clk wb div res \<le> clk w' div res"
    and st': "im_connectors st' = cs' @ drop (Suc (im_index st)) (im_connectors st)" "length cs' = Suc (im_index st)"
      "im_index st' = Suc (im_index st)" "im_lastStartConnTime st' = now" "im_index st < length (im_connectors st)"
    and rac: "racers cc res m0 (clk w' div res) D (im_connectors st')"
    and surv: "ranks cs' \<le> ranks (take (Suc (im_index st)) (im_connectors st))"
  shows "race_time clk res cc m0 D st' w' \<and> race_rank st' < race_rank st"
proof -
  let ?l = "clk wb div res"
  have "(?l + start_gap cc) * res \<le> (n + start_gap cc) * res" using le(2) by (intro mult_le_mono1) simp
  also note D
  finally have "(int ?l + int (start_gap cc)) * int res \<le> int D" by (metis of_nat_add of_nat_mult of_nat_le_iff)
  moreover have "im_lastStartConnTime st' = word_of_int (int ?l)" using st'(4) tickD(1) [OF os tick] by simp
  ultimately have "race_time clk res cc m0 D st' w'"
    by (intro race_timeI [where clk = clk and l = "int ?l", OF rac]) (use le in auto)
  moreover have "race_rank st' < race_rank st"
    using race_rank_step [OF st'(1-3) _ surv] st'(5) by simp
  ultimately show ?thesis by simp
qed

lemma race_moves:
  assumes os: "ticks clk res d P" and st: "race_ok cc st" "race_time clk res cc m0 D st w" "0 < unat (cc_maxConnect cc)"
    and tick: "sys_tick P w = (cur, wa)" and g: "clk w div res + start_gap cc < m0 + 2 ^ 31"
    and pick: "st1 = st \<and> wc = wb \<and> (im_index st < length (im_connectors st) \<and> runningCount (im_connectors st) < unat (cc_maxConnect cc) \<longrightarrow>
        to_int (cur - im_lastStartConnTime st) < sint (if im_lastError st = 0 then cc_interval cc else cc_errorInterval cc)) \<or>
     (\<exists>now. sys_tick P wb = (now, wc) \<and> im_index st < length (im_connectors st) \<and> runningCount (im_connectors st) < unat (cc_maxConnect cc) \<and>
        st1 = st\<lparr>im_lastStartConnTime := now, im_lastError := 0, im_index := im_index st + 1\<rparr>)"
    and le: "m0 \<le> clk wb div res" "clk wb div res \<le> n" "clk wb div res \<le> clk w' div res" "clk w div res \<le> clk w' div res" "clk w < clk wc"
    and D': "D' = (if im_index st1 = im_index st then D else D + (n + unat (cc_timeout cc) + start_gap cc) * res)"
    and st': "im_connectors st' = cs' @ drop (im_index st1) (im_connectors st)" "length cs' = im_index st1" "im_index st' = im_index st1"
      "im_lastStartConnTime st' = im_lastStartConnTime st1"
    and rac: "racers cc res m0 (clk w' div res) D' (im_connectors st')" and go: "\<not> list_all (\<lambda>c. c = None) (im_connectors st')"
    and surv: "ranks cs' \<le> ranks (take (im_index st1) (im_connectors st))"
      "list_all (\<lambda>c. c = None) cs' \<or> ranks cs' < ranks (take (im_index st1) (im_connectors st)) \<or> clk wc < D'"
  shows "\<exists>D1. race_time clk res cc m0 D1 st' w' \<and>
    (race_rank st' < race_rank st \<or> race_rank st' = race_rank st \<and> D1 = D \<and> clk w < D)"
  using pick
proof (elim disjE exE conjE)
  assume 1: "st1 = st" "im_index st < length (im_connectors st) \<and> runningCount (im_connectors st) < unat (cc_maxConnect cc) \<longrightarrow>
      to_int (cur - im_lastStartConnTime st) < sint (if im_lastError st = 0 then cc_interval cc else cc_errorInterval cc)"
  have "list_all (\<lambda>c. c = None) cs' \<or> ranks cs' < ranks (take (im_index st) (im_connectors st)) \<or> clk w < D"
    using surv(2) le(5) 1(1) D' by auto
  with D' st' rac go surv(1) have "race_time clk res cc m0 D st' w' \<and> (race_rank st' < race_rank st \<or> race_rank st' = race_rank st \<and> clk w < D)"
    unfolding 1(1) by (intro race_same_index [OF os st tick g le(4) 1(2)]) simp_all
  then show ?thesis by blast
next
  fix now
  assume 2: "sys_tick P wb = (now, wc)" "im_index st < length (im_connectors st)"
    "st1 = st\<lparr>im_lastStartConnTime := now, im_lastError := 0, im_index := im_index st + 1\<rparr>"
  have k: "im_index st1 = Suc (im_index st)" "im_lastStartConnTime st1 = now" unfolding 2(3) by simp_all
  then have "(n + start_gap cc) * res \<le> D'" using D' by (simp add: add_mult_distrib)
  with st' rac surv(1) 2(2) have "race_time clk res cc m0 D' st' w' \<and> race_rank st' < race_rank st"
    unfolding k by (intro race_next_index [OF os 2(1) _ le(1-3)])
  then show ?thesis by blast
qed

text \<open>
  An iteration takes time, but a bounded amount; one that does not end the loop keeps the
  deadlines and lowers the rank, or ends before the last deadline.
\<close>

text \<open>What an iteration has done when it comes to the loop before the wait.\<close>

lemma round_opening:
  assumes os: "ticks clk res d P" "prompt clk d P"
    and "sys_tick P w = (cur, wa)" "SocketSelect_new apple P (im_breaker st) junk wa = (sel0, wb)"
    and "wc = wb \<or> (\<exists>now. sys_tick P wb = (now, wc))"
  shows "clk w < clk wc" "clk wc \<le> clk w + 3 * d" "clk w div res \<le> clk wb div res" "clk wb div res \<le> clk wc div res"
    "nev (SocketSelect_PreSelect sel0) \<le> 1"
proof -
  have la: "clk w < clk wa" "lasts clk d w wa" using tickD(2,3) [OF os(1) assms(3)] by auto
  have lb: "lasts clk d wa wb" and "nev (SocketSelect_PreSelect sel0) \<le> 1" using select_bounds(1) [OF os(2) assms(4)] by auto
  then show "nev (SocketSelect_PreSelect sel0) \<le> 1" by blast
  have lc: "lasts clk d wb wc" using assms(5) tickD(3) [OF os(1)] by auto
  show "clk w < clk wc" "clk wc \<le> clk w + 3 * d" using la lb lc by (auto simp: lasts_def)
  show "clk w div res \<le> clk wb div res" using lasts_div [OF la(2), of res] lasts_div [OF lb, of res] by linarith
  show "clk wb div res \<le> clk wc div res" by (rule lasts_div [OF lc])
qed

text \<open>The rest of an iteration that is not broken off by the wait.\<close>

lemma round_completed:
  fixes st st1 st' :: impatient
  assumes os: "ticks clk res d P" "prompt clk d P" "waits clk res d P" "no_early_tls P"
    and st: "race_ok cc st" "race_time clk res cc m0 D st w" "0 < unat (cc_maxConnect cc)"
    and hor: "(clk w + round_units res d cc (length (im_connectors st))) div res + unat (cc_timeout cc) + start_gap cc < m0 + 2 ^ 31"
    and tick: "sys_tick P w = (cur, wa)" and t1: "t1 \<le> sint (cc_timeout cc)"
    and start: "st1 = st \<and> wc = wb \<and> (im_index st < length (im_connectors st) \<and> runningCount (im_connectors st) < unat (cc_maxConnect cc) \<longrightarrow>
        to_int (cur - im_lastStartConnTime st) < sint (if im_lastError st = 0 then cc_interval cc else cc_errorInterval cc)) \<or>
     (\<exists>now. sys_tick P wb = (now, wc) \<and> im_index st < length (im_connectors st) \<and> runningCount (im_connectors st) < unat (cc_maxConnect cc) \<and>
        st1 = st\<lparr>im_lastStartConnTime := now, im_lastError := 0, im_index := im_index st + 1\<rparr>)"
    and w3: "clk w < clk wc" "clk wc \<le> clk w + 3 * d" "clk w div res \<le> clk wb div res" "clk wb div res \<le> clk wc div res"
    and nev: "nev (SocketSelect_PreSelect sel0) \<le> 1"
    and pre: "pre_all P ctx0 (SocketSelect_PreSelect sel0) t1 (take (im_index st1) (im_connectors st)) wc = (Inr (cs, ctx, sel2, t2), wd)"
    and sel: "SocketSelect_SelectFor P (max 0 t2 div 1000) sel2 (im_breaker st1) wd = ((r, sel3, b), we)"
    and after: "after_all P sel3 (im_lastError st1) cs we = (Inr (cs', e, so), wz)"
    and w': "w' = SocketSelect_delete P sel3 wz" and stop: "stop = (list_all (\<lambda>c. c = None) (im_connectors st') \<or> so \<noteq> None)"
    and st': "im_connectors st' = cs' @ drop (im_index st1) (im_connectors st)" "im_index st' = im_index st1"
      "im_lastStartConnTime st' = im_lastStartConnTime st1"
  shows "clk w < clk w'" "clk w' \<le> clk w + (unat (cc_timeout cc) * res + (7 + 15 * im_index st1) * d)" "length cs' = im_index st1"
    "\<not> stop \<Longrightarrow> \<exists>D'. race_time clk res cc m0 D' st' w' \<and>
       (race_rank st' < race_rank st \<or> race_rank st' = race_rank st \<and> D' = D \<and> clk w < D)"
proof -
  let ?T = "unat (cc_timeout cc)" and ?cs = "im_connectors st" and ?k = "im_index st1" and ?g = "start_gap cc"
  have pick: "?k = im_index st \<or> ?k = Suc (im_index st) \<and> im_index st < length ?cs \<and> runningCount ?cs < unat (cc_maxConnect cc)"
    using start by auto
  note k = race_next [OF st(1) pick]
  have R: "racers cc res m0 (clk w div res) D ?cs" and m0: "m0 \<le> clk w div res" using st(2) by (auto simp: race_time_def racers_def)
  have wc: "clk w div res \<le> clk wc div res" using w3(3,4) by simp
  have split: "racers cc res m0 (clk w div res) D (take ?k ?cs)" "racers cc res m0 (clk w div res) D (drop ?k ?cs)"
    using R racers_split by blast+
  have len: "length (take ?k ?cs) = ?k" using k(1) by simp
  note ps = pre_select_timed [OF os split(1) pre nev t1 sel, unfolded len]
  let ?D = "if ?k = im_index st then D else D + (clk wd div res + ?T + ?g) * res"
  have "?T * res + (7 + 15 * ?k) * d \<le> round_units res d cc (length ?cs)"
    unfolding round_units_def using k(1) by (intro add_left_mono mult_le_mono1) simp
  then have "(clk wc + (?T * res + (3 + 15 * ?k) * d)) div res \<le> (clk w + round_units res d cc (length ?cs)) div res"
    using w3(2) by (intro div_le_mono) (simp add: algebra_simps)
  then have h: "(clk wc + (?T * res + (3 + 15 * ?k) * d)) div res + ?T < m0 + 2 ^ 31" using hor by linarith
  have fresh: "(clk wd div res + ?T) * res \<le> ?D" if "list_ex isStart (take ?k ?cs)"
  proof -
    have "?k \<noteq> im_index st" using that st(1) by (auto simp: race_ok_def list_ex_iff list_all_iff live_def isStart_def split: option.splits)
    then show ?thesis by (simp add: add_mult_distrib)
  qed
  have D: "D \<le> ?D" by simp
  note il = inner_loops_timed [OF os split(1) k(2) _ _ pre nev t1 sel after, OF le_trans [OF m0 wc] wc D fresh, unfolded len, OF _ h]
  have l': "lasts clk d wz w'" unfolding w' by (rule select_bounds(2) [OF os(2)])
  show time: "clk w < clk w'" "clk w' \<le> clk w + (?T * res + (7 + 15 * ?k) * d)"
    using w3 il(1) l' by (auto simp: lasts_def algebra_simps)
  show lcs: "length cs' = ?k" using il(3) by simp
  have ww: "clk w div res \<le> clk w' div res" using time(1) by (simp add: div_le_mono)
  assume go: "\<not> stop"
  have so: "so = None" "\<not> list_all (\<lambda>c. c = None) (im_connectors st')" using go stop by auto
  have surv: "racers cc res m0 (clk wz div res) ?D cs'" "ranks cs' \<le> ranks (take ?k ?cs)"
    "list_all (\<lambda>c. c = None) cs' \<or> ranks cs' < ranks (take ?k ?cs) \<or> clk wc < ?D" using il(2) so(1) by blast+
  have "racers cc res m0 (clk w' div res) ?D cs'" by (rule racers_mono [OF surv(1) lasts_div [OF l'] le_refl])
  moreover have "racers cc res m0 (clk w' div res) ?D (drop ?k ?cs)" by (rule racers_mono [OF split(2) ww D])
  ultimately have rac: "racers cc res m0 (clk w' div res) ?D (im_connectors st')" by (simp add: st'(1) racers_def)
  have g: "clk w div res + ?g < m0 + 2 ^ 31"
    using hor div_le_mono [of "clk w" "clk w + round_units res d cc (length ?cs)" res] by linarith
  have le: "m0 \<le> clk wb div res" "clk wb div res \<le> clk wd div res" "clk wb div res \<le> clk w' div res"
    using m0 w3(3,4) lasts_div [OF ps(1), of res] lasts_div [OF il(1), of res] lasts_div [OF l', of res] by linarith+
  show "\<exists>D'. race_time clk res cc m0 D' st' w' \<and>
       (race_rank st' < race_rank st \<or> race_rank st' = race_rank st \<and> D' = D \<and> clk w < D)"
    by (rule race_moves [OF os(1) st tick g start le ww w3(1) refl st'(1) lcs st'(2,3) rac so(2) surv(2,3)])
qed

lemma impatient_round_timed:
  assumes os: "ticks clk res d P" "prompt clk d P" "waits clk res d P" "no_early_tls P"
    and st: "race_ok cc st" "race_time clk res cc m0 D st w" "0 < unat (cc_maxConnect cc)"
    and r: "impatient_round apple junk P cc st w = (Inr (stop, st'), w')"
    and hor: "(clk w + round_units res d cc (length (im_connectors st))) div res + unat (cc_timeout cc) + start_gap cc < m0 + 2 ^ 31"
  shows "clk w < clk w' \<and> clk w' \<le> clk w + round_units res d cc (length (im_connectors st)) \<and>
    length (im_connectors st') = length (im_connectors st) \<and>
    (\<not> stop \<longrightarrow> (\<exists>D'. race_time clk res cc m0 D' st' w' \<and>
       (race_rank st' < race_rank st \<or> race_rank st' = race_rank st \<and> D' = D \<and> clk w < D)))"
  using r
proof (rule round_steps, goal_cases)
  case (1 cur wa sel0 wb t1 st1 wc cs ctx sel2 t2 wd r sel3 b we)
  let ?T = "unat (cc_timeout cc)" and ?cs = "im_connectors st" and ?k = "im_index st1"
  have "wc = wb \<or> (\<exists>now. sys_tick P wb = (now, wc))" using 1(4) by auto
  note w3 = round_opening [OF os(1,2) 1(1,2) this]
  have c1: "im_connectors st1 = ?cs" and pick: "?k = im_index st \<or> ?k = Suc (im_index st) \<and> im_index st < length ?cs \<and>
      runningCount ?cs < unat (cc_maxConnect cc)" using 1(4) by auto
  note k = race_next [OF st(1) pick]
  have "racers cc res m0 (clk w div res) D ?cs" using st(2) by (auto simp: race_time_def racers_def)
  then have R: "racers cc res m0 (clk w div res) D (take ?k ?cs)" using racers_split by blast
  note pre = 1(5) [unfolded c1]
  have len: "length (take ?k ?cs) = ?k" using k(1) by simp
  note ps = pre_select_timed [OF os R pre w3(5) 1(3,6), unfolded len]
  have tk: "take ?k (cs @ drop ?k ?cs) = cs" "drop ?k (cs @ drop ?k ?cs) = drop ?k ?cs" using ps(4) by simp_all
  have kd: "?T * res + (7 + 15 * ?k) * d \<le> round_units res d cc (length ?cs)"
    unfolding round_units_def using k(1) by (intro add_left_mono mult_le_mono1) simp
  from 1(7) show ?case
  proof (elim disjE exE conjE)
    assume stop: "stop" "w' = SocketSelect_delete P sel3 we" "im_connectors st' = cs @ drop ?k (im_connectors st1)"
    then have "clk w' \<le> clk w + (?T * res + (7 + 15 * ?k) * d)" "clk w < clk w'"
      using w3(1,2) ps(1,2) select_bounds(2) [OF os(2), of we sel3] by (auto simp: lasts_def algebra_simps)
    with kd stop(1,3) c1 ps(4) k(1) show ?thesis by simp
  next
    fix cs' e so wf
    assume after: "after_all P sel3 (im_lastError st1) (take ?k (cs @ drop ?k (im_connectors st1))) we = (Inr (cs', e, so), wf)"
      and w': "w' = SocketSelect_delete P sel3 wf" and stop: "stop = (list_all (\<lambda>c. c = None) (im_connectors st') \<or> so \<noteq> None)"
      and st': "im_connectors st' = cs' @ drop ?k (cs @ drop ?k (im_connectors st1))" "im_index st' = ?k"
        "im_lastStartConnTime st' = im_lastStartConnTime st1"
    note fin = round_completed [OF os st hor 1(1,3,4) w3 pre 1(6) after [unfolded c1 tk] w' stop st'(1) [unfolded c1 tk] st'(2,3)]
    then show ?thesis using kd k(1) st'(1) c1 tk(2) by simp
  qed
qed

section \<open>The loop\<close>

text \<open>
  The budget of a state: the time to the last deadline, and for every step the connectors have left the
  longest timeout, the longest interval and two iterations.
\<close>

definition step_units :: "nat \<Rightarrow> nat \<Rightarrow> ComplexConnect \<Rightarrow> nat \<Rightarrow> nat" where
  "step_units res d cc n = (unat (cc_timeout cc) + start_gap cc + 1) * res + 2 * round_units res d cc n"

definition race_budget :: "nat \<Rightarrow> nat \<Rightarrow> ComplexConnect \<Rightarrow> nat \<Rightarrow> nat" where
  "race_budget res d cc n = (6 * n + 1) * step_units res d cc n"

lemma race_time_later: "race_time clk res cc m0 D st w \<Longrightarrow> D \<le> D' \<Longrightarrow> race_time clk res cc m0 D' st w"
  unfolding race_time_def by (auto intro: live_mono timely_mono)

text \<open>The budget pays for every iteration.\<close>

lemma round_paid:
  assumes os: "ticks clk res d P" "prompt clk d P" "waits clk res d P" "no_early_tls P"
    and st: "race_ok cc st" "race_time clk res cc m0 D st w" "0 < unat (cc_maxConnect cc)" "length (im_connectors st) = n"
    and c: "clk w + c = D + round_units res d cc n"
    and hor: "(clk w + round_units res d cc n) div res + unat (cc_timeout cc) + start_gap cc < m0 + 2 ^ 31"
    and r: "impatient_round apple junk P cc st w = (Inr (stop, st'), w')"
  shows "clk w \<le> clk w' \<and> clk w' \<le> clk w + round_units res d cc n \<and> length (im_connectors st') = n"
    "\<not> stop \<Longrightarrow> \<exists>c' D'. race_time clk res cc m0 D' st' w' \<and> clk w' + c' = D' + round_units res d cc n \<and>
       clk w < clk w' \<and> clk w' + (race_rank st' * step_units res d cc n + c') \<le> clk w + (race_rank st * step_units res d cc n + c)"
proof -
  let ?R = "round_units res d cc n" and ?S = "step_units res d cc n" and ?g = "unat (cc_timeout cc) + start_gap cc"
  note t = impatient_round_timed [OF os st(1-3) r, unfolded st(4), OF hor]
  have w': "clk w < clk w'" "clk w' \<le> clk w + ?R" using t by simp_all
  then show "clk w \<le> clk w' \<and> clk w' \<le> clk w + ?R \<and> length (im_connectors st') = n" using t by simp
  assume "\<not> stop"
  then obtain D1 where D1: "race_time clk res cc m0 D1 st' w'" and
    or: "race_rank st' < race_rank st \<or> race_rank st' = race_rank st \<and> D1 = D \<and> clk w < D" using t by blast
  from or show "\<exists>c' D'. race_time clk res cc m0 D' st' w' \<and> clk w' + c' = D' + ?R \<and>
       clk w < clk w' \<and> clk w' + (race_rank st' * ?S + c') \<le> clk w + (race_rank st * ?S + c)"
  proof (elim disjE conjE)
    assume "race_rank st' = race_rank st" "D1 = D" "clk w < D"
    with D1 w' c show ?thesis by (intro exI [of _ "D + ?R - clk w'"] exI [of _ D]) simp
  next
    assume "race_rank st' < race_rank st"
    then have "(race_rank st' + 1) * ?S \<le> race_rank st * ?S" by (intro mult_le_mono1) simp
    then have S: "race_rank st' * ?S + ((?g + 1) * res + 2 * ?R) \<le> race_rank st * ?S" by (simp add: step_units_def)
    let ?D = "(clk w' div res + ?g + 1) * res"
    have "race_time clk res cc m0 ?D st' w'" by (rule race_time_later [OF race_time_fresh [OF D1]]) (simp add: algebra_simps)
    moreover have "0 < res" using os(1) by (simp add: ticks_def)
    then have "clk w' \<le> ?D" using dividend_less_div_times [of res "clk w'"] by (simp add: algebra_simps)
    moreover have "?D \<le> clk w' + (?g + 1) * res" using div_times_less_eq_dividend [of "clk w'" res] by (simp add: algebra_simps)
    ultimately show ?thesis using S w' by (intro exI [of _ "?D + ?R - clk w'"] exI [of _ ?D]) simp
  qed
qed

lemma impatient_loop_ends:
  assumes os: "ticks clk res d P" "prompt clk d P" "waits clk res d P" "no_early_tls P"
    and cc: "0 < unat (cc_maxConnect cc)"
    and hor: "(E + round_units res d cc n) div res + unat (cc_timeout cc) + start_gap cc < m0 + 2 ^ 31"
  shows "race_ok cc st \<Longrightarrow> race_time clk res cc m0 D st w \<Longrightarrow> length (im_connectors st) = n \<Longrightarrow>
     clk w + c = D + round_units res d cc n \<Longrightarrow> clk w + (race_rank st * step_units res d cc n + c) \<le> E \<Longrightarrow>
     \<exists>st' w'. impatient_loop apple junk P cc st w = Some (Inr st', w') \<and> length (im_connectors st') = n \<and>
       clk w \<le> clk w' \<and> clk w' \<le> E + round_units res d cc n"
proof (induction "race_rank st * step_units res d cc n + c" arbitrary: st w D c rule: less_induct)
  case less
  let ?R = "round_units res d cc n" and ?S = "step_units res d cc n"
  obtain stop st1 w1 where r: "impatient_round apple junk P cc st w = (Inr (stop, st1), w1)" and ok: "race_ok cc st1"
    using impatient_round_ok [OF less.prems(1), of apple junk P] unfolding always_def by (metis (no_types, lifting) case_prodE)
  have "(clk w + ?R) div res \<le> (E + ?R) div res" using less.prems(5) by (intro div_le_mono) simp
  then have h: "(clk w + ?R) div res + unat (cc_timeout cc) + start_gap cc < m0 + 2 ^ 31" using hor by linarith
  note paid = round_paid [OF os less.prems(1,2) cc less.prems(3,4) h r]
  show ?case
  proof (cases stop)
    case True
    have "impatient_loop apple junk P cc st w = Some (Inr st1, w1)"
      by (subst impatient_loop.simps) (simp add: r True)
    with paid(1) less.prems(5) show ?thesis by auto
  next
    case False
    have len: "length (im_connectors st1) = n" using paid(1) by simp
    obtain c1 D1 where 1: "race_time clk res cc m0 D1 st1 w1" "clk w1 + c1 = D1 + ?R" "clk w < clk w1"
        "clk w1 + (race_rank st1 * ?S + c1) \<le> clk w + (race_rank st * ?S + c)" using paid(2) [OF False] by blast
    have "\<exists>st' w'. impatient_loop apple junk P cc st1 w1 = Some (Inr st', w') \<and> length (im_connectors st') = n \<and>
        clk w1 \<le> clk w' \<and> clk w' \<le> E + ?R"
      by (rule less.hyps [OF _ ok 1(1) len 1(2)]) (use 1(3,4) less.prems(5) in linarith)+
    moreover have "impatient_loop apple junk P cc st w = impatient_loop apple junk P cc st1 w1"
      by (subst impatient_loop.simps) (simp add: r False)
    ultimately show ?thesis using 1(3) by auto
  qed
qed

lemma close_all_lasts: "prompt clk d P \<Longrightarrow> lasts clk (2 * d * length cs) w (close_all P cs w)"
proof (induction cs arbitrary: w)
  case (Cons oc cs)
  show ?case
  proof (cases oc)
    case None
    then show ?thesis using lasts_mono [OF Cons.IH [OF Cons.prems], of "2 * d * length (oc # cs)"] by simp
  next
    case (Some c)
    have "lasts clk (2 * d * length (oc # cs)) w (close_all P cs (snd (Connector_Close P c w)))"
      by (rule lasts_trans [OF lasts_Close [OF Cons.prems] Cons.IH [OF Cons.prems]]) simp
    with Some show ?thesis by simp
  qed
qed simp

lemma start_rank:
  "race_rank (impatient_start cc junk t addrs b ctx) = 6 * length addrs"
  "length (im_connectors (impatient_start cc junk t addrs b ctx)) = length addrs"
proof -
  have "ranks (map (\<lambda>(i, a). Some (Connector_new (ai_isTls a) a i T junk)) ps) = 5 * length ps" for ps T
    by (induction ps) (auto simp: Connector_new_def)
  then show "race_rank (impatient_start cc junk t addrs b ctx) = 6 * length addrs"
    "length (im_connectors (impatient_start cc junk t addrs b ctx)) = length addrs"
    by (simp_all add: race_rank_def impatient_start_def make_connectors_def)
qed

lemma start_time:
  assumes "m0 \<le> clk w div res" "D = (clk w div res + unat (cc_timeout cc) + start_gap cc + 1) * res"
  shows "race_time clk res cc m0 D (impatient_start cc junk (of_nat m0) addrs b ctx) w"
proof (rule race_timeI [where l = "int m0 - int (unat (cc_interval cc))"])
  show "racers cc res m0 (clk w div res) D (im_connectors (impatient_start cc junk (of_nat m0) addrs b ctx))"
    by (auto simp: racers_def impatient_start_def make_connectors_def list_all_iff Connector_new_def racing_def timely_def)
  have g: "unat (cc_interval cc) \<le> start_gap cc" by (simp add: start_gap_def)
  then show "int m0 \<le> int m0 - int (unat (cc_interval cc)) + int (start_gap cc)" by linarith
  show "int m0 - int (unat (cc_interval cc)) \<le> int (clk w div res)" using assms(1) by linarith
  have "(int m0 - int (unat (cc_interval cc)) + int (start_gap cc)) * int res \<le>
      int (clk w div res + unat (cc_timeout cc) + start_gap cc + 1) * int res"
    using assms(1) by (intro mult_right_mono) linarith+
  then show "(int m0 - int (unat (cc_interval cc)) + int (start_gap cc)) * int res \<le> int D"
    unfolding assms(2) of_nat_mult by simp
qed (use assms(1) in \<open>simp_all add: impatient_start_def\<close>)

section \<open>Properties\<close>

text \<open>The longest a race over \<open>n\<close> addresses takes, in the units of the clock.\<close>

definition race_span :: "nat \<Rightarrow> nat \<Rightarrow> ComplexConnect \<Rightarrow> nat \<Rightarrow> nat" where
  "race_span res d cc n = race_budget res d cc n + (1 + 2 * n) * d"

text \<open>
  C23: \<^verbatim>\<open>ConnectImpatient\<close> always returns. On a system whose clock runs, whose calls take at most
  \<open>d\<close> units of time (a wait its timeout more) and whose \<^verbatim>\<open>SSL_connect\<close> never succeeds at its first call,
  the race over any addresses, plain or TLS, answered or not, ends with a result within the time
  \<open>race_span\<close>, provided that at least one connection may be open and this time fits the
  31 bits the code's time differences keep.
\<close>

theorem ConnectImpatient_returns:
  assumes "ticks clk res d P" "prompt clk d P" "waits clk res d P" "no_early_tls P" "0 < unat (cc_maxConnect cc)"
    and "race_span res d cc (length addrs) + (unat (cc_timeout cc) + start_gap cc + 1) * res < 2 ^ 31 * res"
  shows "\<exists>so b' ctx' w'. ConnectImpatient apple junk junk64 P cc addrs b ctx w = Some (Inr (so, b', ctx'), w') \<and>
    clk w \<le> clk w' \<and> clk w' \<le> clk w + race_span res d cc (length addrs)"
proof (cases "addrs = []")
  case True
  then show ?thesis by (simp add: ConnectImpatient_def)
next
  case False
  have below: "0 < res \<Longrightarrow> x + y * res < z * res \<Longrightarrow> x div res + y < z" for x y z :: nat
    using div_less_iff_less_mult [of res "x + y * res" z] by simp
  let ?n = "length addrs" and ?m0 = "clk w div res" and ?g = "unat (cc_timeout cc) + start_gap cc"
  let ?R = "round_units res d cc ?n" and ?S = "step_units res d cc ?n"
  obtain cur w1 where t: "sys_tick P w = (cur, w1)" by force
  have cur: "cur = of_nat ?m0" and l1: "lasts clk d w w1" and res: "0 < res" using tickD [OF assms(1) t] by auto
  let ?st = "impatient_start cc junk64 (of_nat ?m0) addrs b ctx" and ?D = "(clk w1 div res + ?g + 1) * res"
  let ?c = "?D + ?R - clk w1" and ?E = "clk w1 + (6 * ?n * ?S + (?D + ?R - clk w1))"
  have "clk w1 \<le> ?D" using dividend_less_div_times [OF res, of "clk w1"] by (simp add: algebra_simps)
  moreover have "?D \<le> clk w1 + (?g + 1) * res" using div_times_less_eq_dividend [of "clk w1" res] by (simp add: algebra_simps)
  ultimately have E: "?E + ?R \<le> clk w1 + race_budget res d cc ?n" and c: "clk w1 + ?c = ?D + ?R"
    by (simp_all add: race_budget_def step_units_def algebra_simps)
  have "?E + ?R \<le> clk w + race_span res d cc ?n" using E l1 by (simp add: lasts_def race_span_def algebra_simps)
  then have "?E + ?R + ?g * res < (?m0 + 2 ^ 31) * res"
    using assms(6) dividend_less_div_times [OF res, of "clk w"] unfolding add_mult_distrib by linarith
  then have "(?E + ?R) div res + ?g < ?m0 + 2 ^ 31" using below [OF res] by blast
  moreover have "race_time clk res cc ?m0 ?D ?st w1" by (rule start_time) (use lasts_div [OF l1] in \<open>simp_all add: add.assoc\<close>)
  ultimately obtain st' w2 where loop: "impatient_loop apple junk P cc ?st w1 = Some (Inr st', w2)" "length (im_connectors st') = ?n"
      "clk w1 \<le> clk w2" "clk w2 \<le> ?E + ?R"
    using impatient_loop_ends [OF assms(1-5), of ?E ?n ?m0 ?st ?D w1 ?c apple junk] impatient_start_ok start_rank c
    by (auto simp: add.assoc)
  have "lasts clk (2 * d * ?n) w2 (close_all P (im_connectors st') w2)"
    using close_all_lasts [OF assms(2), of "im_connectors st'" w2] loop(2) by simp
  then have "clk w \<le> clk (close_all P (im_connectors st') w2) \<and>
      clk (close_all P (im_connectors st') w2) \<le> clk w + race_span res d cc ?n"
    using l1 loop(3,4) E by (auto simp: lasts_def race_span_def algebra_simps)
  with False t cur loop(1) show ?thesis by (auto simp: ConnectImpatient_def)
qed

text \<open>A system on which the peer never answers; its world is the time in milliseconds.\<close>

definition clock_posix :: "nat posix" where
  "clock_posix = quiet_posix\<lparr>sys_errno := (\<lambda>w. 115), sys_tick := (\<lambda>w. (of_nat w, w + 1)), sys_socket := (\<lambda>w. (5, w)),
     sys_getfl := (\<lambda>fd w. (0, w)), sys_setfl := (\<lambda>fd f w. (0, w)), sys_epoll_create := (\<lambda>w. (7, w)),
     sys_epoll_wait := (\<lambda>ep n t w. ((0, []), w + nat t))\<rparr>"

lemma clock_posix_laws:
  "ticks (\<lambda>w. w) 1 1 clock_posix" "prompt (\<lambda>w. w) 1 clock_posix" "waits (\<lambda>w. w) 1 1 clock_posix" "no_early_tls clock_posix"
  by (simp_all add: clock_posix_def quiet_posix_def ticks_def prompt_def waits_def no_early_tls_def lasts_def SSL_ERROR_NONE_def)

theorem ConnectImpatient_returns_witness:
  "\<exists>so b' ctx' w'. ConnectImpatient False 0 0 clock_posix demo_race
      [\<lparr>ai_ip = ''10.0.0.1'', ai_port = 80, ai_isTls = False\<rparr>, \<lparr>ai_ip = ''10.0.0.2'', ai_port = 443, ai_isTls = True\<rparr>]
      \<lparr>br_pipe0 = 3, br_pipe1 = 4, br_broken = False\<rparr> None 0 = Some (Inr (so, b', ctx'), w') \<and> 0 \<le> w' \<and> w' \<le> 0 + race_span 1 1 demo_race 2"
  using ConnectImpatient_returns [OF clock_posix_laws, of demo_race
      "[\<lparr>ai_ip = ''10.0.0.1'', ai_port = 80, ai_isTls = False\<rparr>, \<lparr>ai_ip = ''10.0.0.2'', ai_port = 443, ai_isTls = True\<rparr>]" False 0 0
      "\<lparr>br_pipe0 = 3, br_pipe1 = 4, br_broken = False\<rparr>" None 0]
  by (simp add: demo_race_def start_gap_def race_span_def race_budget_def step_units_def round_units_def)

text \<open>A race whose only connector has its TCP connection and starts TLS.\<close>

definition starts_tls :: "impatient \<Rightarrow> bool" where
  "starts_tls st \<longleftrightarrow> im_index st = 1 \<and> (\<exists>c s. im_connectors st = [Some c] \<and> tc_ssl c \<and> tc_status c = ConnStatusStartSSL \<and>
     tc_socket c = Some (SecureSocket s))"

text \<open>Handshakes that succeed in the first call, and nobody who breaks the wait.\<close>

definition early_tls :: "'w posix \<Rightarrow> bool" where
  "early_tls P \<longleftrightarrow> (\<forall>ctx w. fst (ssl_new P ctx w) \<noteq> None) \<and> (\<forall>h w. fst (ssl_connect P h w) = 1) \<and>
     (\<forall>ep n t w. fst (sys_epoll_wait P ep n t w) = (0, []))"

lemma early_PreSelect:
  assumes "early_tls P" "tc_ssl c" "tc_status c = ConnStatusStartSSL" "tc_socket c = Some (SecureSocket s)"
  shows "\<exists>s' ctx' w'. Connector_PreSelect P ctx c sel w = (Inr (c\<lparr>tc_socket := Some (SecureSocket s')\<rparr>, sel, ctx'), w')"
proof -
  obtain ctx' w1 where 1: "GetSSLContext P ctx w = (ctx', w1)" by force
  obtain h w2 where 2: "ssl_new P ctx' w1 = (Some h, w2)"
    using assms(1) unfolding early_tls_def by (metis not_None_eq prod.collapse)
  obtain w4 where 4: "ssl_connect P h (ssl_set_fd P h (ts_socket s) w2) = (1, w4)"
    using assms(1) unfolding early_tls_def by (metis prod.collapse)
  show ?thesis
    using assms(2-4) by (auto simp: Connector_PreSelect_def SSLConnector_PreSelect_def TcpConnector_PreSelect_def PreSSLSelect_def
        seq_def lift_def SSLSocket_Connect_def 1 2 4 Let_def SSL_ERROR_NONE_def SSL_ERROR_WANT_READ_def SSL_ERROR_WANT_WRITE_def)
qed

lemma early_Select:
  assumes "early_tls P"
  shows "\<exists>sel' b' w'. SocketSelect_SelectFor P t (SelEpoll s) b w = ((0, sel', b'), w') \<and>
    \<not> SocketSelect_IsException sel' b' \<and> \<not> SocketSelect_IsBreak sel' b'"
proof -
  let ?w1 = "fold (\<lambda>e w. snd (sys_epoll_add P (se_epfd s) e w)) (se_events s) w"
  obtain w2 where 2: "sys_epoll_wait P (se_epfd s) (length (se_events s)) (poll_ms t) ?w1 = ((0, []), w2)"
    using assms unfolding early_tls_def by (metis prod.collapse)
  obtain q b' w3 where 3: "Breaker_Clear P b w2 = (q, b', w3)" by (metis prod_cases3)
  show ?thesis
    by (simp add: SocketEpoll_Poll_def 2 3 Let_def SocketEpoll_BreakerIsError_def SocketEpoll_BreakerIsBreak_def
        SocketEpoll_ExceptionFdIsSet_def SocketEpoll_ReadFdIsSet_def)
qed

lemma early_round:
  assumes "early_tls P" "starts_tls st"
  shows "\<exists>st' w'. impatient_round False junk P cc st w = (Inr (False, st'), w') \<and> starts_tls st'"
proof -
  obtain c s where c: "im_connectors st = [Some c]" "tc_ssl c" "tc_status c = ConnStatusStartSSL" "tc_socket c = Some (SecureSocket s)"
    and i: "im_index st = 1" using assms(2) by (auto simp: starts_tls_def)
  obtain cur wa where 1: "sys_tick P w = (cur, wa)" by force
  obtain ep wb where 2: "SocketSelect_new False P (im_breaker st) junk wa = (SelEpoll ep, wb)"
    by (cases "SocketEpoll_new P (im_breaker st) junk wa") (simp add: SocketSelect_new_def)
  let ?sel = "SocketSelect_PreSelect (SelEpoll ep)"
  obtain s' ctx' wc where 3: "Connector_PreSelect P (im_ctx st) c ?sel wb = (Inr (c\<lparr>tc_socket := Some (SecureSocket s')\<rparr>, ?sel, ctx'), wc)"
    using early_PreSelect [OF assms(1) c(2-4), of "im_ctx st" ?sel wb] by blast
  let ?c = "c\<lparr>tc_socket := Some (SecureSocket s')\<rparr>"
  obtain sel' b' we where 4: "SocketSelect_SelectFor P (max 0 (min (sint (cc_timeout cc)) INT_MAX) div 1000) ?sel (im_breaker st) wc =
      ((0, sel', b'), we)" "\<not> SocketSelect_IsException sel' b'" "\<not> SocketSelect_IsBreak sel' b'"
    using early_Select [OF assms(1), of _ "SocketEpoll_ClearEvent ep" "im_breaker st" wc] by fastforce
  have t: "Connector_Timeout P ?c wc = (INT_MAX, wc)" by (simp add: Connector_Timeout_def c(3))
  have a: "Connector_AfterSelect P ?c sel' = ret ?c"
    by (simp add: Connector_AfterSelect_def SSLConnector_AfterSelect_def TcpConnector_AfterSelect_def c(2,3) del: ret_apply)
  show ?thesis
    using 4(2,3) c(2,3)
    by (simp add: impatient_round_def Let_def seq_def lift_def 1 2 i c(1) 3 t 4(1) a starts_tls_def del: SocketSelect_PreSelect.simps)
qed


text \<open>A system that accepts every connection and every handshake at once.\<close>

definition eager_posix :: "nat posix" where
  "eager_posix = clock_posix\<lparr>ssl_new := (\<lambda>ctx w. (Some 1, w)), ssl_connect := (\<lambda>h w. (1, w))\<rparr>"

definition eager_start :: impatient where
  "eager_start = (impatient_start demo_race 0 0 [\<lparr>ai_ip = ''10.0.0.2'', ai_port = 443, ai_isTls = True\<rparr>]
      \<lparr>br_pipe0 = 3, br_pipe1 = 4, br_broken = False\<rparr> None)
     \<lparr>im_index := 1, im_connectors := [Some ((Connector_new True \<lparr>ai_ip = ''10.0.0.2'', ai_port = 443, ai_isTls = True\<rparr> 0 10000 0)
        \<lparr>tc_socket := Some (SecureSocket (SSLSocket_new 5)), tc_status := ConnStatusStartSSL\<rparr>)]\<rparr>"


end
