(* ===== verification/Clocks.thy ===== *)
theory Clocks
  imports RaceProgress "HOL-Library.Signed_Division"
begin

text \<open>
  \<^verbatim>\<open>common/time_utils.c\<close>: the tick counter on each of its platforms. The system's clocks are a parameter
  of their own; the static variables of \<^verbatim>\<open>gettickcount\<close> are a record. The client's other theories
  see the result as the call \<open>sys_tick\<close>.
\<close>

section \<open>The clocks of the platforms\<close>

record timespec =
  tv_sec :: int
  tv_nsec :: int

datatype clockid = CLOCK_MONOTONIC | CLOCK_BOOTTIME | CLOCK_MONOTONIC_RAW

text \<open>
  \<open>None\<close> is a return value other than zero. \<open>alarm_ioctl\<close> is the \<^verbatim>\<open>ioctl\<close> on \<^verbatim>\<open>/dev/alarm\<close>,
  \<open>mach_timebase\<close> the pair of numerator and denominator.
\<close>

record 'w clock_os =
  c_EACCES :: int
  ck_errno :: "'w \<Rightarrow> int"
  alarm_open :: "'w \<Rightarrow> int \<times> 'w"
  alarm_ioctl :: "int \<Rightarrow> 'w \<Rightarrow> timespec option \<times> 'w"
  ck_close :: "int \<Rightarrow> 'w \<Rightarrow> 'w"
  clock_gettime :: "clockid \<Rightarrow> 'w \<Rightarrow> timespec option \<times> 'w"
  mach_timebase :: "'w \<Rightarrow> (u32 \<times> u32) \<times> 'w"
  mach_absolute_time :: "'w \<Rightarrow> u64 \<times> 'w"
  GetTickCount :: "'w \<Rightarrow> u32 \<times> 'w"
  GetTickCount64 :: "'w \<Rightarrow> u64 \<times> 'w"
  gettimeofday :: "'w \<Rightarrow> (int \<times> int) \<times> 'w"

text \<open>The static variables.\<close>

record tick_statics =
  s_fd :: int
  errcode :: int
  tb_numer :: u32
  tb_denom :: u32

definition statics_init :: tick_statics where
  "statics_init = \<lparr>s_fd = - 1, errcode = 0, tb_numer = 0, tb_denom = 0\<rparr>"

section \<open>gettickcount\<close>

text \<open>\<^verbatim>\<open>(uint64_t)ts.tv_sec*1000 + (uint64_t)ts.tv_nsec/1000000\<close>.\<close>

definition ts_ms :: "timespec \<Rightarrow> u64" where
  "ts_ms ts = word_of_int (tv_sec ts) * 1000 + word_of_int (tv_nsec ts) div 1000000"

text \<open>\<open>junk\<close>: the content of the uninitialised \<^verbatim>\<open>ts\<close>, used if no clock answers.\<close>

definition gettickcount_android :: "'w clock_os \<Rightarrow> timespec \<Rightarrow> tick_statics \<Rightarrow> 'w \<Rightarrow> u64 \<times> tick_statics \<times> 'w" where
  "gettickcount_android C junk s w =
     (let (s1, w1) =
        (if s_fd s = - 1 \<and> errcode s \<noteq> c_EACCES C
         then let (fd, wa) = alarm_open C w;
                  e = (if fd = - 1 then ck_errno C wa else errcode s);
                  (x, wb) = (if s_fd s = - 1 then (fd, wa) else (s_fd s, if fd \<ge> 0 then ck_close C fd wa else wa))
              in (s\<lparr>s_fd := x, errcode := e\<rparr>, wb)
         else (s, w));
          (r, w2) = alarm_ioctl C (s_fd s1) w1
      in case r of
           Some ts \<Rightarrow> (ts_ms ts, s1, w2)
         | None \<Rightarrow> (case clock_gettime C CLOCK_BOOTTIME w2 of (r', w3) \<Rightarrow>
             (ts_ms (case r' of Some ts \<Rightarrow> ts | None \<Rightarrow> junk), s1, w3)))"

text \<open>The denominator is a 32-bit value, and so is its product with a million.\<close>

definition gettickcount_apple :: "'w clock_os \<Rightarrow> tick_statics \<Rightarrow> 'w \<Rightarrow> u64 \<times> tick_statics \<times> 'w" where
  "gettickcount_apple C s w =
     (let (s1, w1) = (if tb_denom s = 0
                      then case mach_timebase C w of ((n, dn), wa) \<Rightarrow> (s\<lparr>tb_numer := n, tb_denom := dn\<rparr>, wa) else (s, w));
          (mach_time, w2) = mach_absolute_time C w1
      in ((mach_time * ucast (tb_numer s1)) div ucast (tb_denom s1 * 1000000), s1, w2))"

text \<open>The branches for BlackBerry and for Linux are the same text.\<close>

definition gettickcount_linux :: "'w clock_os \<Rightarrow> 'w \<Rightarrow> u64 \<times> 'w" where
  "gettickcount_linux C w =
     (case clock_gettime C CLOCK_MONOTONIC w of
        (Some ts, w1) \<Rightarrow> (word_of_int (tv_sec ts) * 1000 + word_of_int (tv_nsec ts sdiv 1000000), w1)
      | (None, w1) \<Rightarrow> (0, w1))"

datatype platform = Android | Apple | BlackBerry | Linux | Win32 | WinPhone

definition gettickcount :: "platform \<Rightarrow> 'w clock_os \<Rightarrow> timespec \<Rightarrow> tick_statics \<Rightarrow> 'w \<Rightarrow> u64 \<times> tick_statics \<times> 'w" where
  "gettickcount pl C junk s w =
     (case pl of
        Android \<Rightarrow> gettickcount_android C junk s w
      | Apple \<Rightarrow> gettickcount_apple C s w
      | BlackBerry \<Rightarrow> (case gettickcount_linux C w of (t, w1) \<Rightarrow> (t, s, w1))
      | Linux \<Rightarrow> (case gettickcount_linux C w of (t, w1) \<Rightarrow> (t, s, w1))
      | Win32 \<Rightarrow> (case GetTickCount C w of (t, w1) \<Rightarrow> (ucast t, s, w1))
      | WinPhone \<Rightarrow> (case GetTickCount64 C w of (t, w1) \<Rightarrow> (t, s, w1)))"

text \<open>\<open>None\<close> for BlackBerry: the function is declared but not defined there.\<close>

definition clock_app_monotonic ::
  "platform \<Rightarrow> 'w clock_os \<Rightarrow> timespec \<Rightarrow> tick_statics \<Rightarrow> 'w \<Rightarrow> (u64 \<times> tick_statics \<times> 'w) option" where
  "clock_app_monotonic pl C junk s w =
     (case pl of
        Android \<Rightarrow> (case clock_gettime C CLOCK_MONOTONIC_RAW w of (r, w1) \<Rightarrow>
            Some (ts_ms (case r of Some ts \<Rightarrow> ts | None \<Rightarrow> junk), s, w1))
      | BlackBerry \<Rightarrow> None
      | _ \<Rightarrow> Some (gettickcount pl C junk s w))"

text \<open>The result is an \<^verbatim>\<open>int64_t\<close>.\<close>

definition gettickspan :: "platform \<Rightarrow> 'w clock_os \<Rightarrow> timespec \<Rightarrow> u64 \<Rightarrow> tick_statics \<Rightarrow> 'w \<Rightarrow> int \<times> tick_statics \<times> 'w" where
  "gettickspan pl C junk old_tick s w =
     (let (cur_tick, s1, w1) = gettickcount pl C junk s w
      in (if old_tick > cur_tick then 0 else sint (cur_tick - old_tick), s1, w1))"

definition timeMs :: "'w clock_os \<Rightarrow> 'w \<Rightarrow> u64 \<times> 'w" where
  "timeMs C w = (case gettimeofday C w of ((sec, usec), w1) \<Rightarrow> (word_of_int sec * 1000 + word_of_int usec div 1000, w1))"

section \<open>What the tick counter shows\<close>

text \<open>A \<^verbatim>\<open>timespec\<close> for \<open>t\<close> nanoseconds.\<close>

definition ts_of :: "nat \<Rightarrow> timespec" where
  "ts_of t = \<lparr>tv_sec = int (t div 10 ^ 9), tv_nsec = int (t mod 10 ^ 9)\<rparr>"

text \<open>
  The documented behaviour of the clocks: they all show the time \<open>ns\<close> since start-up, which never goes
  back; \<^verbatim>\<open>/dev/alarm\<close> may be missing, and the Mach clock counts \<open>mach\<close> ticks of \<open>num\<close>/\<open>den\<close> nanoseconds.
\<close>

definition clock_laws :: "'w clock_os \<Rightarrow> ('w \<Rightarrow> nat) \<Rightarrow> ('w \<Rightarrow> nat) \<Rightarrow> u32 \<Rightarrow> u32 \<Rightarrow> bool" where
  "clock_laws C ns mach num den \<longleftrightarrow>
     (\<forall>k w. fst (clock_gettime C k w) = Some (ts_of (ns w)) \<and> ns w \<le> ns (snd (clock_gettime C k w))) \<and>
     (\<forall>fd w. fst (alarm_ioctl C fd w) \<in> {None, Some (ts_of (ns w))} \<and> ns w \<le> ns (snd (alarm_ioctl C fd w))) \<and>
     (\<forall>w. ns w \<le> ns (snd (alarm_open C w))) \<and> (\<forall>fd w. ns w \<le> ns (ck_close C fd w)) \<and>
     (\<forall>w. fst (mach_timebase C w) = (num, den) \<and> ns w \<le> ns (snd (mach_timebase C w))) \<and>
     0 < den \<and> unat den * 1000000 < 2 ^ 32 \<and>
     (\<forall>w. fst (mach_absolute_time C w) = of_nat (mach w) \<and> ns w \<le> ns (snd (mach_absolute_time C w)) \<and>
        ns w = mach w * unat num div unat den \<and> mach w * unat num < 2 ^ 64) \<and>
     (\<forall>w. fst (GetTickCount C w) = of_nat (ns w div 10 ^ 6) \<and> ns w \<le> ns (snd (GetTickCount C w))) \<and>
     (\<forall>w. fst (GetTickCount64 C w) = of_nat (ns w div 10 ^ 6) \<and> ns w \<le> ns (snd (GetTickCount64 C w)))"

text \<open>The static variables are unset, or hold the time base.\<close>

definition statics_ok :: "u32 \<Rightarrow> u32 \<Rightarrow> tick_statics \<Rightarrow> bool" where
  "statics_ok num den s \<longleftrightarrow> tb_denom s = 0 \<or> tb_numer s = num \<and> tb_denom s = den"

lemma split_ms: "t div 10 ^ 9 * 1000 + t mod 10 ^ 9 div 10 ^ 6 = (t :: nat) div 10 ^ 6"
proof -
  have "t div 10 ^ 6 = (t div 10 ^ 9 * 10 ^ 9 + t mod 10 ^ 9) div 10 ^ 6" by (simp only: div_mult_mod_eq)
  also have "\<dots> = (t mod 10 ^ 9 + (t div 10 ^ 9 * 1000) * 10 ^ 6) div 10 ^ 6" by (simp add: algebra_simps)
  also have "\<dots> = t div 10 ^ 9 * 1000 + t mod 10 ^ 9 div 10 ^ 6" by (subst div_mult_self1) simp_all
  finally show ?thesis by simp
qed

lemma word_div_nat: "a < 2 ^ 64 \<Longrightarrow> b < 2 ^ 64 \<Longrightarrow> (of_nat a :: u64) div of_nat b = of_nat (a div b)"
  by (simp add: word_arith_nat_div unsigned_of_nat take_bit_nat_eq_self)

lemma ts_ms_of: "ts_ms (ts_of t) = of_nat (t div 10 ^ 6)"
proof -
  let ?r = "t mod 10 ^ 9"
  have "?r < 10 ^ 9" by simp
  then have "(word_of_nat ?r :: u64) div 1000000 = word_of_nat (?r div 10 ^ 6)"
    using word_div_nat [of ?r 1000000] by simp
  then have "ts_ms (ts_of t) = of_nat (t div 10 ^ 9 * 1000 + ?r div 10 ^ 6)" by (simp add: ts_ms_def ts_of_def)
  then show ?thesis by (simp only: split_ms)
qed

lemma linux_ms_of: "word_of_int (tv_sec (ts_of t)) * 1000 + word_of_int (tv_nsec (ts_of t) sdiv 1000000) = (of_nat (t div 10 ^ 6) :: u64)"
proof -
  let ?r = "t mod 10 ^ 9"
  have "int ?r sdiv 1000000 = int (?r div 10 ^ 6)" by (cases "?r = 0") (simp_all add: signed_divide_int_def zdiv_int)
  then have "word_of_int (tv_sec (ts_of t)) * 1000 + word_of_int (tv_nsec (ts_of t) sdiv 1000000) =
      (of_nat (t div 10 ^ 9 * 1000 + ?r div 10 ^ 6) :: u64)" by (simp add: ts_of_def)
  then show ?thesis by (simp only: split_ms)
qed

lemma apple_ms_of:
  assumes "m * unat num < 2 ^ 64" "unat den * 1000000 < 2 ^ 32"
  shows "(of_nat m * ucast num) div ucast (den * 1000000 :: u32) = (of_nat (m * unat num div unat den div 10 ^ 6) :: u64)"
proof -
  have "unat (den * 1000000 :: u32) = unat den * 1000000"
    using assms(2) unat_mult_lem [of den "1000000 :: u32"] by simp
  then have "ucast (den * 1000000 :: u32) = (of_nat (unat den * 1000000) :: u64)" by (metis of_nat_unat)
  moreover have "of_nat m * ucast num = (of_nat (m * unat num) :: u64)" by simp
  ultimately have "(of_nat m * ucast num) div ucast (den * 1000000 :: u32) = (of_nat (m * unat num div (unat den * 1000000)) :: u64)"
    using word_div_nat [OF assms(1), of "unat den * 1000000"] assms(2) by (simp only:) simp
  then show ?thesis by (simp add: div_mult2_eq)
qed

lemma clock_steps:
  assumes "clock_laws C ns mach num den"
  shows "clock_gettime C k w = (r, w') \<Longrightarrow> r = Some (ts_of (ns w)) \<and> ns w \<le> ns w'"
    "alarm_ioctl C fd w = (r, w') \<Longrightarrow> (r = None \<or> r = Some (ts_of (ns w))) \<and> ns w \<le> ns w'"
    "alarm_open C w = (n, w') \<Longrightarrow> ns w \<le> ns w'" "ns w \<le> ns (ck_close C fd w)"
    "mach_timebase C w = (b, w') \<Longrightarrow> b = (num, den) \<and> ns w \<le> ns w'"
    "mach_absolute_time C w = (m, w') \<Longrightarrow> m = of_nat (mach w) \<and> ns w \<le> ns w' \<and> ns w = mach w * unat num div unat den \<and>
       mach w * unat num < 2 ^ 64"
    "GetTickCount C w = (c, w') \<Longrightarrow> c = of_nat (ns w div 10 ^ 6) \<and> ns w \<le> ns w'"
    "GetTickCount64 C w = (m, w') \<Longrightarrow> m = of_nat (ns w div 10 ^ 6) \<and> ns w \<le> ns w'"
  using assms unfolding clock_laws_def by (metis fst_conv snd_conv insertE emptyE)+

lemma linux_shows:
  assumes "clock_laws C ns mach num den" "gettickcount_linux C w = (t, w')"
  shows "t = of_nat (ns w div 10 ^ 6) \<and> ns w \<le> ns w'"
proof -
  obtain r w1 where r: "clock_gettime C CLOCK_MONOTONIC w = (r, w1)" by force
  with clock_steps(1) [OF assms(1) r] assms(2) show ?thesis by (auto simp: gettickcount_linux_def linux_ms_of)
qed

lemma android_shows:
  assumes "clock_laws C ns mach num den" "gettickcount_android C junk s w = (t, s', w')"
  shows "\<exists>v. ns w \<le> ns v \<and> ns v \<le> ns w' \<and> t = of_nat (ns v div 10 ^ 6) \<and> tb_numer s' = tb_numer s \<and> tb_denom s' = tb_denom s"
proof -
  let ?open = "if s_fd s = - 1 \<and> errcode s \<noteq> c_EACCES C
     then let (fd, wa) = alarm_open C w;
              e = (if fd = - 1 then ck_errno C wa else errcode s);
              (x, wb) = (if s_fd s = - 1 then (fd, wa) else (s_fd s, if fd \<ge> 0 then ck_close C fd wa else wa))
          in (s\<lparr>s_fd := x, errcode := e\<rparr>, wb)
     else (s, w)"
  obtain s1 w1 where 1: "?open = (s1, w1)" by (rule prod.exhaust)
  have s1: "tb_numer s1 = tb_numer s" "tb_denom s1 = tb_denom s" "ns w \<le> ns w1"
    using 1 by (auto simp: Let_def split: if_splits prod.splits dest: clock_steps(3) [OF assms(1)])
  obtain r w2 where 2: "alarm_ioctl C (s_fd s1) w1 = (r, w2)" by force
  note i = clock_steps(2) [OF assms(1) 2]
  obtain r' w3 where 3: "clock_gettime C CLOCK_BOOTTIME w2 = (r', w3)" by force
  note g = clock_steps(1) [OF assms(1) 3]
  have e: "(t, s', w') = (case r of Some ts \<Rightarrow> (ts_ms ts, s1, w2) | None \<Rightarrow> (ts_ms (case r' of Some ts \<Rightarrow> ts | None \<Rightarrow> junk), s1, w3))"
    using assms(2) unfolding gettickcount_android_def Let_def [of "?open"] 1 by (cases r) (simp_all add: 2 3)
  show ?thesis
  proof (cases r)
    case None
    with e g i s1 show ?thesis by (intro exI [of _ w2]) (simp add: ts_ms_of)
  next
    case (Some ts)
    with e i s1 show ?thesis by (intro exI [of _ w1]) (simp add: ts_ms_of)
  qed
qed

lemma apple_shows:
  assumes "clock_laws C ns mach num den" "statics_ok num den s" "gettickcount_apple C s w = (t, s', w')"
  shows "\<exists>v. ns w \<le> ns v \<and> ns v \<le> ns w' \<and> t = of_nat (ns v div 10 ^ 6) \<and> statics_ok num den s'"
proof -
  have den: "den \<noteq> 0" "unat den * 1000000 < 2 ^ 32" using assms(1) by (auto simp: clock_laws_def)
  obtain s1 w1 where 1: "(if tb_denom s = 0 then case mach_timebase C w of ((n, dn), wa) \<Rightarrow> (s\<lparr>tb_numer := n, tb_denom := dn\<rparr>, wa)
      else (s, w)) = (s1, w1)" by (rule prod.exhaust)
  have s1: "tb_numer s1 = num \<and> tb_denom s1 = den" "ns w \<le> ns w1"
    using 1 assms(2) by (auto simp: statics_ok_def split: if_splits prod.splits dest!: clock_steps(5) [OF assms(1)])
  obtain m w2 where 2: "mach_absolute_time C w1 = (m, w2)" by force
  note a = clock_steps(6) [OF assms(1) 2]
  have "t = (of_nat (mach w1) * ucast num) div ucast (den * 1000000)" "s' = s1" "w' = w2"
    using assms(3) a s1(1) unfolding gettickcount_apple_def 1 by (simp_all add: 2)
  then show ?thesis using a s1 apple_ms_of [of "mach w1" num den] den(2) by (intro exI [of _ w1]) (simp add: statics_ok_def)
qed

lemma gettickcount_shows:
  assumes "clock_laws C ns mach num den" "statics_ok num den s" "pl \<noteq> Win32" "gettickcount pl C junk s w = (t, s', w')"
  shows "\<exists>v. ns w \<le> ns v \<and> ns v \<le> ns w' \<and> t = of_nat (ns v div 10 ^ 6) \<and> statics_ok num den s'"
proof (cases pl)
  case Android
  with assms(2,4) android_shows [OF assms(1), of junk s w t s' w'] show ?thesis by (auto simp: gettickcount_def statics_ok_def)
next
  case Apple
  with apple_shows [OF assms(1,2), of w t s' w'] assms(4) show ?thesis by (simp add: gettickcount_def)
next
  case WinPhone
  with assms(2,4) show ?thesis by (auto simp: gettickcount_def split: prod.splits dest!: clock_steps(8) [OF assms(1)])
qed (use assms linux_shows [OF assms(1), of w] in \<open>auto simp: gettickcount_def split: prod.splits\<close>)

text \<open>
  C27: the tick counter shows milliseconds. On every platform but Win32, a call of \<^verbatim>\<open>gettickcount\<close> returns the
  whole milliseconds of the system's clock at an instant within the call, modulo 2 to the 64,
  whether or not \<^verbatim>\<open>/dev/alarm\<close> is there and whatever earlier calls left in the static variables.
\<close>

theorem gettickcount_milliseconds:
  assumes "clock_laws C ns mach num den" "statics_ok num den s" "pl \<noteq> Win32" "gettickcount pl C junk s w = (t, s', w')"
  shows "\<exists>v. ns w \<le> ns v \<and> ns v \<le> ns w' \<and> t = of_nat (ns v div 10 ^ 6) \<and> statics_ok num den s'"
  by (rule gettickcount_shows [OF assms])

text \<open>A system whose clock advances a quarter of a millisecond with every reading, for 146 years.\<close>

definition demo_ns :: "nat \<Rightarrow> nat" where
  "demo_ns w = min w (2 ^ 62)"

definition demo_clock :: "nat clock_os" where
  "demo_clock = \<lparr>c_EACCES = 13, ck_errno = (\<lambda>w. 2), alarm_open = (\<lambda>w. (- 1, w)), alarm_ioctl = (\<lambda>fd w. (None, w)),
     ck_close = (\<lambda>fd w. w), clock_gettime = (\<lambda>k w. (Some (ts_of (demo_ns w)), w + 250000)), mach_timebase = (\<lambda>w. ((1, 1), w)),
     mach_absolute_time = (\<lambda>w. (of_nat (demo_ns w), w)), GetTickCount = (\<lambda>w. (of_nat (demo_ns w div 10 ^ 6), w)),
     GetTickCount64 = (\<lambda>w. (of_nat (demo_ns w div 10 ^ 6), w)), gettimeofday = (\<lambda>w. ((0, 0), w))\<rparr>"

lemma demo_clock_laws: "clock_laws demo_clock demo_ns demo_ns 1 1"
  by (auto simp: clock_laws_def demo_clock_def demo_ns_def)

theorem gettickcount_milliseconds_witness:
  "let (t, s', w') = gettickcount Android demo_clock \<lparr>tv_sec = 0, tv_nsec = 0\<rparr> statics_init 5250000
   in \<exists>v. 5250000 \<le> demo_ns v \<and> demo_ns v \<le> demo_ns w' \<and> t = of_nat (demo_ns v div 10 ^ 6)"
proof -
  obtain t s' w' where g: "gettickcount Android demo_clock \<lparr>tv_sec = 0, tv_nsec = 0\<rparr> statics_init 5250000 = (t, s', w')" by (metis prod_cases3)
  from gettickcount_milliseconds [OF demo_clock_laws _ _ g] g show ?thesis by (auto simp: statics_ok_def statics_init_def demo_ns_def)
qed

text \<open>
  \<^verbatim>\<open>gettickspan\<close> measures elapsed time: for a tick taken at an earlier instant it returns the whole
  milliseconds since then, as long as the counter stays below 2 to the 63.
\<close>

theorem gettickspan_elapsed:
  assumes "clock_laws C ns mach num den" "statics_ok num den s" "pl \<noteq> Win32" "ns w0 \<le> ns w"
    and "gettickspan pl C junk (of_nat (ns w0 div 10 ^ 6)) s w = (d, s', w')" "ns w' div 10 ^ 6 < 2 ^ 63"
  shows "\<exists>v. ns w \<le> ns v \<and> ns v \<le> ns w' \<and> d = int (ns v div 10 ^ 6) - int (ns w0 div 10 ^ 6)"
proof -
  obtain t s1 w1 where g: "gettickcount pl C junk s w = (t, s1, w1)" by (metis prod_cases3)
  obtain v where v: "ns w \<le> ns v" "ns v \<le> ns w1" "t = of_nat (ns v div 10 ^ 6)"
    using gettickcount_shows [OF assms(1-3) g] by blast
  have w1: "w1 = w'" using assms(5) g by (simp add: gettickspan_def)
  let ?a = "ns w0 div 10 ^ 6" and ?b = "ns v div 10 ^ 6"
  have ab: "?a \<le> ?b" "?b < 2 ^ 63" using assms(4,6) v w1 by (auto intro: div_le_mono le_less_trans)
  then have "\<not> (of_nat ?b :: u64) < of_nat ?a" by (simp add: word_less_nat_alt unsigned_of_nat take_bit_nat_eq_self)
  then have "d = sint (of_nat ?b - of_nat ?a :: u64)" using assms(5) g v(3) by (simp add: gettickspan_def)
  also have "\<dots> = sint (word_of_int (int ?b - int ?a) :: u64)" by simp
  also have "\<dots> = int ?b - int ?a" using ab by (simp only: signed_of_int) (simp add: signed_take_bit_int_eq_self)
  finally show ?thesis using v(1,2) w1 by blast
qed

text \<open>
  On Linux the counter is a clock as the race of the connectors relies on: its unit is the
  nanosecond, of which a million make a tick.
\<close>

lemma gettickcount_linux_ticks:
  assumes "clock_laws C ns mach num den" "sys_tick P = gettickcount_linux C"
    and "\<And>w. ns w < ns (snd (clock_gettime C CLOCK_MONOTONIC w)) \<and> ns (snd (clock_gettime C CLOCK_MONOTONIC w)) \<le> ns w + d"
  shows "ticks ns (10 ^ 6) d P"
proof -
  have "snd (gettickcount_linux C w) = snd (clock_gettime C CLOCK_MONOTONIC w)" for w
    by (simp add: gettickcount_linux_def split: prod.splits option.splits)
  with assms linux_shows [OF assms(1)] show ?thesis unfolding ticks_def lasts_def by (metis less_imp_le prod.collapse zero_less_power zero_less_numeral)
qed

text \<open>On Win32 the counter is the 32-bit one of the system: a span across its overflow reads as zero.\<close>

theorem win32_span_across_overflow:
  assumes "clock_laws C ns mach num den" "ns w div 10 ^ 6 mod 2 ^ 32 < ns w0 div 10 ^ 6 mod 2 ^ 32"
  shows "fst (gettickspan Win32 C junk (of_nat (ns w0 div 10 ^ 6 mod 2 ^ 32)) s w) = 0"
proof -
  obtain t w1 where g: "GetTickCount C w = (t, w1)" by force
  have "(ucast t :: u64) < of_nat (ns w0 div 10 ^ 6 mod 2 ^ 32)"
    using clock_steps(7) [OF assms(1) g] assms(2)
    by (simp add: word_less_nat_alt unsigned_of_nat unsigned_ucast_eq take_bit_eq_mod)
  then show ?thesis by (simp add: gettickspan_def gettickcount_def g)
qed

end
