(* ===== verification/SocketOptions.thy ===== *)
theory SocketOptions
  imports Breaker Clocks
begin

text \<open>
  The helpers of \<^verbatim>\<open>packet/unix_socket.cpp\<close> on every platform the file is written for, and the query of the
  segment size, which the client does not call. On Linux they are the functions of theory \<open>Breaker\<close>,
  which the client model uses.
\<close>

section \<open>The queries of the platforms\<close>

datatype sock_query = GET_TCP_MAXSEG | SO_NWRITE | SO_NREAD | SIOCOUTQ | SIOCINQ

text \<open>
  \<open>so_getsockopt\<close>, \<open>so_ioctl\<close>: the return value, and the integer stored through the pointer, if the call stores
  one. \<open>so_ioctlsocket\<close>: \<^verbatim>\<open>ioctlsocket\<close> with \<^verbatim>\<open>FIONBIO\<close>.
\<close>

record 'w sock_os =
  so_getsockopt :: "int \<Rightarrow> sock_query \<Rightarrow> 'w \<Rightarrow> (int \<times> int option) \<times> 'w"
  so_ioctl :: "int \<Rightarrow> sock_query \<Rightarrow> 'w \<Rightarrow> (int \<times> int option) \<times> 'w"
  so_ioctlsocket :: "int \<Rightarrow> int \<Rightarrow> 'w \<Rightarrow> int \<times> 'w"

definition windows :: "platform \<Rightarrow> bool" where
  "windows p = (p = Win32 \<or> p = WinPhone)"

text \<open>The variable behind the pointer after the call: \<open>old\<close> where nothing was stored.\<close>

definition stored :: "int \<Rightarrow> (int \<times> int option) \<times> 'w \<Rightarrow> int \<times> int \<times> 'w" where
  "stored old = (\<lambda>((r, v), w). (r, case v of None \<Rightarrow> old | Some n \<Rightarrow> n, w))"

section \<open>unix_socket.cpp\<close>

definition socket_set_noblo_on :: "platform \<Rightarrow> 'w sock_os \<Rightarrow> 'w posix \<Rightarrow> int \<Rightarrow> 'w \<Rightarrow> int \<times> 'w" where
  "socket_set_noblo_on p S P fd w =
     (if windows p then so_ioctlsocket S fd 1 w
      else let (r, w1) = sys_getfl P fd w
           in if r \<ge> 0 then sys_setfl P fd (r OR c_O_NONBLOCK P) w1 else (r, w1))"

definition socket_set_tcp_mss_on :: "platform \<Rightarrow> 'w posix \<Rightarrow> int \<Rightarrow> int \<Rightarrow> 'w \<Rightarrow> int \<times> 'w" where
  "socket_set_tcp_mss_on p P fd mss w = (if windows p then (0, w) else sys_setsockopt P fd (TCP_MAXSEG mss) w)"

text \<open>\<open>mss\<close>: the variable behind the pointer, \<open>None\<close> for a null pointer; the result has its value after the call.\<close>

definition socket_get_tcp_mss_on ::
  "platform \<Rightarrow> 'w sock_os \<Rightarrow> int \<Rightarrow> int option \<Rightarrow> 'w \<Rightarrow> int \<times> int option \<times> 'w" where
  "socket_get_tcp_mss_on p S fd mss w =
     (if windows p then (0, mss, w)
      else case mss of
             None \<Rightarrow> (- 1, None, w)
           | Some n \<Rightarrow> (case stored n (so_getsockopt S fd GET_TCP_MAXSEG w) of (r, m, w1) \<Rightarrow> (r, Some m, w1)))"

definition socket_get_nwrite_on :: "platform \<Rightarrow> 'w sock_os \<Rightarrow> int \<Rightarrow> int \<Rightarrow> 'w \<Rightarrow> int \<times> int \<times> 'w" where
  "socket_get_nwrite_on p S fd n w =
     (case p of
        Apple \<Rightarrow> stored n (so_getsockopt S fd SO_NWRITE w)
      | Android \<Rightarrow> stored n (so_ioctl S fd SIOCOUTQ w)
      | _ \<Rightarrow> (0, - 1, w))"

definition socket_get_nread_on :: "platform \<Rightarrow> 'w sock_os \<Rightarrow> int \<Rightarrow> int \<Rightarrow> 'w \<Rightarrow> int \<times> int \<times> 'w" where
  "socket_get_nread_on p S fd n w =
     (case p of
        Apple \<Rightarrow> stored n (so_getsockopt S fd SO_NREAD w)
      | Android \<Rightarrow> stored n (so_ioctl S fd SIOCINQ w)
      | _ \<Rightarrow> (0, - 1, w))"

definition socket_nwrite_on :: "platform \<Rightarrow> 'w sock_os \<Rightarrow> int \<Rightarrow> 'w \<Rightarrow> int \<times> 'w" where
  "socket_nwrite_on p S fd w = (case socket_get_nwrite_on p S fd 0 w of (r, v, w1) \<Rightarrow> (if r = 0 then v else r, w1))"

definition socket_nread_on :: "platform \<Rightarrow> 'w sock_os \<Rightarrow> int \<Rightarrow> 'w \<Rightarrow> int \<times> 'w" where
  "socket_nread_on p S fd w = (case socket_get_nread_on p S fd 0 w of (r, v, w1) \<Rightarrow> (if r = 0 then v else r, w1))"

section \<open>The Linux build\<close>

text \<open>What the client model calls is the Linux case, and on Windows the mode and the segment size are not the POSIX ones.\<close>

theorem linux_socket_helpers:
  "socket_set_noblo_on Linux S P fd w = socket_set_noblo P fd w"
  "socket_set_tcp_mss_on Linux P fd n w = socket_set_tcp_mss P fd n w"
  "socket_nwrite_on Linux S fd w = (socket_nwrite fd, w)"
  "socket_nread_on Linux S fd w = (socket_nread fd, w)"
  by (simp_all add: socket_set_noblo_on_def socket_set_noblo_def windows_def socket_set_tcp_mss_on_def
      socket_set_tcp_mss_def socket_nwrite_on_def socket_nwrite_def socket_get_nwrite_on_def socket_get_nwrite_def
      socket_nread_on_def socket_nread_def socket_get_nread_on_def socket_get_nread_def)

text \<open>
  Where the system can answer, the count is what it stored, and a failure is a negative value and never mistaken for a count:
  the result is a count exactly if the query succeeded.
\<close>

theorem socket_nread_counts:
  assumes "p = Apple \<or> p = Android"
    and "(if p = Apple then so_getsockopt S fd SO_NREAD w else so_ioctl S fd SIOCINQ w) = ((r, v), w1)"
    and "r = 0 \<Longrightarrow> \<exists>n \<ge> 0. v = Some n" "r \<noteq> 0 \<Longrightarrow> r = - 1"
  shows "socket_nread_on p S fd w = (if r = 0 then the v else - 1, w1)" "fst (socket_nread_on p S fd w) \<ge> 0 \<longleftrightarrow> r = 0"
  using assms by (auto simp: socket_nread_on_def socket_get_nread_on_def stored_def split: if_splits option.splits)

end
