(* ===== verification/LogExtract.thy ===== *)
theory LogExtract
  imports Posix
begin

text \<open>
  \<^verbatim>\<open>log/loginfo_extract.cpp\<close>: shortening of file and function names for a log line. A C string is the list of its characters before the terminating zero; a
  pointer into it is an index. Writing to a buffer is the string it holds afterwards.
\<close>

section \<open>ExtractFileName\<close>

text \<open>\<^verbatim>\<open>strrchr\<close>: the last index at which a character occurs.\<close>

fun strrchr :: "string \<Rightarrow> char \<Rightarrow> nat option" where
  "strrchr [] ch = None"
| "strrchr (x # xs) ch =
     (case strrchr xs ch of Some i \<Rightarrow> Some (Suc i) | None \<Rightarrow> if x = ch then Some 0 else None)"

definition ExtractFileName :: "string option \<Rightarrow> string" where
  "ExtractFileName path =
     (case path of
        None \<Rightarrow> ''''
      | Some s \<Rightarrow>
          let pos = (case strrchr s (CHR 0x5C) of None \<Rightarrow> strrchr s (CHR ''/'') | Some i \<Rightarrow> Some i)
          in case pos of
               None \<Rightarrow> s
             | Some i \<Rightarrow> if drop (Suc i) s = [] then s else drop (Suc i) s)"

section \<open>ExtractFunctionName\<close>

text \<open>
  The scan: \<open>rest\<close> is the string from \<^verbatim>\<open>pos\<close> on. The result is \<^verbatim>\<open>start\<close> and \<^verbatim>\<open>end\<close>.
\<close>

function (sequential) scan_function :: "string \<Rightarrow> nat \<Rightarrow> nat \<Rightarrow> nat option \<Rightarrow> nat \<times> nat option" where
  "scan_function [] pos start end = (start, end)"
| "scan_function (x # xs) pos start end =
     (if end = None \<and> x = CHR '' '' then scan_function xs (pos + 1) (pos + 1) end
      else if x = CHR '':'' \<and> take 1 xs = '':'' then scan_function (tl xs) (pos + 2) (pos + 2) end
      else if x = CHR ''('' then scan_function xs (pos + 1) start (Some pos)
      else if x = CHR '':'' \<or> x = CHR '']'' then (start, Some pos)
      else scan_function xs (pos + 1) start end)"
  by pat_completeness auto
termination by (relation "measure (\<lambda>(rest, pos, start, end). length rest)") auto

text \<open>
  \<open>None\<close> for a null \<^verbatim>\<open>_func\<close>: the buffer is not written. A length below one writes outside the
  buffer. \<^verbatim>\<open>strncpy\<close> and the final zero leave the first \<^verbatim>\<open>_len - 1\<close> characters.
\<close>

definition ExtractFunctionName :: "string option \<Rightarrow> string \<Rightarrow> int \<Rightarrow> fault + string" where
  "ExtractFunctionName func buf len =
     (case func of
        None \<Rightarrow> Inr buf
      | Some s \<Rightarrow>
          if len < 1 then Inl Undefined
          else case scan_function s 0 0 None of
                 (start, None) \<Rightarrow> Inr (take (nat (len - 1)) s)
               | (start, Some e) \<Rightarrow>
                   if start + 1 \<ge> e then Inr (take (nat (len - 1)) s)
                   else Inr (take (nat (min (len - 1) (int e - int start))) (drop start s)))"

section \<open>Properties\<close>

lemma strrchr_None: "strrchr s ch = None \<Longrightarrow> ch \<notin> set s"
  by (induction s) (auto split: option.splits if_splits)

lemma strrchr_Some: "strrchr s ch = Some i \<Longrightarrow> i < length s \<and> s ! i = ch \<and> ch \<notin> set (drop (Suc i) s)"
  by (induction s arbitrary: i) (auto dest: strrchr_None split: option.splits if_splits)

lemma scan_function_bound:
  "scan_function rest pos start e = (start', Some i) \<Longrightarrow> (\<And>j. e = Some j \<Longrightarrow> j < n) \<Longrightarrow> pos + length rest \<le> n \<Longrightarrow> i < n"
proof (induction rest pos start e rule: scan_function.induct)
  case (2 x xs pos start e)
  have "length (tl xs) = length xs - 1" by simp
  with 2 show ?case by (cases xs) (auto split: if_splits)
qed auto

text \<open>
  The name a log line gets fits its buffer: with a buffer of \<^verbatim>\<open>_len > 0\<close> bytes
  \<^verbatim>\<open>ExtractFunctionName\<close> stores at most \<^verbatim>\<open>_len - 1\<close> characters before the zero, and they are a
  contiguous part of the signature it was given; the range it copies ends inside the signature.
\<close>

theorem ExtractFunctionName_fits:
  assumes "0 < len"
  shows "\<exists>out pre post. ExtractFunctionName (Some s) buf len = Inr out \<and> int (length out) \<le> len - 1 \<and> s = pre @ out @ post \<and>
     (\<forall>start e. scan_function s 0 0 None = (start, Some e) \<longrightarrow> e < length s)"
proof -
  have part: "int (length (take (nat k) (drop i s))) \<le> len - 1 \<and> s = take i s @ take (nat k) (drop i s) @ drop (nat k) (drop i s)"
    if "k \<le> len - 1" "0 \<le> len - 1" for k i
  proof
    show "int (length (take (nat k) (drop i s))) \<le> len - 1" using that by simp
    show "s = take i s @ take (nat k) (drop i s) @ drop (nat k) (drop i s)" by (metis append_take_drop_id)
  qed
  obtain start e where sc: "scan_function s 0 0 None = (start, e)" by force
  define i k where "i = (case e of Some j \<Rightarrow> if start + 1 \<ge> j then 0 else start | None \<Rightarrow> 0)"
    and "k = (case e of Some j \<Rightarrow> if start + 1 \<ge> j then len - 1 else min (len - 1) (int j - int start) | None \<Rightarrow> len - 1)"
  have out: "ExtractFunctionName (Some s) buf len = Inr (take (nat k) (drop i s))"
    using assms sc by (cases e) (simp_all add: ExtractFunctionName_def i_def k_def)
  have "k \<le> len - 1" by (auto simp: k_def split: option.splits)
  moreover have "\<forall>start e. scan_function s 0 0 None = (start, Some e) \<longrightarrow> e < length s"
    using scan_function_bound [of s 0 0 None _ _ "length s"] by auto
  ultimately show ?thesis using part [of k i] assms out by fastforce
qed

text \<open>
  \<^verbatim>\<open>ExtractFileName\<close> returns the part of the path after its last separator, a suffix of the
  path; a path without backslashes that does not end in a slash gives a name without slashes.
\<close>

theorem ExtractFileName_base:
  "(\<exists>dir. s = dir @ ExtractFileName (Some s)) \<and>
   (CHR 0x5C \<notin> set s \<longrightarrow> s \<noteq> [] \<longrightarrow> last s \<noteq> CHR ''/'' \<longrightarrow> CHR ''/'' \<notin> set (ExtractFileName (Some s)))"
proof
  have tail: "\<exists>dir. s = dir @ drop i s" for i by (metis append_take_drop_id)
  from tail show "\<exists>dir. s = dir @ ExtractFileName (Some s)"
    by (auto simp: ExtractFileName_def Let_def split: option.splits)
  show "CHR 0x5C \<notin> set s \<longrightarrow> s \<noteq> [] \<longrightarrow> last s \<noteq> CHR ''/'' \<longrightarrow> CHR ''/'' \<notin> set (ExtractFileName (Some s))"
  proof (intro impI)
    assume a: "CHR 0x5C \<notin> set s" "s \<noteq> []" "last s \<noteq> CHR ''/''"
    have b: "strrchr s (CHR 0x5C) = None" using a(1) strrchr_Some [of s "CHR 0x5C"] nth_mem by (cases "strrchr s (CHR 0x5C)") force+
    show "CHR ''/'' \<notin> set (ExtractFileName (Some s))"
    proof (cases "strrchr s (CHR ''/'')")
      case None
      with b strrchr_None [OF None] show ?thesis by (simp add: ExtractFileName_def)
    next
      case (Some i)
      note i = strrchr_Some [OF Some]
      have "Suc i \<noteq> length s" using i a(2,3) by (metis last_conv_nth diff_Suc_1)
      with i b Some show ?thesis by (simp add: ExtractFileName_def)
    qed
  qed
qed

end
