(* ===== verification/Logging.thy ===== *)
theory Logging
  imports LogExtract WireSafety
begin

text \<open>
  \<^verbatim>\<open>log/zlogger.cpp\<close> and the console of each platform (\<^verbatim>\<open>log/linux\<close>, \<^verbatim>\<open>log/android\<close>, \<^verbatim>\<open>log/objc\<close>). Of the formatted
  output functions the model has the directives the program's calls use; any other one, and one whose
  argument is missing or of another type, is undefined.
\<close>

section \<open>Formatted output\<close>

text \<open>An argument of a variadic call: an \<^verbatim>\<open>int\<close>, a \<^verbatim>\<open>uint64_t\<close>, a pointer to characters.\<close>

datatype vararg = VInt int | VU64 u64 | VStr "string option"

fun dec_nat :: "nat \<Rightarrow> string" where
  "dec_nat n = (if n < 10 then [char_of (48 + n)] else dec_nat (n div 10) @ [char_of (48 + n mod 10)])"

declare dec_nat.simps [simp del]

definition dec_int :: "int \<Rightarrow> string" where
  "dec_int i = (if i < 0 then CHR ''-'' # dec_nat (nat (- i)) else dec_nat (nat i))"

text \<open>Output before the rest of the output.\<close>

definition prepend :: "string \<Rightarrow> fault + string \<Rightarrow> fault + string" where
  "prepend s r = (case r of Inl f \<Rightarrow> Inl f | Inr t \<Rightarrow> Inr (s @ t))"

fun format_c :: "string \<Rightarrow> vararg list \<Rightarrow> fault + string" where
  "format_c [] args = Inr []"
| "format_c (c # cs) args =
     (if c \<noteq> CHR ''%'' then prepend [c] (format_c cs args)
      else case cs of
             [] \<Rightarrow> Inl Undefined
           | d # ds \<Rightarrow>
               if d = CHR ''%'' then prepend ''%'' (format_c ds args)
               else if d = CHR ''d''
               then (case args of VInt i # as \<Rightarrow> prepend (dec_int i) (format_c ds as) | _ \<Rightarrow> Inl Undefined)
               else if d = CHR ''s''
               then (case args of VStr (Some s) # as \<Rightarrow> prepend s (format_c ds as) | _ \<Rightarrow> Inl Undefined)
               else Inl Undefined)"

text \<open>\<^verbatim>\<open>snprintf\<close> into a buffer of \<open>n\<close> bytes: what the buffer holds before the zero.\<close>

definition snprintf :: "nat \<Rightarrow> string \<Rightarrow> vararg list \<Rightarrow> fault + string" where
  "snprintf n fmt args = (case format_c fmt args of Inl f \<Rightarrow> Inl f | Inr s \<Rightarrow> Inr (take (n - 1) s))"

section \<open>The console\<close>

datatype LogLevel = kLevelVerbose | kLevelDebug | kLevelInfo | kLevelWarn | kLevelError | kLevelFatal | kLevelNone

fun level_num :: "LogLevel \<Rightarrow> nat" where
  "level_num kLevelVerbose = 0"
| "level_num kLevelDebug = 1"
| "level_num kLevelInfo = 2"
| "level_num kLevelWarn = 3"
| "level_num kLevelError = 4"
| "level_num kLevelFatal = 5"
| "level_num kLevelNone = 6"

text \<open>The fields of \<^verbatim>\<open>LoggerInfo\<close> the consoles read.\<close>

record LoggerInfo =
  li_level :: LogLevel
  li_tag :: "string option"
  li_fileName :: "string option"
  li_funcName :: "string option"
  li_line :: int

text \<open>What reaches the platform: a priority, a tag and the text.\<close>

record log_line =
  ll_prio :: int
  ll_tag :: string
  ll_text :: string

text \<open>\<^verbatim>\<open>log?log:"NULL==log!!!"\<close>\<close>

definition log_or_null :: "string option \<Rightarrow> string" where
  "log_or_null log = (case log of None \<Rightarrow> ''NULL==log!!!'' | Some s \<Rightarrow> s)"

text \<open>The text in \<^verbatim>\<open>result_log\<close>, the same on Linux and Android.\<close>

definition result_log :: "LoggerInfo option \<Rightarrow> string option \<Rightarrow> fault + string" where
  "result_log info log =
     (case info of
        Some i \<Rightarrow>
          (case ExtractFunctionName (li_funcName i) '''' 128 of
             Inl f \<Rightarrow> Inl f
           | Inr strFuncName \<Rightarrow>
               snprintf 2048 ''[%s, %s, %d]:%s''
                 [VStr (Some (ExtractFileName (li_fileName i))), VStr (Some strFuncName), VInt (li_line i), VStr (Some (log_or_null log))])
      | None \<Rightarrow> snprintf 2048 ''%s'' [VStr (Some (log_or_null log))])"

text \<open>Linux: \<^verbatim>\<open>printf(result_log)\<close>, the text as the format.\<close>

definition ConsoleLog_linux :: "LoggerInfo option \<Rightarrow> string option \<Rightarrow> fault + log_line option" where
  "ConsoleLog_linux info log =
     (case result_log info log of
        Inl f \<Rightarrow> Inl f
      | Inr r \<Rightarrow> (case format_c r [] of Inl f \<Rightarrow> Inl f | Inr out \<Rightarrow> Inr (Some \<lparr>ll_prio = 0, ll_tag = '''', ll_text = out\<rparr>)))"

definition ANDROID_LOG_WARN :: int where
  "ANDROID_LOG_WARN = 5"

definition ConsoleLog_android :: "LoggerInfo option \<Rightarrow> string option \<Rightarrow> fault + log_line option" where
  "ConsoleLog_android info log =
     (case result_log info log of
        Inl f \<Rightarrow> Inl f
      | Inr r \<Rightarrow>
          (case info of
             Some i \<Rightarrow> Inr (Some \<lparr>ll_prio = int (level_num (li_level i)) + 2, ll_tag = (case li_tag i of None \<Rightarrow> '''' | Some t \<Rightarrow> t), ll_text = r\<rparr>)
           | None \<Rightarrow> Inr (Some \<lparr>ll_prio = ANDROID_LOG_WARN, ll_tag = '''', ll_text = r\<rparr>)))"

definition levelStrings :: "string list" where
  "levelStrings = [''V'', ''D'', ''I'', ''W'', ''E'', ''F'']"

text \<open>Apple: no output without info or text; an index past the table is undefined.\<close>

definition ConsoleLog_objc :: "LoggerInfo option \<Rightarrow> string option \<Rightarrow> fault + log_line option" where
  "ConsoleLog_objc info log =
     (case (info, log) of
        (Some i, Some l) \<Rightarrow>
          (case ExtractFunctionName (li_funcName i) '''' 128 of
             Inl f \<Rightarrow> Inl f
           | Inr strFuncName \<Rightarrow>
               if level_num (li_level i) < length levelStrings
               then case snprintf (16 * 1024) ''[%s][%s][%s, %s, %d][%s''
                      [VStr (Some (levelStrings ! level_num (li_level i))), VStr (Some (case li_tag i of None \<Rightarrow> '''' | Some t \<Rightarrow> t)),
                       VStr (Some (ExtractFileName (li_fileName i))), VStr (Some strFuncName), VInt (li_line i), VStr (Some l)] of
                      Inl f \<Rightarrow> Inl f
                    | Inr out \<Rightarrow> Inr (Some \<lparr>ll_prio = 0, ll_tag = '''', ll_text = out\<rparr>)
               else Inl Undefined)
      | _ \<Rightarrow> Inr None)"

datatype console = LinuxConsole | AndroidConsole | ObjcConsole

definition ConsoleLog :: "console \<Rightarrow> LoggerInfo option \<Rightarrow> string option \<Rightarrow> fault + log_line option" where
  "ConsoleLog pl = (case pl of LinuxConsole \<Rightarrow> ConsoleLog_linux | AndroidConsole \<Rightarrow> ConsoleLog_android | ObjcConsole \<Rightarrow> ConsoleLog_objc)"

definition console_info :: "LogLevel \<Rightarrow> LoggerInfo" where
  "console_info level = \<lparr>li_level = level, li_tag = Some ''zzconsole'', li_fileName = None, li_funcName = None, li_line = 0\<rparr>"

definition zlogger2console :: "console \<Rightarrow> LogLevel \<Rightarrow> string option \<Rightarrow> vararg list \<Rightarrow> fault + log_line option" where
  "zlogger2console pl level format args =
     (case format of
        None \<Rightarrow> ConsoleLog pl (Some (console_info kLevelFatal)) (Some ''NULL == _format'')
      | Some fmt \<Rightarrow>
          (case snprintf 4096 fmt args of
             Inl f \<Rightarrow> Inl f
           | Inr temp \<Rightarrow> ConsoleLog pl (Some (console_info level)) (Some temp)))"

section \<open>What is printed\<close>

lemma prepend_Inr [simp]: "prepend s (Inr t) = Inr (s @ t)" "prepend s (Inl f) = Inl f"
  by (simp_all add: prepend_def)

lemma format_plain: "CHR ''%'' \<notin> set s \<Longrightarrow> format_c (s @ t) args = prepend s (format_c t args)"
  by (induction s) (auto simp: prepend_def split: sum.splits)

lemma format_no_directive: "CHR ''%'' \<notin> set s \<Longrightarrow> format_c s args = Inr s"
  using format_plain [of s "[]" args] by simp

lemma format_missing:
  "CHR ''%'' \<notin> set s \<Longrightarrow> t = [] \<or> hd t \<noteq> CHR ''%'' \<Longrightarrow> format_c (s @ CHR ''%'' # t) [] = Inl Undefined"
  by (subst format_plain) (cases t; simp)+

lemma dec_zero: "dec_int 0 = ''0''"
  by code_simp

text \<open>The text of a log call: behind an empty source position, and cut by the two buffers.\<close>

definition console_text :: "string \<Rightarrow> string" where
  "console_text s = take 2047 (''[, , 0]:'' @ take 4095 s)"

lemma result_log_console: "result_log (Some (console_info level)) (Some (take 4095 s)) = Inr (console_text s)"
  by (simp add: result_log_def console_info_def ExtractFunctionName_def ExtractFileName_def snprintf_def log_or_null_def dec_zero
      console_text_def)

lemma zlogger2console_text:
  assumes "format_c fmt args = Inr s"
  shows "zlogger2console AndroidConsole level (Some fmt) args =
      Inr (Some \<lparr>ll_prio = int (level_num level) + 2, ll_tag = ''zzconsole'', ll_text = console_text s\<rparr>)"
    "zlogger2console LinuxConsole level (Some fmt) args =
      (case format_c (console_text s) [] of Inl f \<Rightarrow> Inl f | Inr out \<Rightarrow> Inr (Some \<lparr>ll_prio = 0, ll_tag = '''', ll_text = out\<rparr>))"
  by (simp_all add: zlogger2console_def snprintf_def assms ConsoleLog_def ConsoleLog_android_def ConsoleLog_linux_def result_log_console)
    (simp_all add: console_info_def)

text \<open>A \<^verbatim>\<open>std::string\<close> as a C string.\<close>

definition c_str :: "bytes \<Rightarrow> string" where
  "c_str bs = map (\<lambda>b. char_of (unat b)) (takeWhile (\<lambda>b. b \<noteq> 0) bs)"

text \<open>The line \<^verbatim>\<open>Connect::Decode\<close> logs for a protocol name it does not know.\<close>

definition log_bad_name :: "console \<Rightarrow> bytes \<Rightarrow> fault + log_line option" where
  "log_bad_name pl name = zlogger2console pl kLevelError (Some ''invalid protocol name:%s'') [VStr (Some (c_str name))]"

context byte_reader
begin

lemma DecodeMessage_bad_name:
  assumes "good s" "pending s = frame kMsgConnect 0 (sized name @ tail) @ rest" "length (sized name @ tail) < 2 ^ 28" "name \<noteq> kProtocolName"
  shows "fst (DecodeMessage Z j rd s) = Inl (excOf TcpExcInvalidProName)"
proof -
  let ?h = "\<lparr>fh_msgType = kMsgConnect, fh_remainLen = word_of_nat (length (sized name @ tail)), fh_flags = 0\<rparr>"
  obtain u where u: "FixHeader_Decode rd (FixHeader_new j) s = (Inr ?h, u)" "good u" "pending u = (sized name @ tail) @ rest"
    using FixHeader_Decode_frame [OF assms(1,2) _ _ assms(3), of j] by (auto simp: flags_ok_def)
  have n: "length name < 2 ^ 28" using assms(3) by (simp add: sized_def)
  obtain v where "getString rd (fh_remainLen ?h) u = (Inr (name, word_of_nat (length tail)), v)"
    using getString_rem [OF u(2) _ n, of "tail @ rest" "length tail"] u(3) assms(3) by auto
  with u(1) assms(4) show ?thesis by (simp add: DecodeMessage_def Connect_Decode_def)
qed

end

text \<open>
  On Android a log call prints the formatted text: the priority is the level plus two, and the text is
  the formatted message, cut to 4095 characters, behind an empty source position, cut to 2047 in all.
  On Linux the same text is printed, if it contains no percent sign.
\<close>

theorem zlogger2console_prints:
  assumes "format_c fmt args = Inr s"
  shows "zlogger2console AndroidConsole level (Some fmt) args =
      Inr (Some \<lparr>ll_prio = int (level_num level) + 2, ll_tag = ''zzconsole'', ll_text = console_text s\<rparr>) \<and>
    (CHR ''%'' \<notin> set s \<longrightarrow> zlogger2console LinuxConsole level (Some fmt) args =
      Inr (Some \<lparr>ll_prio = 0, ll_tag = '''', ll_text = console_text s\<rparr>))"
proof -
  have "format_c (console_text s) [] = Inr (console_text s)" if "CHR ''%'' \<notin> set s"
    using that by (intro format_no_directive) (auto simp: console_text_def dest!: in_set_takeD)
  then show ?thesis using zlogger2console_text [OF assms, of level] by simp
qed

theorem zlogger2console_prints_witness:
  "zlogger2console AndroidConsole kLevelError (Some ''select error, socket_errno:%d'') [VInt (- 9)] =
     Inr (Some \<lparr>ll_prio = 6, ll_tag = ''zzconsole'', ll_text = ''[, , 0]:select error, socket_errno:-9''\<rparr>)"
proof -
  have "format_c ''select error, socket_errno:%d'' [VInt (- 9)] = Inr ''select error, socket_errno:-9''" by code_simp
  from zlogger2console_prints [OF this, of kLevelError] show ?thesis by (simp add: console_text_def)
qed

text \<open>
  C39: a peer chooses the format of the Linux console. A \<^verbatim>\<open>Connect\<close> message whose protocol name contains a
  directive makes \<^verbatim>\<open>Connect::Decode\<close> throw, as it should; but before, it logs the name, and
  the Linux console passes the text to \<^verbatim>\<open>printf\<close> as the format, with no arguments.
\<close>

theorem peer_chooses_format:
  assumes "os_stream P so pend ok" "ok w" "pend w = frame kMsgConnect 0 (sized name @ tail) @ rest" "length (sized name @ tail) < 2 ^ 28"
    and "name = pre @ 0x25 # d # post" "0 \<notin> set pre" "0x25 \<notin> set pre" "d \<noteq> 0x25" "length pre < 2000"
  shows "fst (DecodeMessage Z j (TcpReader_ReadFull P \<lparr>tr_socket = Some so\<rparr>) w) = Inl (excOf TcpExcInvalidProName) \<and>
    log_bad_name LinuxConsole name = Inl Undefined"
proof
  have n: "name \<noteq> kProtocolName"
    using assms(5) by (auto simp: kProtocolName_def append_eq_Cons_conv)
  show "fst (DecodeMessage Z j (TcpReader_ReadFull P \<lparr>tr_socket = Some so\<rparr>) w) = Inl (excOf TcpExcInvalidProName)"
    using tcp_rd.DecodeMessage_bad_name [of ok w P so pend name tail rest Z j] assms(1-4) n by simp
  have char: "char_of (unat b) = CHR ''%'' \<longleftrightarrow> b = 0x25" for b :: u8
  proof -
    have "take_bit 8 (unat b) = unat b" using unsigned_less [of b, where ?'a = nat] by (intro take_bit_nat_eq_self) simp
    then have "char_of (unat b) = CHR ''%'' \<longleftrightarrow> unat b = 37" by (simp add: char_of_eq_iff)
    then show ?thesis using word_unat_eq_iff [of b 37] by simp
  qed
  let ?pre = "map (\<lambda>b. char_of (unat b)) pre" and ?t = "c_str (d # post)"
  have c: "c_str name = ?pre @ CHR ''%'' # ?t"
  proof -
    have "takeWhile (\<lambda>b. b \<noteq> 0) name = pre @ takeWhile (\<lambda>b. b \<noteq> 0) (0x25 # d # post)"
      unfolding assms(5) by (rule takeWhile_append2) (use assms(6) in auto)
    then show ?thesis using char [of 37] by (simp add: c_str_def)
  qed
  have t: "?t = [] \<or> hd ?t \<noteq> CHR ''%''" using assms(8) char by (simp add: c_str_def)
  let ?A = "''[, , 0]:invalid protocol name:'' @ ?pre" and ?k = "2016 - length pre"
  have "console_text (''invalid protocol name:'' @ ?pre @ CHR ''%'' # ?t) = ?A @ CHR ''%'' # take ?k ?t"
    using assms(9) by (simp add: console_text_def take_Cons' Suc_diff_le)
  moreover have "CHR ''%'' \<notin> set ?pre" using assms(7) char by (metis (no_types, lifting) imageE list.set_map)
  then have "CHR ''%'' \<notin> set ?A" by simp
  moreover have "take ?k ?t = [] \<or> hd (take ?k ?t) \<noteq> CHR ''%''" using t by (cases ?t; cases ?k) auto
  ultimately have "format_c (console_text (''invalid protocol name:'' @ c_str name)) [] = Inl Undefined"
    using format_missing [of ?A "take ?k ?t"] c by simp
  moreover have "format_c ''invalid protocol name:%s'' [VStr (Some (c_str name))] = Inr (''invalid protocol name:'' @ c_str name)" by simp
  ultimately show "log_bad_name LinuxConsole name = Inl Undefined"
    unfolding log_bad_name_def by (simp only: zlogger2console_text sum.case)
qed

theorem peer_chooses_format_witness:
  "fst (DecodeMessage stored_zlib sample_junk (TcpReader_ReadFull drip_posix \<lparr>tr_socket = Some (PlainSocket \<lparr>ts_socket = 3\<rparr>)\<rparr>)
       (frame kMsgConnect 0 (sized [0x25, 0x6E] @ []) @ [])) = Inl (excOf TcpExcInvalidProName) \<and>
   log_bad_name LinuxConsole [0x25, 0x6E] = Inl Undefined"
  by (rule peer_chooses_format [where pend = "\<lambda>w. w" and ok = "\<lambda>w. True" and pre = "[]" and d = "0x6E" and post = "[]" and tail = "[]" and rest = "[]"])
    (simp_all add: drip_recv_stream sized_def encodeLength_length)

end
