(* ===== verification/JniBridge.thy ===== *)
theory JniBridge
  imports NetCore Samples
begin

text \<open>
  \<^verbatim>\<open>jni\<close>: the bindings for Java. The virtual machine is a parameter, a record of the functions of the JNI
  interface over an abstract state \<open>'v\<close>; a reference is a number, a null reference \<open>None\<close>. A call
  through a null environment and a null reference where JNI demands an object are undefined, as is
  a \<^verbatim>\<open>std::string\<close> from a null pointer.
\<close>

section \<open>The virtual machine\<close>

type_synonym jref = nat

datatype jvalue = JInt int | JObject "jref option"

datatype env_status = JNI_OK | JNI_EDETACHED | JNI_EVERSION

record 'v jvm =
  jv_GetEnv :: "'v \<Rightarrow> env_status \<times> 'v"
  jv_Attach :: "'v \<Rightarrow> bool \<times> 'v"
  jv_Detach :: "'v \<Rightarrow> 'v"
  jv_ExceptionOccurred :: "'v \<Rightarrow> bool \<times> 'v"
  jv_NewLocalRef :: "jref option \<Rightarrow> 'v \<Rightarrow> jref option \<times> 'v"
  jv_DeleteLocalRef :: "jref option \<Rightarrow> 'v \<Rightarrow> 'v"
  jv_NewGlobalRef :: "jref option \<Rightarrow> 'v \<Rightarrow> jref option \<times> 'v"
  jv_DeleteGlobalRef :: "jref option \<Rightarrow> 'v \<Rightarrow> 'v"
  jv_GetStringUTFChars :: "jref \<Rightarrow> 'v \<Rightarrow> bytes option \<times> 'v"
  jv_ReleaseStringUTFChars :: "jref \<Rightarrow> bytes \<Rightarrow> 'v \<Rightarrow> 'v"
  jv_FindClass :: "string \<Rightarrow> 'v \<Rightarrow> jref option \<times> 'v"
  jv_GetObjectClass :: "jref \<Rightarrow> 'v \<Rightarrow> jref option \<times> 'v"
  jv_GetMethodID :: "jref option \<Rightarrow> string \<Rightarrow> string \<Rightarrow> 'v \<Rightarrow> nat option \<times> 'v"
  jv_NewByteArray :: "bytes \<Rightarrow> 'v \<Rightarrow> jref option \<times> 'v"
  jv_NewStringUTF :: "string \<Rightarrow> 'v \<Rightarrow> jref option \<times> 'v"
  jv_NewObject :: "jref option \<Rightarrow> nat option \<Rightarrow> jref option \<Rightarrow> jref option \<Rightarrow> 'v \<Rightarrow> jref option \<times> 'v"
  jv_CallVoidMethod :: "jref \<Rightarrow> nat option \<Rightarrow> jvalue list \<Rightarrow> 'v \<Rightarrow> 'v"
  jv_CallObjectMethod :: "jref \<Rightarrow> nat option \<Rightarrow> jvalue list \<Rightarrow> 'v \<Rightarrow> jref option \<times> 'v"
  jv_GetArrayLength :: "jref \<Rightarrow> 'v \<Rightarrow> nat \<times> 'v"
  jv_GetObjectArrayElement :: "jref \<Rightarrow> nat \<Rightarrow> 'v \<Rightarrow> jref option \<times> 'v"
  jv_GetByteArrayRegion :: "jref \<Rightarrow> nat \<Rightarrow> 'v \<Rightarrow> bytes \<times> 'v"

text \<open>A call without a result.\<close>

definition invoke :: "('v \<Rightarrow> 'v) \<Rightarrow> ('v, unit) io" where
  "invoke f = lift (\<lambda>v. ((), f v))"

section \<open>ScopedJstring\<close>

record ScopedJstring =
  sj_jstr :: "jref option"
  sj_char :: "bytes option"
  sj_jstr2char :: bool

text \<open>The environment of the constructors is never null in the sources.\<close>

definition ScopedJstring_ofJstr :: "'v jvm \<Rightarrow> jref option \<Rightarrow> ('v, ScopedJstring) io" where
  "ScopedJstring_ofJstr J str =
     seq (lift (jv_NewLocalRef J str)) (\<lambda>jstr.
     case jstr of
       None \<Rightarrow> ret \<lparr>sj_jstr = None, sj_char = None, sj_jstr2char = True\<rparr>
     | Some r \<Rightarrow>
         seq (lift (jv_ExceptionOccurred J)) (\<lambda>e.
         if e then ret \<lparr>sj_jstr = Some r, sj_char = None, sj_jstr2char = True\<rparr>
         else seq (lift (jv_GetStringUTFChars J r)) (\<lambda>ch.
              ret \<lparr>sj_jstr = Some r, sj_char = ch, sj_jstr2char = True\<rparr>)))"

text \<open>\<open>str\<close> holds the bytes before the first zero.\<close>

definition ScopedJstring_ofChar :: "'v jvm \<Rightarrow> bytes \<Rightarrow> ('v, ScopedJstring) io" where
  "ScopedJstring_ofChar J str =
     seq (lift (jv_ExceptionOccurred J)) (\<lambda>e.
     if e then ret \<lparr>sj_jstr = None, sj_char = Some str, sj_jstr2char = False\<rparr>
     else
       seq (lift (jv_FindClass J ''java/lang/String'')) (\<lambda>strClass.
       seq (lift (jv_GetMethodID J strClass ''<init>'' ''([BLjava/lang/String;)V'')) (\<lambda>ctorID.
       seq (lift (jv_NewByteArray J str)) (\<lambda>bytes.
       seq (lift (jv_NewStringUTF J ''utf-8'')) (\<lambda>encoding.
       seq (lift (jv_NewObject J strClass ctorID bytes encoding)) (\<lambda>jstr.
       seq (invoke (jv_DeleteLocalRef J bytes)) (\<lambda>_.
       seq (invoke (jv_DeleteLocalRef J encoding)) (\<lambda>_.
       seq (invoke (jv_DeleteLocalRef J strClass)) (\<lambda>_.
       ret \<lparr>sj_jstr = jstr, sj_char = Some str, sj_jstr2char = False\<rparr>)))))))))"

definition ScopedJstring_delete :: "'v jvm \<Rightarrow> ScopedJstring \<Rightarrow> ('v, unit) io" where
  "ScopedJstring_delete J s =
     (case (sj_jstr s, sj_char s) of
        (Some r, Some ch) \<Rightarrow>
          seq (lift (jv_ExceptionOccurred J)) (\<lambda>e.
          if e then ret ()
          else seq (if sj_jstr2char s then invoke (jv_ReleaseStringUTFChars J r ch) else ret ()) (\<lambda>_.
               invoke (jv_DeleteLocalRef J (Some r))))
      | _ \<Rightarrow> ret ())"

definition ScopedJstring_GetChar :: "'v jvm \<Rightarrow> ScopedJstring \<Rightarrow> ('v, bytes option) io" where
  "ScopedJstring_GetChar J s = seq (lift (jv_ExceptionOccurred J)) (\<lambda>e. ret (if e then None else sj_char s))"

definition ScopedJstring_SafeGetChar :: "'v jvm \<Rightarrow> ScopedJstring \<Rightarrow> ('v, bytes) io" where
  "ScopedJstring_SafeGetChar J s = seq (ScopedJstring_GetChar J s) (\<lambda>r. ret (case r of None \<Rightarrow> [] | Some ch \<Rightarrow> ch))"

definition ScopedJstring_GetJstr :: "'v jvm \<Rightarrow> ScopedJstring \<Rightarrow> ('v, jref option) io" where
  "ScopedJstring_GetJstr J s = seq (lift (jv_ExceptionOccurred J)) (\<lambda>e. ret (if e then None else sj_jstr s))"

section \<open>The callbacks\<close>

text \<open>The values of the enumerations, as Java sees them.\<close>

primrec ErrorCode_num :: "ErrorCode \<Rightarrow> int" where
  "ErrorCode_num kErrorCodeNone = 0"
| "ErrorCode_num kErrorCodeNotConnect = 1"
| "ErrorCode_num kErrorCodeTimeout = 2"
| "ErrorCode_num kErrorCodeLoseConnect = 3"

primrec ConnectStatus_num :: "ConnectStatus \<Rightarrow> int" where
  "ConnectStatus_num kConnectIdle = 0"
| "ConnectStatus_num kConnecting = 1"
| "ConnectStatus_num kConnected = 2"
| "ConnectStatus_num kDisconnected = 3"
| "ConnectStatus_num kConnectFailed = 4"
| "ConnectStatus_num kConnectKickout = 5"

primrec SvrDisCode_num :: "SvrDisCode \<Rightarrow> int" where
  "SvrDisCode_num SvrDisNone = 0"
| "SvrDisCode_num SvrDisKickout = 1"
| "SvrDisCode_num (SvrDisUnnamed v) = uint v"

text \<open>The environment, if it is not null, and \<^verbatim>\<open>needDetach\<close>.\<close>

definition getJniEnv :: "'v jvm \<Rightarrow> ('v, bool \<times> bool) io" where
  "getJniEnv J =
     seq (lift (jv_GetEnv J)) (\<lambda>stat.
     case stat of
       JNI_OK \<Rightarrow> ret (True, False)
     | JNI_EDETACHED \<Rightarrow> seq (lift (jv_Attach J)) (\<lambda>env. ret (env, True))
     | JNI_EVERSION \<Rightarrow> ret (False, False))"

text \<open>\<^verbatim>\<open>getJniEnv\<close>, the body of a closure, and the detach at its end.\<close>

definition in_env :: "'v jvm \<Rightarrow> ('v, 'a) io \<Rightarrow> ('v, 'a) io" where
  "in_env J body =
     seq (getJniEnv J) (\<lambda>(env, needDetach).
     if \<not> env then fail Undefined
     else seq body (\<lambda>a. seq (if needDetach then invoke (jv_Detach J) else ret ()) (\<lambda>_. ret a)))"

text \<open>The class of the listener and its method; the closures ask for nothing of a null listener.\<close>

definition listener_method :: "'v jvm \<Rightarrow> jref option \<Rightarrow> string \<Rightarrow> string \<Rightarrow> ('v, jref \<times> nat option) io" where
  "listener_method J gListener name signature =
     (case gListener of
        None \<Rightarrow> fail Undefined
      | Some l \<Rightarrow>
          seq (lift (jv_GetObjectClass J l)) (\<lambda>listenerClassRef.
          seq (lift (jv_GetMethodID J listenerClassRef name signature)) (\<lambda>m. ret (l, m))))"

definition getConnectInfo_callback :: "'v jvm \<Rightarrow> jref option \<Rightarrow> ('v, bytes) io" where
  "getConnectInfo_callback J gListener =
     in_env J (
       seq (listener_method J gListener ''getConnectInfo'' ''()Ljava/lang/String;'') (\<lambda>(l, m).
       seq (lift (jv_CallObjectMethod J l m [])) (\<lambda>connectInfo.
       seq (ScopedJstring_ofJstr J connectInfo) (\<lambda>connect_info_jstr.
       seq (ScopedJstring_SafeGetChar J connect_info_jstr) (\<lambda>cConnectInfo.
       seq (ScopedJstring_delete J connect_info_jstr) (\<lambda>_. ret cConnectInfo))))))"

definition onSendResp_callback :: "'v jvm \<Rightarrow> jref option \<Rightarrow> ErrorCode \<Rightarrow> bytes \<Rightarrow> ('v, unit) io" where
  "onSendResp_callback J gListener errorCode response =
     in_env J (
       seq (listener_method J gListener ''onSendResp'' ''(ILjava/lang/String;)V'') (\<lambda>(l, m).
       seq (ScopedJstring_ofChar J (takeWhile (\<lambda>b. b \<noteq> 0) response)) (\<lambda>response_jstr.
       seq (ScopedJstring_GetJstr J response_jstr) (\<lambda>s.
       seq (invoke (jv_CallVoidMethod J l m [JInt (ErrorCode_num errorCode), JObject s])) (\<lambda>_.
       seq (invoke (jv_DeleteGlobalRef J gListener)) (\<lambda>_.
       ScopedJstring_delete J response_jstr))))))"

definition onConnStatusChange_callback :: "'v jvm \<Rightarrow> jref option \<Rightarrow> ConnectStatus \<Rightarrow> ('v, unit) io" where
  "onConnStatusChange_callback J gListener status =
     in_env J (
       seq (listener_method J gListener ''onConnStatusChange'' ''(I)V'') (\<lambda>(l, m).
       invoke (jv_CallVoidMethod J l m [JInt (ConnectStatus_num status)])))"

definition onSendReq_callback :: "'v jvm \<Rightarrow> jref option \<Rightarrow> bytes \<Rightarrow> bytes \<Rightarrow> ('v, unit) io" where
  "onSendReq_callback J gListener payloadType payload =
     in_env J (
       seq (listener_method J gListener ''onSendReq'' ''(Ljava/lang/String;Ljava/lang/String;)V'') (\<lambda>(l, m).
       seq (ScopedJstring_ofChar J (takeWhile (\<lambda>b. b \<noteq> 0) payloadType)) (\<lambda>payloadType_jstr.
       seq (ScopedJstring_ofChar J (takeWhile (\<lambda>b. b \<noteq> 0) payload)) (\<lambda>payload_jstr.
       seq (ScopedJstring_GetJstr J payloadType_jstr) (\<lambda>s1.
       seq (ScopedJstring_GetJstr J payload_jstr) (\<lambda>s2.
       seq (invoke (jv_CallVoidMethod J l m [JObject s1, JObject s2])) (\<lambda>_.
       seq (ScopedJstring_delete J payloadType_jstr) (\<lambda>_.
       ScopedJstring_delete J payload_jstr))))))))"

definition onServerDisconnect_callback :: "'v jvm \<Rightarrow> jref option \<Rightarrow> SvrDisCode \<Rightarrow> ('v, unit) io" where
  "onServerDisconnect_callback J gListener disCode =
     in_env J (
       seq (listener_method J gListener ''onServerDisconnect'' ''(I)V'') (\<lambda>(l, m).
       invoke (jv_CallVoidMethod J l m [JInt (SvrDisCode_num disCode)])))"

text \<open>The loop over the elements of the result: null elements are skipped, the characters are never released.\<close>

fun collect_ips :: "'v jvm \<Rightarrow> jref \<Rightarrow> nat list \<Rightarrow> ('v, bytes list) io" where
  "collect_ips J result [] = ret []"
| "collect_ips J result (i # ks) =
     seq (lift (jv_GetObjectArrayElement J result i)) (\<lambda>obj.
     case obj of
       None \<Rightarrow> collect_ips J result ks
     | Some s \<Rightarrow>
         seq (lift (jv_GetStringUTFChars J s)) (\<lambda>ip.
         case ip of
           None \<Rightarrow> fail Undefined
         | Some ch \<Rightarrow> seq (collect_ips J result ks) (\<lambda>ips. ret (ch # ips))))"

definition getHttpDns_callback :: "'v jvm \<Rightarrow> jref option \<Rightarrow> bytes \<Rightarrow> ('v, bytes list) io" where
  "getHttpDns_callback J gListener host =
     seq (getJniEnv J) (\<lambda>(env, needDetach).
     if \<not> env then fail Undefined
     else
       seq (ScopedJstring_ofChar J (takeWhile (\<lambda>b. b \<noteq> 0) host)) (\<lambda>host_jstr.
       seq (listener_method J gListener ''getHttpDns'' ''(Ljava/lang/String;)[Ljava/lang/String;'') (\<lambda>(l, m).
       seq (ScopedJstring_GetJstr J host_jstr) (\<lambda>s.
       seq (lift (jv_CallObjectMethod J l m [JObject s])) (\<lambda>result.
       seq (lift (jv_Attach J)) (\<lambda>_.
       case result of
         None \<Rightarrow> fail Undefined
       | Some arr \<Rightarrow>
           seq (lift (jv_GetArrayLength J arr)) (\<lambda>size.
           seq (collect_ips J arr [0..<size]) (\<lambda>ips.
           seq (invoke (jv_Detach J)) (\<lambda>_. ret ips)))))))))"

section \<open>The exported functions\<close>

text \<open>
  Their state is that of the virtual machine beside that of the client; the client's callbacks for a
  response are the captured listeners. \<open>GetJavaVM\<close> is left out: the machine is the parameter \<open>J\<close>.
\<close>

type_synonym ('v, 'w) native = "'v \<times> jref option TcpClient \<times> 'w"

definition on_jvm :: "('v, 'a) io \<Rightarrow> ('v \<times> 's, 'a) io" where
  "on_jvm m = (\<lambda>(v, s). case m v of (r, v1) \<Rightarrow> (r, (v1, s)))"

definition on_net :: "('s \<Rightarrow> 'a \<times> 's) \<Rightarrow> ('v \<times> 's, 'a) io" where
  "on_net f = (\<lambda>(v, s). case f s of (a, s1) \<Rightarrow> (Inr a, (v, s1)))"

text \<open>\<^verbatim>\<open>std::string\<close> from a pointer.\<close>

definition std_string :: "bytes option \<Rightarrow> ('s, bytes) io" where
  "std_string p = (case p of None \<Rightarrow> fail Undefined | Some ch \<Rightarrow> ret ch)"

definition text_of :: "bytes \<Rightarrow> string" where
  "text_of bs = map (\<lambda>b. char_of (unat b)) bs"

text \<open>A \<^verbatim>\<open>ScopedJstring\<close> on the stack, and its characters as an argument of type \<^verbatim>\<open>std::string\<close>.\<close>

definition scoped_jstring :: "'v jvm \<Rightarrow> jref option \<Rightarrow> (ScopedJstring \<Rightarrow> ('v \<times> 's, 'a) io) \<Rightarrow> ('v \<times> 's, 'a) io" where
  "scoped_jstring J str body =
     seq (on_jvm (ScopedJstring_ofJstr J str)) (\<lambda>s.
     seq (body s) (\<lambda>r.
     seq (on_jvm (ScopedJstring_delete J s)) (\<lambda>_. ret r)))"

definition char_arg :: "'v jvm \<Rightarrow> ScopedJstring \<Rightarrow> ('v \<times> 's, bytes) io" where
  "char_arg J s = seq (on_jvm (ScopedJstring_GetChar J s)) std_string"

text \<open>
  The client takes the closures of \<^verbatim>\<open>initHostAndPort\<close> and \<^verbatim>\<open>setHttpDnsListener\<close> as functions of their
  results; \<open>info\<close> and \<open>dns\<close> say what a call of \<open>getConnectInfo_callback\<close> and \<open>getHttpDns_callback\<close>
  with a captured listener gives.
\<close>

definition native_initHostAndPort ::
  "'v jvm \<Rightarrow> bool \<Rightarrow> (jref option \<Rightarrow> unit \<Rightarrow> bytes) \<Rightarrow> jref option \<Rightarrow> jref option \<Rightarrow> int \<Rightarrow> bool \<Rightarrow> jref option
     \<Rightarrow> (('v, 'w) native, unit) io" where
  "native_initHostAndPort J withSsl info host backupIp port isTls listener =
     scoped_jstring J host (\<lambda>host_jstr.
     scoped_jstring J backupIp (\<lambda>backupIp_jstr.
     seq (on_jvm (lift (jv_NewGlobalRef J listener))) (\<lambda>gListener.
     seq (char_arg J host_jstr) (\<lambda>h.
     seq (char_arg J backupIp_jstr) (\<lambda>b.
     on_net (\<lambda>(c, w). ((), (NetCore_InitHostAndPort withSsl (text_of h) (text_of b) port isTls (Some (info gListener)) c, w))))))))"

definition native_makeSureConnected :: "'w posix \<Rightarrow> (('v, 'w) native, unit) io" where
  "native_makeSureConnected P = on_net (\<lambda>(c, w). ((), NetCore_MakeSureConnected P c w))"

text \<open>
  Java passes the values of the enumerations. No other number is a value of \<^verbatim>\<open>NetType\<close>; \<^verbatim>\<open>DisconnectCode\<close> has
  unnamed values from 9 to 15, which the client's type does not have: a call with one is not modelled.
\<close>

definition DisconnectCode_of_jint :: "int \<Rightarrow> DisconnectCode option" where
  "DisconnectCode_of_jint n =
     map_of (zip [0..8] [kDisCodeNone, kDisCodeReset, kDisCodeNetChange, kDisCodeNetLost, kDisCodeKickout,
       kDisCodeLogout, kDisCodeConnectTimeout, kDisCodeSendReqTimeout, kDisCodePingTimeout]) n"

definition NetType_of_jint :: "int \<Rightarrow> NetType option" where
  "NetType_of_jint n = map_of (zip [0..3] [kNetTypeUnknown, kNetTypeWifi, kNetTypeMobile, kNetTypeNoNet]) n"

definition native_disconnectAsync :: "junk \<Rightarrow> 'w posix \<Rightarrow> int \<Rightarrow> bool \<Rightarrow> (('v, 'w) native, unit) io" where
  "native_disconnectAsync j P code shouldReconnect =
     (case DisconnectCode_of_jint code of
        None \<Rightarrow> fail Undefined
      | Some d \<Rightarrow> on_net (\<lambda>(c, w). ((), NetCore_DisconnectAsync j P d shouldReconnect c w)))"

definition native_send ::
  "'v jvm \<Rightarrow> junk \<Rightarrow> 'w posix \<Rightarrow> jref option \<Rightarrow> jref option \<Rightarrow> jref option \<Rightarrow> jref option \<Rightarrow> (('v, 'w) native, bool) io" where
  "native_send J j P payloadType payload dat listener =
     scoped_jstring J payloadType (\<lambda>payload_type_jstr.
     scoped_jstring J payload (\<lambda>payload_jstr.
     seq (on_jvm (lift (jv_NewGlobalRef J listener))) (\<lambda>gListener.
     case dat of
       None \<Rightarrow>
         seq (char_arg J payload_type_jstr) (\<lambda>pt.
         seq (char_arg J payload_jstr) (\<lambda>pl.
         on_net (\<lambda>(c, w). NetCore_Send j P pt pl (Some gListener) c w)))
     | Some arr \<Rightarrow>
         seq (on_jvm (lift (jv_GetArrayLength J arr))) (\<lambda>len.
         seq (on_jvm (lift (jv_GetByteArrayRegion J arr len))) (\<lambda>cData.
         seq (char_arg J payload_type_jstr) (\<lambda>pt.
         seq (char_arg J payload_jstr) (\<lambda>pl.
         on_net (\<lambda>(c, w). NetCore_SendData j P pt pl (Some cData) (Some gListener) c w))))))))"

definition native_sendNoReply ::
  "'v jvm \<Rightarrow> junk \<Rightarrow> 'w posix \<Rightarrow> jref option \<Rightarrow> jref option \<Rightarrow> (('v, 'w) native, bool) io" where
  "native_sendNoReply J j P payloadType payload =
     scoped_jstring J payloadType (\<lambda>payload_type_jstr.
     scoped_jstring J payload (\<lambda>payload_jstr.
     seq (char_arg J payload_type_jstr) (\<lambda>pt.
     seq (char_arg J payload_jstr) (\<lambda>pl.
     on_net (\<lambda>(c, w). NetCore_SendNoReply j P pt pl c w)))))"

text \<open>The setters; the result is the listener their closure captures.\<close>

definition native_setOnConnStatusChange :: "'v jvm \<Rightarrow> jref option \<Rightarrow> (('v, 'w) native, jref option) io" where
  "native_setOnConnStatusChange J listener =
     seq (on_jvm (lift (jv_NewGlobalRef J listener))) (\<lambda>gListener.
     on_net (\<lambda>(c, w). (gListener, (NetCore_SetOnConnStatusChange True c, w))))"

definition native_setOnSendReq :: "'v jvm \<Rightarrow> jref option \<Rightarrow> (('v, 'w) native, jref option) io" where
  "native_setOnSendReq J listener =
     seq (on_jvm (lift (jv_NewGlobalRef J listener))) (\<lambda>gListener.
     on_net (\<lambda>(c, w). (gListener, (NetCore_SetOnSendReq True c, w))))"

definition native_setOnServerDisconnect :: "'v jvm \<Rightarrow> jref option \<Rightarrow> (('v, 'w) native, jref option) io" where
  "native_setOnServerDisconnect J listener =
     seq (on_jvm (lift (jv_NewGlobalRef J listener))) (\<lambda>gListener.
     on_net (\<lambda>(c, w). (gListener, (NetCore_SetOnServerDisconnect True c, w))))"

definition native_setHttpDnsListener ::
  "'v jvm \<Rightarrow> (jref option \<Rightarrow> string \<Rightarrow> string list) \<Rightarrow> jref option \<Rightarrow> (('v, 'w) native, unit) io" where
  "native_setHttpDnsListener J dns listener =
     seq (on_jvm (lift (jv_NewGlobalRef J listener))) (\<lambda>gListener.
     on_net (\<lambda>(c, w). ((), (NetCore_SetHttpDns (Some (dns gListener)) c, w))))"

definition native_setNetType :: "int \<Rightarrow> (('v, 'w) native, unit) io" where
  "native_setNetType netType =
     (case NetType_of_jint netType of
        None \<Rightarrow> fail Undefined
      | Some t \<Rightarrow> on_net (\<lambda>(c, w). ((), (NetCore_SetNetType t c, w))))"

definition native_getConnectStatus :: "(('v, 'w) native, int) io" where
  "native_getConnectStatus = on_net (\<lambda>(c, w). (ConnectStatus_num (NetCore_GetConnectStatus c), (c, w)))"
section \<open>Observing the calls\<close>

text \<open>
  The calls that manage the machine's resources, with their results. \<open>EvMade\<close>: a local reference that
  the code asked for by a call of its own.
\<close>

datatype jevent =
    EvAttach bool
  | EvDetach
  | EvException bool
  | EvMade "jref option"
  | EvDropped "jref option"
  | EvNewGlobal "jref option" "jref option"
  | EvDeleteGlobal "jref option"
  | EvPin jref "bytes option"
  | EvUnpin jref bytes
  | EvCall jref "nat option" "jvalue list"

definition noted :: "('a \<Rightarrow> jevent) \<Rightarrow> ('v \<Rightarrow> 'a \<times> 'v) \<Rightarrow> 'v \<times> jevent list \<Rightarrow> 'a \<times> 'v \<times> jevent list" where
  "noted e f = (\<lambda>(v, l). case f v of (a, v1) \<Rightarrow> (a, v1, l @ [e a]))"

definition noted_act :: "jevent \<Rightarrow> ('v \<Rightarrow> 'v) \<Rightarrow> 'v \<times> jevent list \<Rightarrow> 'v \<times> jevent list" where
  "noted_act e f = (\<lambda>(v, l). (f v, l @ [e]))"

definition unnoted :: "('v \<Rightarrow> 'a \<times> 'v) \<Rightarrow> 'v \<times> jevent list \<Rightarrow> 'a \<times> 'v \<times> jevent list" where
  "unnoted f = (\<lambda>(v, l). case f v of (a, v1) \<Rightarrow> (a, v1, l))"

definition traced :: "'v jvm \<Rightarrow> ('v \<times> jevent list) jvm" where
  "traced J =
    \<lparr>jv_GetEnv = unnoted (jv_GetEnv J),
     jv_Attach = noted EvAttach (jv_Attach J),
     jv_Detach = noted_act EvDetach (jv_Detach J),
     jv_ExceptionOccurred = noted EvException (jv_ExceptionOccurred J),
     jv_NewLocalRef = (\<lambda>r. noted EvMade (jv_NewLocalRef J r)),
     jv_DeleteLocalRef = (\<lambda>r. noted_act (EvDropped r) (jv_DeleteLocalRef J r)),
     jv_NewGlobalRef = (\<lambda>r. noted (EvNewGlobal r) (jv_NewGlobalRef J r)),
     jv_DeleteGlobalRef = (\<lambda>r. noted_act (EvDeleteGlobal r) (jv_DeleteGlobalRef J r)),
     jv_GetStringUTFChars = (\<lambda>r. noted (EvPin r) (jv_GetStringUTFChars J r)),
     jv_ReleaseStringUTFChars = (\<lambda>r ch. noted_act (EvUnpin r ch) (jv_ReleaseStringUTFChars J r ch)),
     jv_FindClass = (\<lambda>n. noted EvMade (jv_FindClass J n)),
     jv_GetObjectClass = (\<lambda>r. unnoted (jv_GetObjectClass J r)),
     jv_GetMethodID = (\<lambda>r n s. unnoted (jv_GetMethodID J r n s)),
     jv_NewByteArray = (\<lambda>b. noted EvMade (jv_NewByteArray J b)),
     jv_NewStringUTF = (\<lambda>s. noted EvMade (jv_NewStringUTF J s)),
     jv_NewObject = (\<lambda>c m a b. noted EvMade (jv_NewObject J c m a b)),
     jv_CallVoidMethod = (\<lambda>r m xs. noted_act (EvCall r m xs) (jv_CallVoidMethod J r m xs)),
     jv_CallObjectMethod = (\<lambda>r m xs. noted (\<lambda>_. EvCall r m xs) (jv_CallObjectMethod J r m xs)),
     jv_GetArrayLength = (\<lambda>r. unnoted (jv_GetArrayLength J r)),
     jv_GetObjectArrayElement = (\<lambda>r i. unnoted (jv_GetObjectArrayElement J r i)),
     jv_GetByteArrayRegion = (\<lambda>r n. unnoted (jv_GetByteArrayRegion J r n))\<rparr>"

text \<open>What a log says: the characters held and given back, the references made, dropped and deleted, the thread.\<close>

definition pins :: "jevent list \<Rightarrow> (jref \<times> bytes) list" where
  "pins l = concat (map (\<lambda>e. case e of EvPin r (Some ch) \<Rightarrow> [(r, ch)] | _ \<Rightarrow> []) l)"

definition unpins :: "jevent list \<Rightarrow> (jref \<times> bytes) list" where
  "unpins l = concat (map (\<lambda>e. case e of EvUnpin r ch \<Rightarrow> [(r, ch)] | _ \<Rightarrow> []) l)"

definition made :: "jevent list \<Rightarrow> jref list" where
  "made l = concat (map (\<lambda>e. case e of EvMade (Some r) \<Rightarrow> [r] | _ \<Rightarrow> []) l)"

definition dropped :: "jevent list \<Rightarrow> jref list" where
  "dropped l = concat (map (\<lambda>e. case e of EvDropped (Some r) \<Rightarrow> [r] | _ \<Rightarrow> []) l)"

definition deleted_globals :: "jevent list \<Rightarrow> jref option list" where
  "deleted_globals l = concat (map (\<lambda>e. case e of EvDeleteGlobal g \<Rightarrow> [g] | _ \<Rightarrow> []) l)"

definition attached_after :: "bool \<Rightarrow> jevent list \<Rightarrow> bool" where
  "attached_after b l = fold (\<lambda>e a. case e of EvAttach r \<Rightarrow> a \<or> r | EvDetach \<Rightarrow> False | _ \<Rightarrow> a) l b"

definition listener_calls :: "jevent list \<Rightarrow> jref list" where
  "listener_calls l = concat (map (\<lambda>e. case e of EvCall r m xs \<Rightarrow> [r] | _ \<Rightarrow> []) l)"

text \<open>No exception was pending when the code looked, and no string failed to give its characters.\<close>

definition untroubled :: "jevent list \<Rightarrow> bool" where
  "untroubled l = list_all (\<lambda>e. case e of EvException b \<Rightarrow> \<not> b | EvPin r ch \<Rightarrow> ch \<noteq> None | _ \<Rightarrow> True) l"

lemmas log_defs = pins_def unpins_def made_def dropped_def deleted_globals_def attached_after_def untroubled_def
  listener_calls_def

text \<open>Total correctness over a logged machine: the computation returns, and its value and log satisfy \<open>Q\<close>.\<close>

definition returns :: "('s, 'a) io \<Rightarrow> ('a \<Rightarrow> 's \<Rightarrow> bool) \<Rightarrow> 's \<Rightarrow> bool" where
  "returns m Q s = (case m s of (Inl f, s1) \<Rightarrow> False | (Inr a, s1) \<Rightarrow> Q a s1)"

lemma returnsE:
  assumes "returns m Q s"
  obtains a s1 where "m s = (Inr a, s1)" "Q a s1"
  using assms by (auto simp: returns_def split: prod.splits sum.splits)

lemma returns_ret [simp]: "returns (ret a) Q s = Q a s"
  by (simp add: returns_def)

lemma returns_fail [simp]: "returns (fail f) Q s = False"
  by (simp add: returns_def)

lemma returns_seq [simp]: "returns (seq m k) Q s = returns m (\<lambda>a. returns (k a) Q) s"
  by (auto simp: returns_def seq_def split: prod.splits sum.splits)

lemma returns_noted [simp]:
  "returns (lift (noted e f)) Q (v, l) = (case f v of (a, v1) \<Rightarrow> Q a (v1, l @ [e a]))"
  by (simp add: returns_def lift_def noted_def split: prod.splits)

lemma returns_unnoted [simp]: "returns (lift (unnoted f)) Q (v, l) = (case f v of (a, v1) \<Rightarrow> Q a (v1, l))"
  by (simp add: returns_def lift_def unnoted_def split: prod.splits)

lemma returns_noted_act [simp]: "returns (invoke (noted_act e f)) Q (v, l) = Q () (f v, l @ [e])"
  by (simp add: returns_def lift_def invoke_def noted_act_def)

lemma traced_simps [simp]:
  "jv_GetEnv (traced J) = unnoted (jv_GetEnv J)"
  "jv_Attach (traced J) = noted EvAttach (jv_Attach J)"
  "jv_Detach (traced J) = noted_act EvDetach (jv_Detach J)"
  "jv_ExceptionOccurred (traced J) = noted EvException (jv_ExceptionOccurred J)"
  "jv_NewLocalRef (traced J) r = noted EvMade (jv_NewLocalRef J r)"
  "jv_DeleteLocalRef (traced J) r = noted_act (EvDropped r) (jv_DeleteLocalRef J r)"
  "jv_NewGlobalRef (traced J) r = noted (EvNewGlobal r) (jv_NewGlobalRef J r)"
  "jv_DeleteGlobalRef (traced J) r = noted_act (EvDeleteGlobal r) (jv_DeleteGlobalRef J r)"
  "jv_GetStringUTFChars (traced J) k = noted (EvPin k) (jv_GetStringUTFChars J k)"
  "jv_ReleaseStringUTFChars (traced J) k ch = noted_act (EvUnpin k ch) (jv_ReleaseStringUTFChars J k ch)"
  "jv_FindClass (traced J) s = noted EvMade (jv_FindClass J s)"
  "jv_GetObjectClass (traced J) k = unnoted (jv_GetObjectClass J k)"
  "jv_GetMethodID (traced J) r n s = unnoted (jv_GetMethodID J r n s)"
  "jv_NewByteArray (traced J) b = noted EvMade (jv_NewByteArray J b)"
  "jv_NewStringUTF (traced J) s = noted EvMade (jv_NewStringUTF J s)"
  "jv_NewObject (traced J) r m a b' = noted EvMade (jv_NewObject J r m a b')"
  "jv_CallVoidMethod (traced J) k m xs = noted_act (EvCall k m xs) (jv_CallVoidMethod J k m xs)"
  "jv_CallObjectMethod (traced J) k m xs = noted (\<lambda>_. EvCall k m xs) (jv_CallObjectMethod J k m xs)"
  "jv_GetArrayLength (traced J) k = unnoted (jv_GetArrayLength J k)"
  "jv_GetObjectArrayElement (traced J) k i = unnoted (jv_GetObjectArrayElement J k i)"
  "jv_GetByteArrayRegion (traced J) k i = unnoted (jv_GetByteArrayRegion J k i)"
  by (simp_all add: traced_def)

section \<open>What the pieces cost\<close>

lemma log_append [simp]:
  "pins (l @ l') = pins l @ pins l'" "unpins (l @ l') = unpins l @ unpins l'"
  "made (l @ l') = made l @ made l'" "dropped (l @ l') = dropped l @ dropped l'"
  "deleted_globals (l @ l') = deleted_globals l @ deleted_globals l'"
  "untroubled (l @ l') \<longleftrightarrow> untroubled l \<and> untroubled l'"
  "attached_after b (l @ l') = attached_after (attached_after b l) l'"
  "listener_calls (l @ l') = listener_calls l @ listener_calls l'"
  by (simp_all add: log_defs)

lemma log_Nil [simp]:
  "pins [] = []" "unpins [] = []" "made [] = []" "dropped [] = []" "deleted_globals [] = []" "untroubled []"
  "attached_after b [] = b" "listener_calls [] = []"
  by (simp_all add: log_defs)

lemma pins_Cons [simp]:
  "pins (e # l) = (case e of EvPin r (Some ch) \<Rightarrow> [(r, ch)] | _ \<Rightarrow> []) @ pins l"
  by (simp add: pins_def)

lemma unpins_Cons [simp]: "unpins (e # l) = (case e of EvUnpin r ch \<Rightarrow> [(r, ch)] | _ \<Rightarrow> []) @ unpins l"
  by (simp add: unpins_def)

lemma made_Cons [simp]: "made (e # l) = (case e of EvMade (Some r) \<Rightarrow> [r] | _ \<Rightarrow> []) @ made l"
  by (simp add: made_def)

lemma dropped_Cons [simp]: "dropped (e # l) = (case e of EvDropped (Some r) \<Rightarrow> [r] | _ \<Rightarrow> []) @ dropped l"
  by (simp add: dropped_def)

lemma deleted_globals_Cons [simp]:
  "deleted_globals (e # l) = (case e of EvDeleteGlobal g \<Rightarrow> [g] | _ \<Rightarrow> []) @ deleted_globals l"
  by (simp add: deleted_globals_def)

lemma attached_after_Cons [simp]:
  "attached_after b (e # l) = attached_after (case e of EvAttach r \<Rightarrow> b \<or> r | EvDetach \<Rightarrow> False | _ \<Rightarrow> b) l"
  by (simp add: attached_after_def)

lemma untroubled_Cons [simp]:
  "untroubled (e # l) \<longleftrightarrow> (case e of EvException b \<Rightarrow> \<not> b | EvPin r ch \<Rightarrow> ch \<noteq> None | _ \<Rightarrow> True) \<and> untroubled l"
  by (simp add: untroubled_def)

lemma listener_calls_Cons [simp]:
  "listener_calls (e # l) = (case e of EvCall r m xs \<Rightarrow> [r] | _ \<Rightarrow> []) @ listener_calls l"
  by (simp add: listener_calls_def)

text \<open>The references and characters that a string object holds.\<close>

definition held_ref :: "ScopedJstring \<Rightarrow> jref list" where
  "held_ref s = (case sj_jstr s of None \<Rightarrow> [] | Some r \<Rightarrow> [r])"

definition held_chars :: "ScopedJstring \<Rightarrow> (jref \<times> bytes) list" where
  "held_chars s =
     (case (sj_jstr s, sj_char s) of (Some r, Some ch) \<Rightarrow> if sj_jstr2char s then [(r, ch)] else [] | _ \<Rightarrow> [])"

text \<open>A piece of log that calls no listener, deletes no global reference and leaves the thread as it is.\<close>

definition neutral :: "jevent list \<Rightarrow> bool" where
  "neutral l \<longleftrightarrow> listener_calls l = [] \<and> deleted_globals l = [] \<and> (\<forall>b. attached_after b l = b)"

lemma neutral_simps:
  "neutral l \<Longrightarrow> listener_calls l = []" "neutral l \<Longrightarrow> deleted_globals l = []" "neutral l \<Longrightarrow> attached_after b l = b"
  by (simp_all add: neutral_def)

lemma returns_mono: "returns m P s \<Longrightarrow> (\<And>a s1. P a s1 \<Longrightarrow> Q a s1) \<Longrightarrow> returns m Q s"
  by (auto simp: returns_def split: prod.splits sum.splits)

text \<open>A computation that returns and appends to the log a piece described by \<open>R\<close>.\<close>

definition logs :: "('v \<times> jevent list, 'a) io \<Rightarrow> ('a \<Rightarrow> jevent list \<Rightarrow> bool) \<Rightarrow> bool" where
  "logs m R \<longleftrightarrow> (\<forall>v l. returns m (\<lambda>a (v1, l1). \<exists>x. l1 = l @ x \<and> R a x) (v, l))"

lemma logsI:
  assumes "\<And>v l. returns m (\<lambda>a (v1, l1). \<exists>x. l1 = l @ x \<and> R a x) (v, l)"
  shows "logs m R"
  using assms by (simp add: logs_def)

lemma logs_bind:
  fixes m :: "('v \<times> jevent list, 'a) io"
  assumes "logs m R" "\<And>a x. R a x \<Longrightarrow> logs (k a) (\<lambda>b y. T b (x @ y))"
  shows "logs (seq m k) T"
proof (rule logsI)
  fix v :: 'v and l
  have "returns m (\<lambda>a (v1, l1). \<exists>x. l1 = l @ x \<and> R a x) (v, l)" using assms(1) by (simp add: logs_def)
  then show "returns (seq m k) (\<lambda>b (v1, l1). \<exists>x. l1 = l @ x \<and> T b x) (v, l)"
    unfolding returns_seq
  proof (rule returns_mono)
    fix a and s1 :: "'v \<times> jevent list"
    assume "case s1 of (v1, l1) \<Rightarrow> \<exists>x. l1 = l @ x \<and> R a x"
    then obtain v1 x where s: "s1 = (v1, l @ x)" and r: "R a x" by (cases s1) auto
    have "returns (k a) (\<lambda>b (v2, l2). \<exists>y. l2 = (l @ x) @ y \<and> T b (x @ y)) (v1, l @ x)"
      using assms(2) [OF r] unfolding logs_def by blast
    then show "returns (k a) (\<lambda>b (v1, l1). \<exists>x. l1 = l @ x \<and> T b x) s1"
      unfolding s by (rule returns_mono) fastforce
  qed
qed

lemma logs_mono: "logs m R \<Longrightarrow> (\<And>a x. R a x \<Longrightarrow> S a x) \<Longrightarrow> logs m S"
proof (rule logsI)
  fix v l
  assume m: "logs m R" and rs: "\<And>a x. R a x \<Longrightarrow> S a x"
  from m have "returns m (\<lambda>a (v1, l1). \<exists>x. l1 = l @ x \<and> R a x) (v, l)" by (simp add: logs_def)
  then show "returns m (\<lambda>a (v1, l1). \<exists>x. l1 = l @ x \<and> S a x) (v, l)"
    by (rule returns_mono) (use rs in fastforce)
qed

text \<open>The single calls.\<close>

lemma logs_noted: "logs (lift (noted e f)) (\<lambda>a x. x = [e a])"
  by (rule logsI) (simp split: prod.splits)

lemma logs_unnoted: "logs (lift (unnoted f)) (\<lambda>a x. x = [])"
  by (rule logsI) (simp split: prod.splits)

lemma logs_act: "logs (invoke (noted_act e f)) (\<lambda>a x. x = [e])"
  by (rule logsI) simp

lemma logs_ret: "logs (ret a) (\<lambda>b x. b = a \<and> x = [])"
  by (rule logsI) simp

text \<open>\<^verbatim>\<open>ScopedJstring\<close>.\<close>

lemma logs_ofJstr:
  "logs (ScopedJstring_ofJstr (traced J) str)
     (\<lambda>s x. neutral x \<and> pins x = held_chars s \<and> unpins x = [] \<and> made x = held_ref s \<and> dropped x = []
        \<and> sj_jstr2char s \<and> (untroubled x \<longrightarrow> sj_jstr s \<noteq> None \<longrightarrow> sj_char s \<noteq> None))"
  by (rule logsI)
     (simp add: ScopedJstring_ofJstr_def neutral_def held_ref_def held_chars_def split: prod.splits option.splits)

lemma logs_ofChar:
  "logs (ScopedJstring_ofChar (traced J) str)
     (\<lambda>s x. neutral x \<and> pins x = [] \<and> unpins x = [] \<and> mset (made x) = mset (dropped x) + mset (held_ref s)
        \<and> sj_char s = Some str \<and> \<not> sj_jstr2char s)"
  by (rule logsI)
     (simp add: ScopedJstring_ofChar_def neutral_def held_ref_def split: prod.splits option.splits)

lemma logs_delete:
  "logs (ScopedJstring_delete (traced J) s)
     (\<lambda>_ x. neutral x \<and> pins x = [] \<and> made x = []
        \<and> (untroubled x \<longrightarrow> unpins x = held_chars s \<and> dropped x = (if sj_char s = None then [] else held_ref s)))"
  by (rule logsI)
     (simp add: ScopedJstring_delete_def neutral_def held_ref_def held_chars_def split: prod.splits option.splits)

lemma logs_getters:
  "logs (ScopedJstring_GetChar (traced J) s) (\<lambda>r x. neutral x \<and> pins x = [] \<and> unpins x = [] \<and> made x = [] \<and> dropped x = [])"
  "logs (ScopedJstring_SafeGetChar (traced J) s) (\<lambda>r x. neutral x \<and> pins x = [] \<and> unpins x = [] \<and> made x = [] \<and> dropped x = [])"
  "logs (ScopedJstring_GetJstr (traced J) s) (\<lambda>r x. neutral x \<and> pins x = [] \<and> unpins x = [] \<and> made x = [] \<and> dropped x = [])"
  by (rule logsI, simp add: ScopedJstring_GetChar_def ScopedJstring_SafeGetChar_def ScopedJstring_GetJstr_def neutral_def
        split: prod.split)+

lemma logs_listener_method:
  "logs (listener_method (traced J) (Some l) n s) (\<lambda>(r, m) x. r = l \<and> x = [])"
  by (rule logsI) (simp add: listener_method_def split: prod.split)

text \<open>Every string that was pinned is released, and every local reference that was asked for is dropped.\<close>

definition settled :: "jevent list \<Rightarrow> bool" where
  "settled x \<longleftrightarrow> (untroubled x \<longrightarrow> mset (pins x) = mset (unpins x) \<and> mset (made x) = mset (dropped x))"

definition called_once :: "jref \<Rightarrow> jref option list \<Rightarrow> jevent list \<Rightarrow> bool" where
  "called_once l gs x \<longleftrightarrow> listener_calls x = [l] \<and> deleted_globals x = gs \<and> (\<forall>b. attached_after b x = b) \<and> settled x"

lemma logs_status_body:
  "logs (seq (listener_method (traced J) (Some l) n s) (\<lambda>(r, m). invoke (jv_CallVoidMethod (traced J) r m (args r m))))
     (\<lambda>_. called_once l [])"
  by (rule logs_bind [OF logs_listener_method])
     (auto intro!: logs_mono [OF logs_act] simp: called_once_def settled_def)

lemma logs_onSendResp_body:
  "logs (seq (listener_method (traced J) (Some l) n s) (\<lambda>(r, m).
       seq (ScopedJstring_ofChar (traced J) str) (\<lambda>response_jstr.
       seq (ScopedJstring_GetJstr (traced J) response_jstr) (\<lambda>j.
       seq (invoke (jv_CallVoidMethod (traced J) r m (args j))) (\<lambda>_.
       seq (invoke (jv_DeleteGlobalRef (traced J) (Some l))) (\<lambda>_.
       ScopedJstring_delete (traced J) response_jstr))))))
     (\<lambda>_. called_once l [Some l])"
  apply (rule logs_bind [OF logs_listener_method], clarify)
  apply (rule logs_bind [OF logs_ofChar], rule logs_bind [OF logs_getters(3)])
  apply (simp only: traced_simps)
  apply (rule logs_bind [OF logs_act], rule logs_bind [OF logs_act])
  apply (rule logs_mono [OF logs_delete])
  apply (auto simp: called_once_def settled_def neutral_simps held_chars_def split: option.split)
  done

lemma logs_onSendReq_body:
  "logs (seq (listener_method (traced J) (Some l) n s) (\<lambda>(r, m).
       seq (ScopedJstring_ofChar (traced J) str1) (\<lambda>payloadType_jstr.
       seq (ScopedJstring_ofChar (traced J) str2) (\<lambda>payload_jstr.
       seq (ScopedJstring_GetJstr (traced J) payloadType_jstr) (\<lambda>s1.
       seq (ScopedJstring_GetJstr (traced J) payload_jstr) (\<lambda>s2.
       seq (invoke (jv_CallVoidMethod (traced J) r m (args s1 s2))) (\<lambda>_.
       seq (ScopedJstring_delete (traced J) payloadType_jstr) (\<lambda>_.
       ScopedJstring_delete (traced J) payload_jstr))))))))
     (\<lambda>_. called_once l [])"
  apply (rule logs_bind [OF logs_listener_method], clarify)
  apply (rule logs_bind [OF logs_ofChar], rule logs_bind [OF logs_ofChar])
  apply (rule logs_bind [OF logs_getters(3)], rule logs_bind [OF logs_getters(3)])
  apply (simp only: traced_simps)
  apply (rule logs_bind [OF logs_act], rule logs_bind [OF logs_delete])
  apply (rule logs_mono [OF logs_delete])
  apply (auto simp: called_once_def settled_def neutral_simps held_chars_def split: option.split)
  done

lemma logs_getConnectInfo_body:
  "logs (seq (listener_method (traced J) (Some l) n s) (\<lambda>(r, m).
       seq (lift (jv_CallObjectMethod (traced J) r m [])) (\<lambda>connectInfo.
       seq (ScopedJstring_ofJstr (traced J) connectInfo) (\<lambda>connect_info_jstr.
       seq (ScopedJstring_SafeGetChar (traced J) connect_info_jstr) (\<lambda>cConnectInfo.
       seq (ScopedJstring_delete (traced J) connect_info_jstr) (\<lambda>_. ret cConnectInfo))))))
     (\<lambda>_. called_once l [])"
  apply (rule logs_bind [OF logs_listener_method], clarify)
  apply (simp only: traced_simps)
  apply (rule logs_bind [OF logs_noted], rule logs_bind [OF logs_ofJstr], rule logs_bind [OF logs_getters(2)])
  apply (rule logs_bind [OF logs_delete], rule logs_mono [OF logs_ret])
  apply (auto simp: called_once_def settled_def neutral_simps held_ref_def split: option.split)
  done

section \<open>The callbacks settle their accounts\<close>

text \<open>The thread is attached, or it is not and can be.\<close>

definition env_for :: "'v jvm \<Rightarrow> bool \<Rightarrow> 'v \<Rightarrow> bool" where
  "env_for J b v =
     (case jv_GetEnv J v of (st, v1) \<Rightarrow> if b then st = JNI_OK else st = JNI_EDETACHED \<and> fst (jv_Attach J v1))"

lemma returns_getJniEnv:
  assumes "env_for J b v"
  shows "returns (getJniEnv (traced J)) (\<lambda>(env, d) (v1, l1). env \<and> d = (\<not> b) \<and> l1 = l @ (if b then [] else [EvAttach True])) (v, l)"
  using assms by (auto simp: env_for_def getJniEnv_def split: prod.splits if_splits)

lemma settled_bracketed: "settled (EvAttach c # x @ [EvDetach]) = settled x"
  by (simp add: settled_def)

lemma in_env_called_once:
  assumes "env_for J b v" "logs body (\<lambda>_. called_once r gs)"
  shows "\<exists>a v1 x. in_env (traced J) body (v, []) = (Inr a, (v1, x)) \<and> listener_calls x = [r] \<and> deleted_globals x = gs
      \<and> attached_after b x = b \<and> settled x"
proof -
  let ?pre = "if b then [] else [EvAttach True]"
  obtain v1 where env: "getJniEnv (traced J) (v, []) = (Inr (True, \<not> b), (v1, ?pre))"
    by (rule returnsE [OF returns_getJniEnv [OF assms(1), where l = "[]"]]) auto
  have "returns body (\<lambda>a (v2, l2). \<exists>x. l2 = ?pre @ x \<and> called_once r gs x) (v1, ?pre)"
    using assms(2) unfolding logs_def by blast
  then obtain a v2 x where body: "body (v1, ?pre) = (Inr a, (v2, ?pre @ x))" and x: "called_once r gs x"
    by (rule returnsE) auto
  show ?thesis
  proof (cases b)
    case True
    then show ?thesis using env body x by (auto simp: in_env_def called_once_def)
  next
    case False
    then have "in_env (traced J) body (v, []) = (Inr a, (jv_Detach J v2, EvAttach True # x @ [EvDetach]))"
      using env body by (simp add: in_env_def invoke_def lift_def seq_def noted_act_def)
    then show ?thesis using False x by (auto simp: called_once_def settled_bracketed)
  qed
qed

text \<open>The closure that an entry of the client's list of calls runs; \<open>onStatus\<close>, \<open>onReq\<close>, \<open>onDis\<close>: the listeners the setters captured.\<close>

fun run_call :: "'v jvm \<Rightarrow> jref option \<Rightarrow> jref option \<Rightarrow> jref option \<Rightarrow> jref option call \<Rightarrow> ('v, unit) io" where
  "run_call J onStatus onReq onDis (CallResp g code response) = onSendResp_callback J g code response"
| "run_call J onStatus onReq onDis (CallPush payloadType payload) = onSendReq_callback J onReq payloadType payload"
| "run_call J onStatus onReq onDis (CallStatus status) = onConnStatusChange_callback J onStatus status"
| "run_call J onStatus onReq onDis (CallServerDisconnect code) = onServerDisconnect_callback J onDis code"

fun listener_of :: "jref option \<Rightarrow> jref option \<Rightarrow> jref option \<Rightarrow> jref option call \<Rightarrow> jref option" where
  "listener_of onStatus onReq onDis (CallResp g code response) = g"
| "listener_of onStatus onReq onDis (CallPush payloadType payload) = onReq"
| "listener_of onStatus onReq onDis (CallStatus status) = onStatus"
| "listener_of onStatus onReq onDis (CallServerDisconnect code) = onDis"


theorem getConnectInfo_settles:
  assumes "env_for J b v"
  shows "\<exists>a v1 x. getConnectInfo_callback (traced J) (Some r) (v, []) = (Inr a, (v1, x)) \<and> listener_calls x = [r]
    \<and> deleted_globals x = [] \<and> attached_after b x = b \<and> settled x"
  unfolding getConnectInfo_callback_def by (rule in_env_called_once [OF assms logs_getConnectInfo_body])

section \<open>The addresses of the listener\<close>

text \<open>The listener answers with the array \<open>arr\<close> of the strings \<open>ss\<close>, whose characters \<open>str\<close> are given out.\<close>

definition answers :: "'v jvm \<Rightarrow> jref \<Rightarrow> jref list \<Rightarrow> (jref \<Rightarrow> bytes) \<Rightarrow> bool" where
  "answers J arr ss str \<longleftrightarrow>
     (\<forall>r m xs v. fst (jv_CallObjectMethod J r m xs v) = Some arr) \<and> (\<forall>v. fst (jv_GetArrayLength J arr v) = length ss)
     \<and> (\<forall>i v. i < length ss \<longrightarrow> fst (jv_GetObjectArrayElement J arr i v) = Some (ss ! i))
     \<and> (\<forall>s v. fst (jv_GetStringUTFChars J s v) = Some (str s))"

lemma logs_noted_value: "(\<And>v. fst (f v) = a) \<Longrightarrow> logs (lift (noted e f)) (\<lambda>b x. b = a \<and> x = [e a])"
  by (rule logsI) (simp add: case_prod_beta)

lemma logs_unnoted_value: "(\<And>v. fst (f v) = a) \<Longrightarrow> logs (lift (unnoted f)) (\<lambda>b x. b = a \<and> x = [])"
  by (rule logsI) (simp add: case_prod_beta)

lemma logs_collect_ips:
  assumes "answers J arr ss str" "\<forall>i \<in> set ks. i < length ss"
  shows "logs (collect_ips (traced J) arr ks)
    (\<lambda>ips x. ips = map (\<lambda>i. str (ss ! i)) ks \<and> x = map (\<lambda>i. EvPin (ss ! i) (Some (str (ss ! i)))) ks)"
  using assms(2)
proof (induction ks)
  case Nil
  show ?case using logs_ret by (simp del: ret_apply)
next
  case (Cons i ks)
  have el: "\<And>v. fst (jv_GetObjectArrayElement J arr i v) = Some (ss ! i)"
    and ch: "\<And>v. fst (jv_GetStringUTFChars J (ss ! i) v) = Some (str (ss ! i))"
    using assms(1) Cons.prems by (auto simp: answers_def)
  show ?case
    apply (simp only: collect_ips.simps traced_simps)
    apply (rule logs_bind [OF logs_unnoted_value [OF el]], clarify)
    apply (simp only: option.case)
    apply (rule logs_bind [OF logs_noted_value [OF ch]], clarify)
    apply (simp only: option.case)
    apply (rule logs_bind [OF Cons.IH])
    using Cons.prems apply simp
    apply (rule logs_mono [OF logs_ret])
    apply simp
    done
qed

lemma pins_of_EvPins:
  "pins (map (\<lambda>i. EvPin (f i) (Some (g i))) ks) = map (\<lambda>i. (f i, g i)) ks"
  "unpins (map (\<lambda>i. EvPin (f i) (Some (g i))) ks) = []"
  by (induction ks) simp_all

text \<open>
  C40: The closure that asks the listener for addresses returns the characters of every string of the
  answer, in order. It releases none of them: each address stays pinned for good. And the calling thread is
  detached at the end, even if it was attached before.
\<close>

theorem getHttpDns_pins_addresses:
  assumes "env_for J b v" "answers J arr ss str"
  shows "\<exists>v1 x. getHttpDns_callback (traced J) (Some r) host (v, []) = (Inr (map str ss), (v1, x))
    \<and> pins x = map (\<lambda>s. (s, str s)) ss \<and> unpins x = [] \<and> \<not> attached_after b x"
proof -
  let ?post = "\<lambda>ips x. ips = map str ss \<and> pins x = map (\<lambda>s. (s, str s)) ss \<and> unpins x = [] \<and> (\<forall>b. \<not> attached_after b x)"
  have call: "\<And>l m xs v. fst (jv_CallObjectMethod J l m xs v) = Some arr"
    and len: "\<And>v. fst (jv_GetArrayLength J arr v) = length ss" using assms(2) by (auto simp: answers_def)
  have body: "logs (seq (ScopedJstring_ofChar (traced J) (takeWhile (\<lambda>b. b \<noteq> 0) host)) (\<lambda>host_jstr.
       seq (listener_method (traced J) (Some r) ''getHttpDns'' ''(Ljava/lang/String;)[Ljava/lang/String;'') (\<lambda>(l, m).
       seq (ScopedJstring_GetJstr (traced J) host_jstr) (\<lambda>s.
       seq (lift (jv_CallObjectMethod (traced J) l m [JObject s])) (\<lambda>result.
       seq (lift (jv_Attach (traced J))) (\<lambda>_.
       case result of
         None \<Rightarrow> fail Undefined
       | Some arr \<Rightarrow>
           seq (lift (jv_GetArrayLength (traced J) arr)) (\<lambda>size.
           seq (collect_ips (traced J) arr [0..<size]) (\<lambda>ips.
           seq (invoke (jv_Detach (traced J))) (\<lambda>_. ret ips))))))))) ?post"
    apply (rule logs_bind [OF logs_ofChar], rule logs_bind [OF logs_listener_method], clarify)
    apply (rule logs_bind [OF logs_getters(3)])
    apply (simp only: traced_simps)
    apply (rule logs_bind [OF logs_noted_value [OF call]], clarify)
    apply (rule logs_bind [OF logs_noted], simp only: option.case traced_simps)
    apply (rule logs_bind [OF logs_unnoted_value [OF len]], clarify)
    apply (rule logs_bind [OF logs_collect_ips [OF assms(2)]], simp)
    apply (rule logs_bind [OF logs_act], rule logs_mono [OF logs_ret])
    apply (auto simp: pins_of_EvPins map_nth comp_def intro!: nth_equalityI)
    done
  let ?pre = "if b then [] else [EvAttach True]"
  obtain v1 where env: "getJniEnv (traced J) (v, []) = (Inr (True, \<not> b), (v1, ?pre))"
    by (rule returnsE [OF returns_getJniEnv [OF assms(1), where l = "[]"]]) auto
  obtain ips v2 x where "getHttpDns_callback (traced J) (Some r) host (v, []) = (Inr ips, (v2, ?pre @ x))" "?post ips x"
    by (rule returnsE [OF body [unfolded logs_def, THEN spec [of _ v1], THEN spec [of _ ?pre]]])
       (auto simp: getHttpDns_callback_def env simp del: traced_simps returns_seq ret_apply)
  then show ?thesis by auto
qed

section \<open>A request from Java\<close>

text \<open>The strings give their characters \<open>str\<close>, the arrays their bytes \<open>arr\<close>, and no exception is pending.\<close>

definition readable :: "'v jvm \<Rightarrow> (jref \<Rightarrow> bytes) \<Rightarrow> (jref \<Rightarrow> bytes) \<Rightarrow> bool" where
  "readable J str arr \<longleftrightarrow>
     (\<forall>r v. \<exists>r1. fst (jv_NewLocalRef J (Some r) v) = Some r1 \<and> str r1 = str r) \<and> (\<forall>v. \<not> fst (jv_ExceptionOccurred J v))
     \<and> (\<forall>r v. fst (jv_GetStringUTFChars J r v) = Some (str r)) \<and> (\<forall>a v. fst (jv_GetArrayLength J a v) = length (arr a))
     \<and> (\<forall>a n v. fst (jv_GetByteArrayRegion J a n v) = take n (arr a))"

lemma readableD:
  assumes "readable J str arr"
  shows "jv_ExceptionOccurred J v = (False, snd (jv_ExceptionOccurred J v))"
    and "jv_GetStringUTFChars J r v = (Some (str r), snd (jv_GetStringUTFChars J r v))"
    and "\<exists>r1. jv_NewLocalRef J (Some r) v = (Some r1, snd (jv_NewLocalRef J (Some r) v)) \<and> str r1 = str r"
  using assms by (simp_all add: readable_def prod_eq_iff)

definition holds_string :: "bytes \<Rightarrow> ScopedJstring \<Rightarrow> bool" where
  "holds_string ch s \<longleftrightarrow> sj_jstr s \<noteq> None \<and> sj_char s = Some ch \<and> sj_jstr2char s"

lemma readable_ofJstr:
  assumes "readable J str arr"
  shows "logs (ScopedJstring_ofJstr (traced J) (Some r))
    (\<lambda>s x. holds_string (str r) s \<and> neutral x \<and> pins x = held_chars s \<and> unpins x = [] \<and> made x = held_ref s \<and> dropped x = [])"
proof (rule logsI)
  fix v l
  obtain r1 v1 where "jv_NewLocalRef J (Some r) v = (Some r1, v1)" "str r1 = str r"
    using readableD(3) [OF assms] by blast
  moreover obtain v2 where "jv_ExceptionOccurred J v1 = (False, v2)" using readableD(1) [OF assms] by blast
  moreover obtain v3 where "jv_GetStringUTFChars J r1 v2 = (Some (str r1), v3)" using readableD(2) [OF assms] by blast
  ultimately show "returns (ScopedJstring_ofJstr (traced J) (Some r)) (\<lambda>s (v1, l1). \<exists>x. l1 = l @ x \<and>
      holds_string (str r) s \<and> neutral x \<and> pins x = held_chars s \<and> unpins x = [] \<and> made x = held_ref s \<and> dropped x = []) (v, l)"
    by (simp add: ScopedJstring_ofJstr_def holds_string_def neutral_def held_chars_def held_ref_def)
qed

lemma readable_delete:
  assumes "readable J str arr" "holds_string ch s"
  shows "logs (ScopedJstring_delete (traced J) s)
    (\<lambda>_ x. neutral x \<and> pins x = [] \<and> unpins x = held_chars s \<and> made x = [] \<and> dropped x = held_ref s)"
proof (rule logsI)
  fix v l
  obtain v1 where "jv_ExceptionOccurred J v = (False, v1)" using readableD(1) [OF assms(1)] by blast
  then show "returns (ScopedJstring_delete (traced J) s) (\<lambda>_ (v1, l1). \<exists>x. l1 = l @ x \<and>
      neutral x \<and> pins x = [] \<and> unpins x = held_chars s \<and> made x = [] \<and> dropped x = held_ref s) (v, l)"
    using assms(2)
    by (auto simp: ScopedJstring_delete_def holds_string_def neutral_def held_chars_def held_ref_def split: option.split)
qed

lemma readable_GetChar:
  assumes "readable J str arr" "holds_string ch s"
  shows "logs (ScopedJstring_GetChar (traced J) s)
    (\<lambda>p x. p = Some ch \<and> neutral x \<and> pins x = [] \<and> unpins x = [] \<and> made x = [] \<and> dropped x = [])"
proof (rule logsI)
  fix v l
  obtain v1 where "jv_ExceptionOccurred J v = (False, v1)" using readableD(1) [OF assms(1)] by blast
  then show "returns (ScopedJstring_GetChar (traced J) s) (\<lambda>p (v1, l1). \<exists>x. l1 = l @ x \<and>
      p = Some ch \<and> neutral x \<and> pins x = [] \<and> unpins x = [] \<and> made x = [] \<and> dropped x = []) (v, l)"
    using assms(2) by (simp add: ScopedJstring_GetChar_def holds_string_def neutral_def)
qed

text \<open>A computation on the machine beside the client.\<close>

lemma returns_on_jvm:
  assumes "logs m R" "\<And>a v1 x. R a x \<Longrightarrow> Q a ((v1, l @ x), s)"
  shows "returns (on_jvm m) Q ((v, l), s)"
proof -
  obtain a v1 x where "m (v, l) = (Inr a, (v1, l @ x))" "R a x"
    using assms(1) by (auto simp: logs_def elim!: allE [of _ v] allE [of _ l] returnsE)
  then show ?thesis using assms(2) by (simp add: returns_def on_jvm_def)
qed

lemma returns_on_net [simp]: "returns (on_net f) Q (v, s) = (case f s of (a, s1) \<Rightarrow> Q a (v, s1))"
  by (simp add: returns_def on_net_def split: prod.split)

lemma returns_char_arg:
  assumes "readable J str arr" "holds_string ch s"
    and "\<And>v1 x. neutral x \<Longrightarrow> pins x = [] \<Longrightarrow> unpins x = [] \<Longrightarrow> made x = [] \<Longrightarrow> dropped x = [] \<Longrightarrow> Q ch ((v1, l @ x), n)"
  shows "returns (char_arg (traced J) s) Q ((v, l), n)"
  unfolding char_arg_def returns_seq
  by (rule returns_on_jvm [OF readable_GetChar [OF assms(1,2)]]) (use assms(3) in \<open>simp add: std_string_def\<close>)

text \<open>What the log still owes: the strings \<open>S\<close> are alive, everything else is settled, and no listener was touched.\<close>

definition owes :: "jevent list \<Rightarrow> ScopedJstring list \<Rightarrow> bool" where
  "owes l S \<longleftrightarrow> listener_calls l = [] \<and> deleted_globals l = [] \<and> (\<forall>b. attached_after b l = b)
     \<and> mset (pins l) = mset (unpins l) + mset (concat (map held_chars S))
     \<and> mset (made l) = mset (dropped l) + mset (concat (map held_ref S))"

lemma owes_quiet:
  "owes l S \<Longrightarrow> neutral x \<Longrightarrow> pins x = [] \<Longrightarrow> unpins x = [] \<Longrightarrow> made x = [] \<Longrightarrow> dropped x = [] \<Longrightarrow> owes (l @ x) S"
  by (simp add: owes_def neutral_def)

lemma returns_scoped_jstring:
  fixes J :: "'v jvm" and n :: 'n
  assumes "readable J str arr" "owes l S"
    and mono: "\<And>a l x n. P a l n \<Longrightarrow> P a (l @ x) n"
    and body: "\<And>s v1 l1. holds_string (str r) s \<Longrightarrow> owes l1 (s # S) \<Longrightarrow>
      returns (body s) (\<lambda>a ((v2, l2), n2). owes l2 (s # S) \<and> P a l2 n2) ((v1, l1), n)"
  shows "returns (scoped_jstring (traced J) (Some r) body) (\<lambda>a ((v2, l2), n2). owes l2 S \<and> P a l2 n2) ((v, l), n)"
  unfolding scoped_jstring_def returns_seq [of "on_jvm (ScopedJstring_ofJstr (traced J) (Some r))"]
proof (rule returns_on_jvm [OF readable_ofJstr [OF assms(1)]], elim conjE)
  fix s v1 x
  assume h: "holds_string (str r) s" and "neutral x" "pins x = held_chars s" "unpins x = []" "made x = held_ref s" "dropped x = []"
  then have "owes (l @ x) (s # S)" using assms(2) by (simp add: owes_def neutral_def)
  from body [OF h this]
  have "returns (body s) (\<lambda>a. returns (seq (on_jvm (ScopedJstring_delete (traced J) s)) (\<lambda>_. ret a))
     (\<lambda>a ((v2, l2), n2). owes l2 S \<and> P a l2 n2)) ((v1, l @ x), n)"
  proof (rule returns_mono, clarify)
    fix a v2 l2 n2
    assume o: "owes l2 (s # S)" and p: "P a l2 n2"
    show "returns (seq (on_jvm (ScopedJstring_delete (traced J) s)) (\<lambda>_. ret a))
        (\<lambda>a ((v2, l2), n2). owes l2 S \<and> P a l2 n2) ((v2, l2), n2)"
      unfolding returns_seq by (rule returns_on_jvm [OF readable_delete [OF assms(1) h]])
        (use o mono [OF p] in \<open>auto simp: owes_def neutral_def\<close>)
  qed
  then show "returns (seq (body s) (\<lambda>a. seq (on_jvm (ScopedJstring_delete (traced J) s)) (\<lambda>_. ret a)))
      (\<lambda>a ((v2, l2), n2). owes l2 S \<and> P a l2 n2) ((v1, l @ x), n)" by (simp only: returns_seq)
qed

lemma returns_NewGlobal:
  assumes "owes l S" "\<And>v1 g. owes (l @ [EvNewGlobal r g]) S \<Longrightarrow> Q g ((v1, l @ [EvNewGlobal r g]), n)"
  shows "returns (on_jvm (lift (jv_NewGlobalRef (traced J) r))) Q ((v, l), n)"
  unfolding traced_simps
  by (rule returns_on_jvm [OF logs_noted]) (use assms in \<open>auto simp: owes_def\<close>)

lemma returns_char_arg_owes:
  assumes "readable J str arr" "holds_string ch s" "owes l S"
    and "\<And>v1 x. owes (l @ x) S \<Longrightarrow> Q ch ((v1, l @ x), n)"
  shows "returns (char_arg (traced J) s) Q ((v, l), n)"
  by (rule returns_char_arg [OF assms(1,2)]) (use assms(3,4) owes_quiet in blast)

text \<open>
  C21: A request from Java reaches the client as it was given: with readable strings and array, \<open>send\<close> returns what
  \<open>SendData\<close> of the client returns for the characters of the two strings, the bytes of the array (none for a null
  array), and a new global reference to the listener as the callback; and the client ends in the state of that call. Both
  strings are released and their local references dropped, and the listener is neither called nor deleted.
\<close>

theorem native_send_forwards:
  assumes "readable J str arr"
  shows "\<exists>v1 x g. native_send (traced J) j P (Some t) (Some p) dat listener ((v, []), (c, w)) =
      (case SendData j P (str t) (str p) (map_option arr dat) (Some g) c w of (r, n) \<Rightarrow> (Inr r, ((v1, x), n)))
    \<and> EvNewGlobal listener g \<in> set x \<and> owes x []"
proof -
  let ?P = "\<lambda>r l n. \<exists>g. (r, n) = SendData j P (str t) (str p) (map_option arr dat) (Some g) c w \<and> EvNewGlobal listener g \<in> set l"
  have len: "\<And>a v. fst (jv_GetArrayLength J a v) = length (arr a)"
    and reg: "\<And>a v n. fst (jv_GetByteArrayRegion J a n v) = take n (arr a)"
    using assms by (auto simp: readable_def)
  have "returns (native_send (traced J) j P (Some t) (Some p) dat listener)
      (\<lambda>r ((v1, x), n). owes x [] \<and> ?P r x n) ((v, []), (c, w))"
    unfolding native_send_def
    apply (rule returns_scoped_jstring [OF assms])
      apply (simp add: owes_def)
     apply auto [1]
    apply (rule returns_scoped_jstring [OF assms], assumption)
     apply auto [1]
    unfolding returns_seq
    apply (rule returns_NewGlobal, assumption)
    apply (cases dat)
    subgoal for s v1 l1 s' v2 l2 v3 g
      apply (simp only: option.case returns_seq)
      apply (rule returns_char_arg_owes [OF assms], assumption, assumption)
      apply (simp only: returns_seq, rule returns_char_arg_owes [OF assms], assumption, assumption)
      apply (auto simp: NetCore_Send_def Send_def split: prod.split)
      done
    subgoal for s v1 l1 s' v2 l2 v3 g a
      apply (simp only: option.case returns_seq traced_simps)
      apply (rule returns_on_jvm [OF logs_unnoted_value [OF len]], clarify)
      apply (simp only: returns_seq, rule returns_on_jvm [OF logs_unnoted_value [OF reg]], clarify)
      apply (simp only: returns_seq, rule returns_char_arg_owes [OF assms], assumption, simp)
      apply (simp only: returns_seq, rule returns_char_arg_owes [OF assms], assumption, assumption)
      apply (auto simp: NetCore_SendData_def split: prod.split)
      done
    done
  then obtain r v1 x n g where "native_send (traced J) j P (Some t) (Some p) dat listener ((v, []), (c, w)) = (Inr r, ((v1, x), n))"
    and "owes x []" and "SendData j P (str t) (str p) (map_option arr dat) (Some g) c w = (r, n)"
    and "EvNewGlobal listener g \<in> set x"
    by (rule returnsE) (auto dest: sym)
  then show ?thesis by (intro exI [of _ v1] exI [of _ x] exI [of _ g]) simp
qed

section \<open>A machine to run on\<close>

text \<open>
  The state says whether the thread is attached. Every call succeeds; the listener answers with the array 7 of two
  strings; the string \<open>r\<close> has the one character \<open>r\<close>, the array \<open>a\<close> the bytes \<open>a, a\<close>.
\<close>

definition toy_jvm :: "bool jvm" where
  "toy_jvm =
    \<lparr>jv_GetEnv = (\<lambda>v. (if v then JNI_OK else JNI_EDETACHED, v)), jv_Attach = (\<lambda>v. (True, True)), jv_Detach = (\<lambda>v. False),
     jv_ExceptionOccurred = (\<lambda>v. (False, v)), jv_NewLocalRef = (\<lambda>r v. (r, v)), jv_DeleteLocalRef = (\<lambda>r v. v),
     jv_NewGlobalRef = (\<lambda>r v. (r, v)), jv_DeleteGlobalRef = (\<lambda>r v. v),
     jv_GetStringUTFChars = (\<lambda>r v. (Some [of_nat r], v)), jv_ReleaseStringUTFChars = (\<lambda>r ch v. v),
     jv_FindClass = (\<lambda>n v. (Some 1, v)), jv_GetObjectClass = (\<lambda>r v. (Some 2, v)), jv_GetMethodID = (\<lambda>r n s v. (Some 3, v)),
     jv_NewByteArray = (\<lambda>b v. (Some 4, v)), jv_NewStringUTF = (\<lambda>s v. (Some 5, v)), jv_NewObject = (\<lambda>c m a b v. (Some 6, v)),
     jv_CallVoidMethod = (\<lambda>r m xs v. v), jv_CallObjectMethod = (\<lambda>r m xs v. (Some 7, v)), jv_GetArrayLength = (\<lambda>r v. (2, v)),
     jv_GetObjectArrayElement = (\<lambda>r i v. (Some (50 + i), v)), jv_GetByteArrayRegion = (\<lambda>r n v. (take n [of_nat r, of_nat r], v))\<rparr>"


theorem getHttpDns_pins_addresses_witness:
  "env_for toy_jvm True True \<and> answers toy_jvm 7 [50, 51] (\<lambda>r. [of_nat r]) \<and>
   (\<exists>v1 x. getHttpDns_callback (traced toy_jvm) (Some 9) [72] (True, []) = (Inr [[50], [51]], (v1, x))
     \<and> pins x = [(50, [50]), (51, [51])] \<and> unpins x = [] \<and> \<not> attached_after True x)"
proof -
  have env: "env_for toy_jvm True True" by (simp add: env_for_def toy_jvm_def)
  have ans: "answers toy_jvm 7 [50, 51] (\<lambda>r. [of_nat r])"
    by (auto simp: answers_def toy_jvm_def nth_Cons less_Suc_eq numeral_2_eq_2 split: nat.split)
  show ?thesis using env ans getHttpDns_pins_addresses [OF env ans, of 9 "[72]"] by simp
qed

definition toy_client :: "jref option TcpClient" where
  "toy_client = (TcpClient_new 0 False sample_breaker sample_breaker demo_dns)\<lparr>cl_connectStatus := kConnected\<rparr>"

theorem native_send_forwards_witness:
  "readable toy_jvm (\<lambda>r. [of_nat r]) (\<lambda>r. [of_nat r, of_nat r]) \<and>
   (\<exists>v1 x g. native_send (traced toy_jvm) sample_junk pipe_posix (Some 65) (Some 66) (Some 67) (Some 9) ((True, []), (toy_client, 0)) =
      (case SendData sample_junk pipe_posix [65] [66] (Some [67, 67]) (Some g) toy_client 0 of (r, n) \<Rightarrow> (Inr r, ((v1, x), n)))
    \<and> EvNewGlobal (Some 9) g \<in> set x \<and> owes x [])"
proof -
  have r: "readable toy_jvm (\<lambda>r. [of_nat r]) (\<lambda>r. [of_nat r, of_nat r])" by (simp add: readable_def toy_jvm_def)
  show ?thesis
    using r native_send_forwards [OF r, of sample_junk pipe_posix 65 66 "Some 67" "Some 9" True toy_client 0] by simp
qed

end
