(* ===== verification/Spec2Isabelle.thy ===== *)
theory Spec2Isabelle
  imports TcpErrors WireErrors AtMostOnce Progress Selectors SocketOptions Logging JniBridge
begin

text \<open>
  A verification library for go-socket-client, a C++ client that keeps one TCP or TLS connection to a
  server, sends requests, matches responses to callbacks, and reconnects.

  \<^bold>\<open>The program and its parts.\<close>
  \<^item> The wire format (\<^verbatim>\<open>src/packet\<close>): exceptions, reader and writer over a socket (\<^verbatim>\<open>src/socket\<close>, plain or TLS), the
    encoders, the message classes and the message manager.
  \<^item> Timers (\<^verbatim>\<open>src/common\<close>, \<^verbatim>\<open>src/object_pool.hpp\<close>): a queue of timed messages with a thread of its own,
    alarms posted to it, and the pool the alarms of requests come from.
  \<^item> Waiting for events (\<^verbatim>\<open>src/socket\<close>): three polling classes behind one interface, the selector, and the
    breaker, a pipe that wakes a blocked selector.
  \<^item> Connecting (\<^verbatim>\<open>src/connect\<close>): name resolution, the state machine of one connection attempt, and the
    race of up to three attempts.
  \<^item> The client (\<^verbatim>\<open>src/tcp_client.cpp\<close>) and the facade (\<^verbatim>\<open>src/net_core.cpp\<close>): application threads queue requests
    and break the selector; the client's own thread connects, logs in, and then writes, reads and pings;
    the timer thread runs the timeout, heartbeat and reconnect callbacks.
  \<^item> The bindings for Java (\<^verbatim>\<open>src/jni\<close>), the logger (\<^verbatim>\<open>src/log\<close>) and the tick counter (\<^verbatim>\<open>src/common/time_utils.c\<close>).

  \<^bold>\<open>The model.\<close> One theory per part, in the order of the calls:
  \<^item> \<open>Prelude\<close>: machine words, \<^verbatim>\<open>TcpException\<close>, and the monad \<open>io\<close> in which fallible code is written: a value or
    a \<open>fault\<close> (an exception, undefined behaviour of the language, or a call that does not return), and a new state in all
    cases. \<open>Posix\<close>: the operating system and OpenSSL, a record of functions over a world \<open>'w\<close>;
    every definition that makes a call takes it as an argument. \<open>StdMap\<close>: \<^verbatim>\<open>std::map\<close> as an ordered
    association list.
  \<^item> \<open>TcpErrors\<close> (\<^verbatim>\<open>tcp_error\<close>), \<open>Sockets\<close> (\<^verbatim>\<open>tcp_socket\<close>, \<^verbatim>\<open>ssl_socket\<close>, \<^verbatim>\<open>tcp_io\<close>), \<open>Encoding\<close>
    (\<^verbatim>\<open>encoding.cpp\<close>, zlib being a parameter), \<open>Messages\<close> (\<^verbatim>\<open>fix_header\<close>, \<^verbatim>\<open>message_base\<close>, \<^verbatim>\<open>message\<close>, \<^verbatim>\<open>message_manager\<close>).
  \<^item> \<open>TimerQueue\<close> (\<^verbatim>\<open>message_queue\<close>), \<open>Alarms\<close> (\<^verbatim>\<open>alarm\<close>, \<^verbatim>\<open>object_pool.hpp\<close>), \<open>Breaker\<close> (\<^verbatim>\<open>socket_breaker\<close>, \<^verbatim>\<open>unix_socket\<close>),
    \<open>Polling\<close> (\<^verbatim>\<open>socket_poll\<close>, \<^verbatim>\<open>socket_epoll\<close>, \<^verbatim>\<open>socket_kqueue\<close>, \<^verbatim>\<open>socket_select\<close>), \<open>Dns\<close> (\<^verbatim>\<open>dns_query\<close>), \<open>Connectors\<close>
    (\<^verbatim>\<open>tcp_connector\<close>, \<^verbatim>\<open>ssl_connector\<close>, \<^verbatim>\<open>complex_connect\<close>), \<open>LogExtract\<close> (\<^verbatim>\<open>loginfo_extract\<close>).
  \<^item> \<open>Client\<close>: the members of \<^verbatim>\<open>TcpClient\<close> as a record and every operation that other threads, alarms and
    handlers call; a call of an application callback is an entry of the log \<open>cl_calls\<close>. \<open>ClientLoop\<close>:
    \<^verbatim>\<open>__RunConnect\<close>, \<^verbatim>\<open>__RunReadWrite\<close> (with \<^verbatim>\<open>scope_guard\<close>) and \<^verbatim>\<open>__Run\<close>. \<open>NetCore\<close>: the facade.
  \<^item> \<open>JniBridge\<close>: \<^verbatim>\<open>ScopedJstring\<close>, the closures handed to the client, and the exported functions, over a record \<open>jvm\<close> of the
    calls of the Java virtual machine. \<open>Clocks\<close>: \<^verbatim>\<open>time_utils.c\<close> on each of its platforms, over a record of the
    systems' clocks; \<open>SocketOptions\<close>: the helpers of \<^verbatim>\<open>unix_socket.cpp\<close> on each platform; \<open>Logging\<close>: \<^verbatim>\<open>zlogger.cpp\<close> and the
    three consoles, with the directives of \<^verbatim>\<open>printf\<close> the program uses.

  \<^bold>\<open>Threads.\<close> Code under one mutex is one step. What the other threads do while the client's thread blocks
  or holds no lock is the argument \<open>re_env\<close> of a run, applied at these points; \<open>ClientThread\<close> requires it to
  consist of the steps \<open>other_step\<close> and composes whole runs with the remaining operations to \<open>system_step\<close>. The
  timer thread is a step relation of its own (\<open>loop_step\<close> in \<open>TimerQueue\<close>); in the client it may call any alarm
  at any time, which covers every schedule of the queue.

  \<^bold>\<open>Loops.\<close> The loops of the integer encoders, of the reader, of \<^verbatim>\<open>fill_addrs\<close> and of the queue end by structure or a
  measure. The calls of zlib, the connection race and the read-write loop may run for ever: \<open>deflate_loop\<close>, \<open>inflate_loop\<close>,
  \<open>impatient_loop\<close> and \<open>rw_loop\<close> are partial functions whose value \<open>None\<close> is not returning, reported as the
  fault \<open>NoReturn\<close>; that they return is proved for the codec laws of zlib (in the round trips), for the connection race on
  a system whose calls take bounded time (\<open>RaceProgress\<close>), and for the read-write loop of a client that is asked to
  disconnect. No fuel is used.

  \<^bold>\<open>What is proved.\<close>
  \<^item> Wire format: a stream of messages survives encoding and decoding over any segmentation by TCP
    or TLS (\<open>Wire\<close>); a decoder consumes exactly the announced bytes and, but for one message type, never runs into
    undefined behaviour (\<open>WireSafety\<close>); the error paths (\<open>WireErrors\<close>).
  \<^item> Timers: the timer thread never oversleeps, cancelled timers are not called, posting and cancelling refine
    a multiset of timers, the life cycle of an alarm.
  \<^item> Selector and breaker: the breaker refines a boolean signal; a round waits for exactly the
    registered descriptors; a wait consumes the signal; the epoll and the kqueue selector answer alike, as abstract
    sets of descriptors say (\<open>Selectors\<close>).
  \<^item> Connecting: the race keeps its bound on open sockets and dereferences no null pointer (\<open>Connectors\<close>); it returns
    within a bound on time computed from its parameters, and the one case in which it does not
    return (\<open>RaceProgress\<close>); results of name resolution on every branch (\<open>Dns\<close>).
  \<^item> Client: \<open>ClientSafety\<close> and \<open>ClientThread\<close> prove one invariant of all reachable states (below, \<open>client_invariant\<close>);
    \<open>Requests\<close> follows a request from registration to response or loss of the connection; \<open>AtMostOnce\<close> shows that no
    interleaving calls a callback twice; \<open>Lifecycle\<close> gives the status changes of a run; \<open>Rounds\<close> is about single
    iterations: disconnecting, waking, heartbeat, and reuse of alarms; \<open>Timeouts\<close> follows the timeout of a request through
    the timer queue; \<open>Delivery\<close> follows a request to the wire and a response from the wire to its callback; \<open>Traffic\<close>: any
    number of requests, in any interleaving with the loop, leave in order, and what arrives is of the class its type names; \<open>Progress\<close>: whole iterations, from the registration
    with the selector to the write, empty the queue.
  \<^item> Java: over any virtual machine, the closures call their listener once, give back what they borrowed and leave the
    thread as they found it, but for the closure of the addresses; a request reaches the client as Java gave
    it. The logger prints what it is given, on Linux through a format the peer can choose; the tick counter shows
    the milliseconds of the system's clock.

  The interfaces are locales, each interpreted on the model: \<open>byte_reader\<close>, \<open>defined_reader\<close> and \<open>byte_writer\<close> (what
  the codec relies on), \<open>dictionary\<close>
  (\<^verbatim>\<open>std::map\<close>), \<open>timer_service\<close> (what alarms rely on), \<open>signal_flag\<close> (the breaker), \<open>poller\<close> (the polling classes),
  \<open>thread_frame\<close> and \<open>thread_invariant\<close> (a predicate a run of the client's thread keeps). \<open>Samples\<close> holds the client the
  properties are evaluated on.

  \<^bold>\<open>Not modelled.\<close> The demo applications and the console test driver, which are no part of the library, and the
  client's log calls, whose output nothing depends on; OpenSSL, zlib, the Java virtual machine and the system calls are parameters.
  Reads of freed or uninitialised memory are
  modelled by arbitrary arguments: the return code read through the dangling pointer of the decoded \<^verbatim>\<open>ConnAck\<close> is \<open>re_stale\<close>,
  uninitialised members come from \<open>junk\<close>. Data races on members the source reads without a lock are atomic
  here, and application callbacks are only logged, so what a callback does to the client is a step of another thread.
\<close>

section \<open>The client as a whole\<close>

text \<open>
  C2: the invariant of the client. In every state that any interleaving of the application's calls, the timer thread
  and runs of the client's thread can reach from a new client: the next message id is neither 0 nor 65535; both
  tables are ordered with unique keys; the alarms of requests in flight and the pooled ones
  exist and none has two owners; the timer queue is ordered by time and uses no id 0; and every alarm
  has a timer id exactly when it is waiting or has gone off.
\<close>

theorem client_invariant:
  assumes "(system_step A P Z)\<^sup>*\<^sup>* (TcpClient_new junk b rw cb dns, w0) (c, w)"
  shows "1 \<le> unat (cl_currentMsgId c) \<and> unat (cl_currentMsgId c) \<le> 65534 \<and>
    sorted_wrt (<) (map fst (cl_callbackMap c)) \<and> sorted_wrt (<) (map fst (cl_timeoutAlarmMap c)) \<and>
    distinct (map snd (cl_timeoutAlarmMap c) @ op_pool (cl_objectPool c)) \<and>
    (\<forall>i \<in> set (map snd (cl_timeoutAlarmMap c) @ op_pool (cl_objectPool c)). i < length (cl_alarms c)) \<and>
    sorted (map msg_when (mq_firstMessage (cl_timers c))) \<and> 0 \<notin> set (ids (cl_timers c)) \<and>
    (\<forall>r. valid_ref r c \<longrightarrow> (al_messageId (get_alarm r c) \<noteq> 0 \<longleftrightarrow> Alarm_IsWaiting (get_alarm r c) \<or> Alarm_IsAlarm (get_alarm r c)))"
proof -
  have ok: "cl_ok c" using reachable_cl_ok [OF assms] by simp
  then have a: "alarms_ok c" and o: "owners_ok c" and i: "msg_id_ok (cl_currentMsgId c)" and m: "map_ok (cl_callbackMap c)"
    by (simp_all add: cl_ok_def)
  have "al_messageId (get_alarm r c) \<noteq> 0 \<longleftrightarrow> Alarm_IsWaiting (get_alarm r c) \<or> Alarm_IsAlarm (get_alarm r c)" if "valid_ref r c" for r
    using armed_get_valid [OF a that] by (simp add: queue_timer.armed_def Alarm_IsWaiting_def Alarm_IsAlarm_def)
  moreover have "sorted (map msg_when (mq_firstMessage (cl_timers c)))" "0 \<notin> set (ids (cl_timers c))"
    using a by (auto simp: alarms_ok_def queue_ok_def by_time_def list_all_iff valid_id_def)
  ultimately show ?thesis
    using i m o by (auto simp: msg_id_range map_ok_def owners_ok_def owned_def list_all_iff)
qed

theorem client_invariant_witness:
  "let c = InitHostAndPort False ''host'' ''10.0.0.1'' 80 False None (TcpClient_new 0 False sample_breaker sample_breaker demo_dns :: nat TcpClient);
       (c1, w1) = MakeSureConnected pipe_posix c 0; (ok, c2, w2) = Send sample_junk pipe_posix [1] [2] (Some 5) c1 w1
   in 1 \<le> unat (cl_currentMsgId c2) \<and> distinct (map snd (cl_timeoutAlarmMap c2) @ op_pool (cl_objectPool c2))"
proof -
  let ?n = "TcpClient_new 0 False sample_breaker sample_breaker demo_dns :: nat TcpClient"
  let ?c = "InitHostAndPort False ''host'' ''10.0.0.1'' 80 False None ?n"
  let ?R = "system_step (\<lambda>_. True) pipe_posix stored_zlib"
  obtain c1 w1 where m: "MakeSureConnected pipe_posix ?c 0 = (c1, w1)" by force
  obtain ok c2 w2 where s: "Send sample_junk pipe_posix [1] [2] (Some 5) c1 w1 = (ok, c2, w2)" by (metis prod_cases3)
  have "?R (?n, 0) (?c, 0)" by (rule system_step.init)
  moreover have "?R (?c, 0) (c1, w1)" by (rule system_step.other [OF other_step.connect [OF m]])
  moreover have "?R (c1, w1) (c2, w2)" by (rule system_step.other [OF other_step.send [OF TrueI s [unfolded Send_def]]])
  ultimately have "?R\<^sup>*\<^sup>* (?n, 0) (c2, w2)" by (meson converse_rtranclp_into_rtranclp rtranclp.rtrancl_refl)
  from client_invariant [OF this] m s show ?thesis by simp
qed

end
